(* ===== verification/Prelude.thy ===== *)
theory Prelude
  imports Main "HOL-Library.AList" "HOL-Library.Multiset"
begin

text \<open>
  What every component of the model shares: JavaScript exceptions as values, the sequencing of
  code that may throw, the sequencing of asynchronous code that may throw, change state or never
  settle, and the generic facts about lists and association lists the components rest on.
\<close>

named_theorems js_simps \<open>evaluation of property reads, writes and copies\<close>
named_theorems io_simps \<open>evaluation of effectful code, one step at a time\<close>

section \<open>Exceptions as values\<close>

text \<open>
  An exception is an \<open>Error\<close> object: its name, its message and the \<open>statusCode\<close> an HTTP error
  carries. Code that may throw returns \<open>Inl\<close> of the exception or \<open>Inr\<close> of its value.
\<close>

record js_error =
  ename :: string
  emessage :: string
  estatus :: "int option"

type_synonym 'a res = "js_error + 'a"

definition Error :: "string \<Rightarrow> js_error" where
  "Error msg = \<lparr>ename = ''Error'', emessage = msg, estatus = None\<rparr>"

definition TypeError :: "string \<Rightarrow> js_error" where
  "TypeError msg = \<lparr>ename = ''TypeError'', emessage = msg, estatus = None\<rparr>"

definition stackOverflow :: js_error where
  "stackOverflow = \<lparr>ename = ''RangeError'',
     emessage = ''Maximum call stack size exceeded'', estatus = None\<rparr>"

lemma ename_simps [simp]:
  "ename (Error m) = ''Error''" "ename (TypeError m) = ''TypeError''"
  "ename stackOverflow = ''RangeError''"
  by (simp_all add: Error_def TypeError_def stackOverflow_def)

lemma emessage_simps [simp]:
  "emessage (Error m) = m" "emessage (TypeError m) = m"
  "emessage stackOverflow = ''Maximum call stack size exceeded''"
  by (simp_all add: Error_def TypeError_def stackOverflow_def)

lemma error_neq [simp]: "TypeError m \<noteq> stackOverflow" "stackOverflow \<noteq> TypeError m"
  "Error m \<noteq> stackOverflow" "stackOverflow \<noteq> Error m"
  "Error m \<noteq> TypeError m'" "TypeError m' \<noteq> Error m"
  by (simp_all add: Error_def TypeError_def stackOverflow_def)

lemma Error_inject [simp]: "Error m = Error m' \<longleftrightarrow> m = m'"
  by (simp add: Error_def)

definition bindR :: "'a res \<Rightarrow> ('a \<Rightarrow> 'b res) \<Rightarrow> 'b res" where
  "bindR m f = (case m of Inl e \<Rightarrow> Inl e | Inr x \<Rightarrow> f x)"

lemma bindR_simps [simp]: "bindR (Inl e) f = Inl e" "bindR (Inr x) f = f x"
  by (simp_all add: bindR_def)

lemma bindR_Inr_iff: "bindR m f = Inr y \<longleftrightarrow> (\<exists>x. m = Inr x \<and> f x = Inr y)"
  by (cases m) auto

lemma bindR_assoc: "bindR (bindR m f) g = bindR m (\<lambda>x. bindR (f x) g)"
  by (cases m) simp_all

text \<open>\<open>xs.map(f)\<close> and \<open>xs.reduce(f, z)\<close> for a callback that may throw: left to right, the first
  exception ends the loop.\<close>

fun mapR :: "('a \<Rightarrow> 'b res) \<Rightarrow> 'a list \<Rightarrow> 'b list res" where
  "mapR f [] = Inr []"
| "mapR f (x # xs) = bindR (f x) (\<lambda>y. bindR (mapR f xs) (\<lambda>ys. Inr (y # ys)))"

fun foldR :: "('b \<Rightarrow> 'a \<Rightarrow> 'b res) \<Rightarrow> 'a list \<Rightarrow> 'b \<Rightarrow> 'b res" where
  "foldR f [] z = Inr z"
| "foldR f (x # xs) z = bindR (f z x) (\<lambda>z'. foldR f xs z')"

lemma mapR_cong [fundef_cong]:
  "xs = ys \<Longrightarrow> (\<And>x. x \<in> set ys \<Longrightarrow> f x = g x) \<Longrightarrow> mapR f xs = mapR g ys"
  by (induction ys arbitrary: xs) auto

lemma foldR_cong [fundef_cong]:
  "xs = ys \<Longrightarrow> z = z' \<Longrightarrow> (\<And>x z. x \<in> set ys \<Longrightarrow> f z x = g z x) \<Longrightarrow> foldR f xs z = foldR g ys z'"
proof (induction ys arbitrary: xs z z')
  case (Cons y ys)
  then show ?case by (cases "g z' y") auto
qed simp

lemma mapR_Inr: "(\<And>x. x \<in> set xs \<Longrightarrow> f x = Inr (g x)) \<Longrightarrow> mapR f xs = Inr (map g xs)"
  by (induction xs) auto

lemma mapR_length: "mapR f xs = Inr ys \<Longrightarrow> length ys = length xs"
  by (induction xs arbitrary: ys) (auto simp: bindR_Inr_iff)

lemma mapR_Inr_iff:
  "mapR f xs = Inr ys \<longleftrightarrow> list_all2 (\<lambda>x y. f x = Inr y) xs ys"
  by (induction xs arbitrary: ys) (auto simp: bindR_Inr_iff list_all2_Cons1)

lemma mapR_Inl: "mapR f xs = Inl e \<Longrightarrow> \<exists>x \<in> set xs. f x = Inl e"
proof (induction xs)
  case (Cons x xs)
  then show ?case by (cases "f x"; cases "mapR f xs") auto
qed simp

lemma foldR_Inr: "(\<And>x z. x \<in> set xs \<Longrightarrow> f z x = Inr (g z x)) \<Longrightarrow> foldR f xs z = Inr (foldl g z xs)"
  by (induction xs arbitrary: z) auto

lemma foldR_append: "foldR f (xs @ ys) z = bindR (foldR f xs z) (foldR f ys)"
proof (induction xs arbitrary: z)
  case (Cons x xs)
  then show ?case by (cases "f z x") simp_all
qed simp

lemma foldR_Inl:
  "foldR f xs z = Inl e \<Longrightarrow> \<exists>x \<in> set xs. \<exists>z'. f z' x = Inl e"
proof (induction xs arbitrary: z)
  case (Cons x xs)
  then show ?case by (cases "f z x") auto
qed simp

section \<open>Effects\<close>

text \<open>
  An asynchronous method is run on a state \<open>'s\<close>: it never settles (\<open>None\<close>), or it settles with a
  rejection or a value and the state it leaves.
\<close>

type_synonym ('s, 'a) io = "'s \<Rightarrow> ('a res \<times> 's) option"

definition ioret :: "'a \<Rightarrow> ('s, 'a) io" where
  "ioret x s = Some (Inr x, s)"

definition iothrow :: "js_error \<Rightarrow> ('s, 'a) io" where
  "iothrow e s = Some (Inl e, s)"

definition iores :: "'a res \<Rightarrow> ('s, 'a) io" where
  "iores r s = Some (r, s)"

definition iobind :: "('s, 'a) io \<Rightarrow> ('a \<Rightarrow> ('s, 'b) io) \<Rightarrow> ('s, 'b) io" where
  "iobind m f s = (case m s of
     None \<Rightarrow> None
   | Some (Inl e, s') \<Rightarrow> Some (Inl e, s')
   | Some (Inr x, s') \<Rightarrow> f x s')"

text \<open>\<open>try { m } catch (e) { h }\<close>: the handler runs in the state the rejected code left.\<close>

definition iocatch :: "('s, 'a) io \<Rightarrow> (js_error \<Rightarrow> ('s, 'a) io) \<Rightarrow> ('s, 'a) io" where
  "iocatch m h s = (case m s of
     None \<Rightarrow> None
   | Some (Inl e, s') \<Rightarrow> h e s'
   | Some (Inr x, s') \<Rightarrow> Some (Inr x, s'))"

lemma io_eval [io_simps]:
  "ioret x s = Some (Inr x, s)" "iothrow e s = Some (Inl e, s)" "iores r s = Some (r, s)"
  by (simp_all add: ioret_def iothrow_def iores_def)

lemma iobind_Some [io_simps]:
  "m s = Some (Inr x, s') \<Longrightarrow> iobind m f s = f x s'"
  "m s = Some (Inl e, s') \<Longrightarrow> iobind m f s = Some (Inl e, s')"
  "m s = None \<Longrightarrow> iobind m f s = None"
  by (simp_all add: iobind_def)

lemma iocatch_Some [io_simps]:
  "m s = Some (Inr x, s') \<Longrightarrow> iocatch m h s = Some (Inr x, s')"
  "m s = Some (Inl e, s') \<Longrightarrow> iocatch m h s = h e s'"
  "m s = None \<Longrightarrow> iocatch m h s = None"
  by (simp_all add: iocatch_def)

lemma iobind_Inr_iff:
  "iobind m f s = Some (Inr y, s'') \<longleftrightarrow>
     (\<exists>x s'. m s = Some (Inr x, s') \<and> f x s' = Some (Inr y, s''))"
  by (auto simp: iobind_def split: option.splits prod.splits sum.splits)

text \<open>
  \<open>Promise.all\<close> over tasks that were all started. The event loop decides which of the pending tasks
  settles next: \<open>pick n s\<close> is its choice among \<open>n\<close>, and any choice is possible. A task's effects
  happen when it settles, whether or not another one was rejected before; the result is the
  rejection that came first in time, or all the values in the order of the tasks.
\<close>

type_synonym 's event_loop = "nat \<Rightarrow> 's \<Rightarrow> nat \<times> 's"

definition without :: "nat \<Rightarrow> 'a list \<Rightarrow> 'a list" where
  "without k xs = take k xs @ drop (Suc k) xs"

lemma length_without: "k < length xs \<Longrightarrow> length (without k xs) = length xs - 1"
  by (simp add: without_def min_def)

lemma mod_length: "xs \<noteq> [] \<Longrightarrow> k mod length xs < length xs"
  by simp

function settle :: "'s event_loop \<Rightarrow> (nat \<times> ('s, 'a) io) list \<Rightarrow> 's \<Rightarrow> ((nat \<times> 'a res) list \<times> 's) option" where
  "settle pick ts s =
     (if ts = [] then Some ([], s)
      else case pick (length ts) s of (k, s1) \<Rightarrow>
        (case ts ! (k mod length ts) of (i, task) \<Rightarrow>
          (case task s1 of
             None \<Rightarrow> None
           | Some (r, s2) \<Rightarrow>
               (case settle pick (without (k mod length ts) ts) s2 of
                  None \<Rightarrow> None
                | Some (log, s3) \<Rightarrow> Some ((i, r) # log, s3)))))"
  by pat_completeness auto
termination by (relation "measure (\<lambda>(pick, ts, s). length ts)") (auto simp: length_without mod_length)

declare settle.simps [simp del]

definition all_values :: "nat \<Rightarrow> (nat \<times> 'a res) list \<Rightarrow> 'a list res" where
  "all_values n log = (case find (\<lambda>(i, r). isl r) log of
     Some (i, r) \<Rightarrow> Inl (projl r)
   | None \<Rightarrow> Inr (map (\<lambda>i. projr (the (map_of log i))) [0..<n]))"

definition ioall :: "'s event_loop \<Rightarrow> ('s, 'a) io list \<Rightarrow> ('s, 'a list) io" where
  "ioall pick ts s = map_option (\<lambda>(log, s'). (all_values (length ts) log, s')) (settle pick (enumerate 0 ts) s)"

text \<open>\<open>Promise.all\<close> of two tasks with results of different types.\<close>

definition ioboth :: "'s event_loop \<Rightarrow> ('s, 'a) io \<Rightarrow> ('s, 'b) io \<Rightarrow> ('s, 'a \<times> 'b) io" where
  "ioboth pick a b s = (case pick 2 s of (k, t) \<Rightarrow>
     if even k
     then (case a t of None \<Rightarrow> None | Some (r, u) \<Rightarrow> (case b u of None \<Rightarrow> None
           | Some (q, v) \<Rightarrow> Some (bindR r (\<lambda>x. bindR q (\<lambda>y. Inr (x, y))), v)))
     else (case b t of None \<Rightarrow> None | Some (q, u) \<Rightarrow> (case a u of None \<Rightarrow> None
           | Some (r, v) \<Rightarrow> Some (bindR q (\<lambda>y. bindR r (\<lambda>x. Inr (x, y))), v))))"

lemma without_Cons: "without 0 (x # xs) = xs" "without (Suc k) (x # xs) = x # without k xs"
  by (simp_all add: without_def)

lemma set_without: "k < length xs \<Longrightarrow> distinct xs \<Longrightarrow> set (without k xs) = set xs - {xs ! k}"
proof (induction xs arbitrary: k)
  case (Cons x xs)
  then show ?case by (cases k) (auto simp: without_Cons)
qed simp

lemma map_without: "map f (without k xs) = without k (map f xs)"
  by (simp add: without_def take_map drop_map)

lemma distinct_without: "distinct xs \<Longrightarrow> distinct (without k xs)"
  unfolding without_def using set_take_disj_set_drop_if_distinct [of xs k "Suc k"] by simp

subsection \<open>What a method does to the state\<close>

text \<open>
  \<open>triple P m Q E\<close>: started in \<open>P\<close>, a run of \<open>m\<close> that settles ends in \<open>Q x\<close> with the value \<open>x\<close> or in \<open>E e\<close>
  with the rejection \<open>e\<close>.
\<close>

definition triple :: "('s \<Rightarrow> bool) \<Rightarrow> ('s, 'a) io \<Rightarrow> ('a \<Rightarrow> 's \<Rightarrow> bool) \<Rightarrow> (js_error \<Rightarrow> 's \<Rightarrow> bool) \<Rightarrow> bool" where
  "triple P m Q E \<longleftrightarrow> (\<forall>s r s'. P s \<longrightarrow> m s = Some (r, s') \<longrightarrow>
     (case r of Inl e \<Rightarrow> E e s' | Inr x \<Rightarrow> Q x s'))"

abbreviation keeps :: "('s \<Rightarrow> bool) \<Rightarrow> ('s, 'a) io \<Rightarrow> bool" where
  "keeps I m \<equiv> triple I m (\<lambda>_. I) (\<lambda>_. I)"

lemma tripleI:
  "(\<And>s x s'. P s \<Longrightarrow> m s = Some (Inr x, s') \<Longrightarrow> Q x s') \<Longrightarrow>
   (\<And>s e s'. P s \<Longrightarrow> m s = Some (Inl e, s') \<Longrightarrow> E e s') \<Longrightarrow> triple P m Q E"
  by (auto simp: triple_def split: sum.splits)

lemma triple_Inr: "triple P m Q E \<Longrightarrow> P s \<Longrightarrow> m s = Some (Inr x, s') \<Longrightarrow> Q x s'"
  and triple_Inl: "triple P m Q E \<Longrightarrow> P s \<Longrightarrow> m s = Some (Inl e, s') \<Longrightarrow> E e s'"
  by (fastforce simp: triple_def)+

lemma keepsD: "keeps I m \<Longrightarrow> I s \<Longrightarrow> m s = Some (r, s') \<Longrightarrow> I s'"
  by (cases r) (auto dest: triple_Inr triple_Inl)

lemma keepsI: "(\<And>s r s'. I s \<Longrightarrow> m s = Some (r, s') \<Longrightarrow> I s') \<Longrightarrow> keeps I m"
  by (rule tripleI) blast+

lemma triple_conseq:
  "triple P m Q E \<Longrightarrow> (\<And>s. P' s \<Longrightarrow> P s) \<Longrightarrow> (\<And>x s. Q x s \<Longrightarrow> Q' x s) \<Longrightarrow>
   (\<And>e s. E e s \<Longrightarrow> E' e s) \<Longrightarrow> triple P' m Q' E'"
  by (fastforce simp: triple_def split: sum.splits)

lemma triple_ret: "(\<And>s. P s \<Longrightarrow> Q x s) \<Longrightarrow> triple P (ioret x) Q E"
  and triple_throw: "(\<And>s. P s \<Longrightarrow> E e s) \<Longrightarrow> triple P (iothrow e) Q E"
  by (auto simp: triple_def io_simps)

lemma triple_bind:
  assumes m: "triple P m R E" and f: "\<And>x. triple (R x) (f x) Q E"
  shows "triple P (iobind m f) Q E"
  unfolding triple_def
proof (intro allI impI)
  fix s r s' assume s: "P s" and run: "iobind m f s = Some (r, s')"
  then obtain q t where t: "m s = Some (q, t)"
    by (auto simp: iobind_def split: option.splits)
  show "case r of Inl e \<Rightarrow> E e s' | Inr x \<Rightarrow> Q x s'"
  proof (cases q)
    case (Inl e)
    then show ?thesis using run t triple_Inl [OF m s] by (auto simp: iobind_def)
  next
    case (Inr x)
    with t m s have "R x t" by (auto dest: triple_Inr)
    then show ?thesis using run t Inr f [of x] by (simp add: iobind_def triple_def)
  qed
qed

lemma triple_catch:
  assumes m: "triple P m Q E'" and h: "\<And>e. triple (E' e) (h e) Q E"
  shows "triple P (iocatch m h) Q E"
  unfolding triple_def
proof (intro allI impI)
  fix s r s' assume s: "P s" and run: "iocatch m h s = Some (r, s')"
  then obtain q t where t: "m s = Some (q, t)"
    by (auto simp: iocatch_def split: option.splits)
  show "case r of Inl e \<Rightarrow> E e s' | Inr x \<Rightarrow> Q x s'"
  proof (cases q)
    case (Inl e)
    with t m s have "E' e t" by (auto dest: triple_Inl)
    then show ?thesis using run t Inl h [of e] by (simp add: iocatch_def triple_def)
  next
    case (Inr x)
    then show ?thesis using run t triple_Inr [OF m s] by (auto simp: iocatch_def)
  qed
qed

text \<open>
  Tasks all run to their end in whatever order: \<open>J L s\<close> is what holds of the results \<open>L\<close> there are and
  the state.
\<close>

lemma settle_rule:
  assumes pick: "\<And>L n s. J L s \<Longrightarrow> J L (snd (pick n s))"
    and task: "\<And>i t L s. (i, t) \<in> set ts \<Longrightarrow> i \<notin> fst ` L \<Longrightarrow> J L s \<Longrightarrow>
      \<exists>r s'. t s = Some (r, s') \<and> J (insert (i, r) L) s'"
    and start: "distinct (map fst ts)" "fst ` L \<inter> fst ` set ts = {}" "J L s"
  shows "\<exists>log s'. settle pick ts s = Some (log, s') \<and> J (L \<union> set log) s'
     \<and> distinct (map fst log) \<and> fst ` set log = fst ` set ts"
  using task start
proof (induction "length ts" arbitrary: ts L s)
  case 0
  then show ?case by (simp add: settle.simps)
next
  case (Suc n)
  obtain k s1 where p: "pick (length ts) s = (k, s1)" by (cases "pick (length ts) s")
  let ?k = "k mod length ts"
  have k: "?k < length ts" using Suc.hyps(2) by (intro mod_length) auto
  obtain i t where it: "ts ! ?k = (i, t)" by (cases "ts ! ?k")
  with k have mem: "(i, t) \<in> set ts" by (metis nth_mem)
  have J1: "J L s1" using pick [OF Suc.prems(4), of "length ts"] p by simp
  have iL: "i \<notin> fst ` L" using Suc.prems(3) mem by force
  from Suc.prems(1) [OF mem iL J1] obtain r s2 where
    r: "t s1 = Some (r, s2)" "J (insert (i, r) L) s2" by blast
  let ?ts = "without ?k ts"
  have fst: "fst ` set ?ts = fst ` set ts - {i}"
    using set_without [of ?k "map fst ts"] k it Suc.prems(2) by (simp flip: map_without set_map)
  have sub: "set ?ts \<subseteq> set ts" by (auto simp: without_def dest: in_set_takeD in_set_dropD)
  have len: "n = length ?ts" using Suc.hyps(2) k by (simp add: length_without)
  have d: "distinct (map fst ?ts)" using distinct_without [OF Suc.prems(2)] by (simp add: map_without)
  have "\<exists>log s'. settle pick ?ts s2 = Some (log, s') \<and> J (insert (i, r) L \<union> set log) s'
     \<and> distinct (map fst log) \<and> fst ` set log = fst ` set ?ts"
  proof (rule Suc.hyps(1) [OF len _ d _ r(2)])
    show "fst ` insert (i, r) L \<inter> fst ` set ?ts = {}" using fst Suc.prems(3) by auto
  qed (use Suc.prems(1) sub in blast)
  then obtain log s3 where log: "settle pick ?ts s2 = Some (log, s3)" "J (insert (i, r) L \<union> set log) s3"
    "distinct (map fst log)" "fst ` set log = fst ` set ?ts" by blast
  have "settle pick ts s = Some ((i, r) # log, s3)"
    using Suc.hyps(2) by (subst settle.simps) (auto simp: p it r(1) log(1))
  moreover have "i \<notin> fst ` set log" "insert i (fst ` set log) = fst ` set ts"
    using log(4) fst mem by force+
  ultimately show ?case using log(2,3) by (auto simp: Un_commute)
qed

lemma all_values_Inr:
  assumes "\<forall>(i, r) \<in> set log. \<exists>y. r = Inr y" "fst ` set log = {..<n}" "distinct (map fst log)"
  shows "\<exists>ys. all_values n log = Inr ys \<and> length ys = n \<and> (\<forall>i < n. (i, Inr (ys ! i)) \<in> set log)"
proof -
  have no: "find (\<lambda>(i, r). isl r) log = None"
    using assms(1) by (fastforce simp: find_None_iff)
  let ?ys = "map (\<lambda>i. projr (the (map_of log i))) [0..<n]"
  have "(i, Inr (?ys ! i)) \<in> set log" if i: "i < n" for i
  proof -
    from i assms(2) have "i \<in> fst ` set log" by simp
    then obtain r where r: "(i, r) \<in> set log" by force
    with assms(1) obtain y where "r = Inr y" by blast
    moreover have "map_of log i = Some r" using r assms(3) by simp
    ultimately show ?thesis using i r by simp
  qed
  with no show ?thesis by (auto simp: all_values_def)
qed

lemma ioall_rule:
  fixes ts :: "('s, 'a) io list"
  assumes pick: "\<And>L n s. J L s \<Longrightarrow> J L (snd (pick n s))"
    and task: "\<And>i L s. i < length ts \<Longrightarrow> i \<notin> fst ` L \<Longrightarrow> J L s \<Longrightarrow>
      \<exists>y s'. (ts ! i) s = Some (Inr y, s') \<and> J (insert (i, y) L) s'"
    and start: "J {} s"
  shows "\<exists>ys s'. ioall pick ts s = Some (Inr ys, s') \<and> length ys = length ts
     \<and> J ((\<lambda>i. (i, ys ! i)) ` {..<length ts}) s'"
proof -
  define J' where "J' L s \<longleftrightarrow> (\<forall>(i, r) \<in> L. \<exists>y. r = Inr y) \<and> J (map_prod id projr ` L) s"
    for L :: "(nat \<times> 'a res) set" and s
  have "\<exists>log s'. settle pick (enumerate 0 ts) s = Some (log, s') \<and> J' ({} \<union> set log) s'
     \<and> distinct (map fst log) \<and> fst ` set log = fst ` set (enumerate 0 ts)"
  proof (rule settle_rule)
    show "J' L (snd (pick n s))" if "J' L s" for L n s
      using that pick by (auto simp: J'_def)
    show "\<exists>r s'. t s = Some (r, s') \<and> J' (insert (i, r) L) s'"
      if it: "(i, t) \<in> set (enumerate 0 ts)" "i \<notin> fst ` L" and J: "J' L s" for i t L s
    proof -
      have i: "i < length ts" "t = ts ! i" using it(1) by (auto simp: in_set_enumerate_eq)
      have "i \<notin> fst ` map_prod id projr ` L" using it(2) by (auto simp: image_image)
      from task [OF i(1) this] J obtain y s' where
        "t s = Some (Inr y, s')" "J (insert (i, y) (map_prod id projr ` L)) s'" unfolding J'_def i(2) by blast
      with J show ?thesis by (auto simp: J'_def)
    qed
    show "J' {} s" using start by (simp add: J'_def)
  qed simp_all
  moreover have "fst ` set (enumerate 0 ts) = {..<length ts}"
    by (simp only: set_map [symmetric] map_fst_enumerate set_upt add_0_left atLeast0LessThan)
  ultimately obtain log s' where log: "settle pick (enumerate 0 ts) s = Some (log, s')" "J' (set log) s'"
    "distinct (map fst log)" "fst ` set log = {..<length ts}" by auto
  have "\<forall>(i, r) \<in> set log. \<exists>y. r = Inr y" using log(2) by (simp add: J'_def)
  from all_values_Inr [OF this log(4,3)] obtain ys where
    ys: "all_values (length ts) log = Inr ys" "length ys = length ts" "\<And>i. i < length ts \<Longrightarrow> (i, Inr (ys ! i)) \<in> set log"
    by blast
  have "map_prod id projr ` set log = (\<lambda>i. (i, ys ! i)) ` {..<length ts}"
  proof (intro set_eqI iffI)
    fix x assume "x \<in> map_prod id projr ` set log"
    then obtain i r where ir: "(i, r) \<in> set log" "x = (i, projr r)" by force
    with log(4) have "i < length ts" by force
    with ys(3) ir(1) log(3) have "r = Inr (ys ! i)" by (metis eq_key_imp_eq_value)
    with ir \<open>i < length ts\<close> show "x \<in> (\<lambda>i. (i, ys ! i)) ` {..<length ts}" by auto
  qed (use ys(3) in force)
  with log(2) have "J ((\<lambda>i. (i, ys ! i)) ` {..<length ts}) s'" by (simp add: J'_def)
  with log(1) ys(1,2) show ?thesis by (auto simp: ioall_def)
qed

lemma settle_keeps:
  assumes pick: "\<And>n s. I s \<Longrightarrow> I (snd (pick n s))" and ts: "\<And>i t. (i, t) \<in> set ts \<Longrightarrow> keeps I t"
    and s: "I s" "settle pick ts s = Some (log, s')"
  shows "I s'"
  using ts s
proof (induction "length ts" arbitrary: ts s log)
  case 0
  then show ?case by (simp add: settle.simps)
next
  case (Suc n)
  obtain k s1 where p: "pick (length ts) s = (k, s1)" by (cases "pick (length ts) s")
  let ?k = "k mod length ts"
  have k: "?k < length ts" using Suc.hyps(2) by (intro mod_length) auto
  obtain i t where it: "ts ! ?k = (i, t)" by (cases "ts ! ?k")
  with k have mem: "(i, t) \<in> set ts" by (metis nth_mem)
  have s1: "I s1" using pick [OF Suc.prems(2), of "length ts"] p by simp
  have ne: "ts \<noteq> []" using Suc.hyps(2) by auto
  from Suc.prems(3) obtain r s2 log' where r: "t s1 = Some (r, s2)" and log: "settle pick (without ?k ts) s2 = Some (log', s')"
    by (subst (asm) settle.simps) (auto simp: p it ne split: option.splits prod.splits)
  have sub: "set (without ?k ts) \<subseteq> set ts" by (auto simp: without_def dest: in_set_takeD in_set_dropD)
  have len: "n = length (without ?k ts)" using Suc.hyps(2) k by (simp add: length_without)
  show ?case
    by (rule Suc.hyps(1) [OF len _ keepsD [OF Suc.prems(1) [OF mem] s1 r] log]) (use Suc.prems(1) sub in blast)
qed

lemma keeps_ioall:
  assumes "\<And>n s. I s \<Longrightarrow> I (snd (pick n s))" and "\<And>t. t \<in> set ts \<Longrightarrow> keeps I t"
  shows "keeps I (ioall pick ts)"
proof (rule keepsI)
  fix s r s' assume "I s" "ioall pick ts s = Some (r, s')"
  then obtain log where "settle pick (enumerate 0 ts) s = Some (log, s')" by (auto simp: ioall_def)
  from settle_keeps [OF assms(1) _ \<open>I s\<close> this] assms(2) show "I s'"
    by (fastforce simp: in_set_enumerate_eq)
qed

lemma keeps_ioboth:
  assumes pick: "\<And>n s. I s \<Longrightarrow> I (snd (pick n s))" and "keeps I a" "keeps I b"
  shows "keeps I (ioboth pick a b)"
proof (rule keepsI)
  fix s r s' assume s: "I s" and run: "ioboth pick a b s = Some (r, s')"
  obtain k t where p: "pick 2 s = (k, t)" by (cases "pick 2 s")
  with pick [OF s, of 2] have t: "I t" by simp
  from run p show "I s'"
    by (auto simp: ioboth_def split: if_splits option.splits
        intro: keepsD [OF assms(3) keepsD [OF assms(2) t]] keepsD [OF assms(2) keepsD [OF assms(3) t]])
qed

lemma keeps_ret [intro]: "keeps I (ioret x)" and keeps_throw [intro]: "keeps I (iothrow e)"
  by (simp_all add: triple_ret triple_throw)

lemma keeps_bind [intro]: "keeps I m \<Longrightarrow> (\<And>x. keeps I (f x)) \<Longrightarrow> keeps I (iobind m f)"
  by (rule triple_bind) auto

lemma keeps_catch [intro]: "keeps I m \<Longrightarrow> (\<And>e. keeps I (h e)) \<Longrightarrow> keeps I (iocatch m h)"
  by (rule triple_catch) auto

section \<open>Lists\<close>

text \<open>\<open>s.includes(t)\<close> and \<open>s.startsWith(t)\<close> on strings.\<close>

fun js_startsWith :: "string \<Rightarrow> string \<Rightarrow> bool" where
  "js_startsWith s [] = True"
| "js_startsWith [] (c # t) = False"
| "js_startsWith (d # s) (c # t) = (d = c \<and> js_startsWith s t)"

fun js_includes :: "string \<Rightarrow> string \<Rightarrow> bool" where
  "js_includes [] t = (t = [])"
| "js_includes (c # s) t = (js_startsWith (c # s) t \<or> js_includes s t)"

lemma js_startsWith_iff: "js_startsWith s t \<longleftrightarrow> (\<exists>r. s = t @ r)"
  by (induction s t rule: js_startsWith.induct) auto

lemma js_includes_iff: "js_includes s t \<longleftrightarrow> (\<exists>p r. s = p @ t @ r)"
proof (induction s)
  case (Cons c s)
  have "(\<exists>p r. c # s = p @ t @ r) \<longleftrightarrow> (\<exists>r. c # s = t @ r) \<or> (\<exists>p r. s = p @ t @ r)"
    (is "?L \<longleftrightarrow> ?R")
  proof
    assume ?L
    then obtain p r where pr: "c # s = p @ t @ r" by blast
    then show ?R by (cases p) auto
  next
    assume ?R
    then show ?L by (metis append_Cons append_Nil)
  qed
  then show ?case using Cons.IH by (simp add: js_startsWith_iff)
qed simp

text \<open>The first element that satisfies \<open>P\<close>, taken out of the list.\<close>

fun take_first :: "('a \<Rightarrow> bool) \<Rightarrow> 'a list \<Rightarrow> 'a option \<times> 'a list" where
  "take_first P [] = (None, [])"
| "take_first P (x # xs) = (if P x then (Some x, xs)
     else (case take_first P xs of (r, ys) \<Rightarrow> (r, x # ys)))"

lemma take_first_None: "fst (take_first P xs) = None \<longleftrightarrow> (\<forall>x \<in> set xs. \<not> P x)"
  by (induction xs) (auto split: prod.splits)

lemma take_first_None_snd: "fst (take_first P xs) = None \<Longrightarrow> snd (take_first P xs) = xs"
  by (induction xs) (auto split: prod.splits if_splits)

lemma take_first_Some:
  "fst (take_first P xs) = Some x \<Longrightarrow> P x \<and> x \<in> set xs \<and> mset xs = add_mset x (mset (snd (take_first P xs)))"
  by (induction xs) (auto split: prod.splits if_splits)

lemma take_first_filter:
  "filter P xs = c # cs \<Longrightarrow> \<exists>rest. take_first P xs = (Some c, rest) \<and> filter P rest = cs
     \<and> filter (\<lambda>x. \<not> P x) rest = filter (\<lambda>x. \<not> P x) xs"
  by (induction xs) (auto split: if_splits)

lemma take_first_append:
  "take_first P (xs @ ys) = (case take_first P xs of
     (None, _) \<Rightarrow> (case take_first P ys of (r, zs) \<Rightarrow> (r, xs @ zs)) | (Some x, zs) \<Rightarrow> (Some x, zs @ ys))"
  by (induction xs) (auto split: prod.splits option.splits)

lemma set_take_first: "set (snd (take_first P xs)) \<subseteq> set xs"
  by (induction xs) (auto split: prod.splits)

lemma list_all2_nthI:
  "length xs = length ys \<Longrightarrow> (\<And>i. i < length xs \<Longrightarrow> P (xs ! i) (ys ! i)) \<Longrightarrow> list_all2 P xs ys"
  by (simp add: list_all2_conv_all_nth)

end
