(* ===== verification/JsValue.thy ===== *)
theory JsValue
  imports Prelude
begin

text \<open>
  The part of JavaScript the code computes with: values, objects and their property order,
  coercions, strict equality, \<open>parseInt\<close> and \<open>JSON.stringify\<close>.
  Numbers are integers (the rounds, identifiers, counts and times of the code are integers a double
  holds exactly) or \<open>NaN\<close>. A string is the list of its code units, those up to U+00FF.
  A plain object is the list of its properties in insertion order. Only block objects are ever
  shared and mutated by the code: they live in a heap and are values by reference (\<open>JRef\<close>);
  every other object is never written after it is built, so it is a tree. The three functions the
  code stores in objects are closures, kept with the variable they capture.
\<close>

section \<open>Values\<close>

datatype jsval =
    JUndef
  | JNull
  | JBool bool
  | JNum int
  | JNaN
  | JStr string
  | JArr "jsval list"
  | JObj "(string \<times> jsval) list"
  | JRef nat
  | JFun js_fun
and js_fun =
    BlockToJSON
  | TxToJSON
  | GetTransactionsByGroup jsval

type_synonym jsobj = "(string \<times> jsval) list"
type_synonym jsheap = "jsobj list"

fun truthy :: "jsval \<Rightarrow> bool" where
  "truthy JUndef = False"
| "truthy JNull = False"
| "truthy (JBool b) = b"
| "truthy (JNum n) = (n \<noteq> 0)"
| "truthy JNaN = False"
| "truthy (JStr s) = (s \<noteq> [])"
| "truthy _ = True"

text \<open>\<open>a === b\<close>: two arrays or two tree objects are never the same object where the code compares
  values, since one comes from the manifest and the other from the chain.\<close>

fun strict_eq :: "jsval \<Rightarrow> jsval \<Rightarrow> bool" where
  "strict_eq JUndef JUndef = True"
| "strict_eq JNull JNull = True"
| "strict_eq (JBool a) (JBool b) = (a = b)"
| "strict_eq (JNum a) (JNum b) = (a = b)"
| "strict_eq (JStr a) (JStr b) = (a = b)"
| "strict_eq (JRef a) (JRef b) = (a = b)"
| "strict_eq _ _ = False"

fun is_scalar :: "jsval \<Rightarrow> bool" where
  "is_scalar JUndef = True"
| "is_scalar JNull = True"
| "is_scalar (JBool b) = True"
| "is_scalar (JNum n) = True"
| "is_scalar (JStr s) = True"
| "is_scalar _ = False"

lemma strict_eq_scalar: "is_scalar a \<or> is_scalar b \<Longrightarrow> strict_eq a b \<longleftrightarrow> a = b"
  by (cases a; cases b) auto

lemma strict_eq_imp_eq: "strict_eq a b \<Longrightarrow> a = b"
  by (cases a; cases b) auto

lemma strict_eq_right [simp]: "is_scalar b \<Longrightarrow> strict_eq a b \<longleftrightarrow> a = b"
  and strict_eq_left [simp]: "is_scalar a \<Longrightarrow> strict_eq a b \<longleftrightarrow> a = b"
  by (simp_all only: strict_eq_scalar simp_thms)

section \<open>Objects\<close>

definition obj_get :: "jsobj \<Rightarrow> string \<Rightarrow> jsval" where
  "obj_get ob k = (case map_of ob k of None \<Rightarrow> JUndef | Some v \<Rightarrow> v)"

definition obj_has :: "jsobj \<Rightarrow> string \<Rightarrow> bool" where
  "obj_has ob k = (map_of ob k \<noteq> None)"

text \<open>\<open>o[k] = v\<close>: a new property goes to the end, an old one keeps its place.\<close>

definition obj_put :: "jsobj \<Rightarrow> string \<Rightarrow> jsval \<Rightarrow> jsobj" where
  "obj_put ob k v = AList.update k v ob"

lemma map_of_obj_put [js_simps]: "map_of (obj_put ob k v) = (map_of ob)(k \<mapsto> v)"
  by (simp add: obj_put_def update_conv')

lemma obj_get_put [simp]: "obj_get (obj_put ob k v) k' = (if k = k' then v else obj_get ob k')"
  by (simp add: obj_get_def map_of_obj_put)

lemma obj_has_put [simp]: "obj_has (obj_put ob k v) k' \<longleftrightarrow> k = k' \<or> obj_has ob k'"
  by (auto simp: obj_has_def map_of_obj_put)

lemma obj_get_Nil [simp]: "obj_get [] k = JUndef" and obj_has_Nil [simp]: "\<not> obj_has [] k"
  by (simp_all add: obj_get_def obj_has_def)

lemma obj_get_Cons [simp]: "obj_get ((k, v) # ob) k' = (if k = k' then v else obj_get ob k')"
  by (simp add: obj_get_def)

lemma obj_has_Cons [simp]: "obj_has ((k, v) # ob) k' \<longleftrightarrow> k = k' \<or> obj_has ob k'"
  by (auto simp: obj_has_def)

lemma obj_get_absent: "\<not> obj_has ob k \<Longrightarrow> obj_get ob k = JUndef"
  by (simp add: obj_get_def obj_has_def)

lemma obj_get_map_of_eq: "map_of ob = map_of ob' \<Longrightarrow> obj_get ob = obj_get ob'"
  by (rule ext) (simp add: obj_get_def)

lemma obj_has_map_of_eq: "map_of ob = map_of ob' \<Longrightarrow> obj_has ob = obj_has ob'"
  by (rule ext) (simp add: obj_has_def)

lemma obj_has_keys: "obj_has ob k \<longleftrightarrow> k \<in> fst ` set ob"
  by (auto simp: obj_has_def map_of_eq_None_iff)

subsection \<open>The order of an object's properties\<close>

text \<open>
  \<open>Object.keys\<close>, \<open>Object.entries\<close>, the spread of an object and \<open>JSON.stringify\<close> list array-index
  keys first, in ascending order, then the others as they were inserted. A key stands once.
\<close>

definition is_digit :: "char \<Rightarrow> bool" where
  "is_digit c \<longleftrightarrow> (48::nat) \<le> of_char c \<and> of_char c \<le> (57::nat)"

definition digit_val :: "char \<Rightarrow> nat" where
  "digit_val c = of_char c - 48"

definition digits_val :: "string \<Rightarrow> nat" where
  "digits_val s = foldl (\<lambda>n c. 10 * n + digit_val c) 0 s"

definition is_index :: "string \<Rightarrow> bool" where
  "is_index k \<longleftrightarrow> k \<noteq> [] \<and> list_all is_digit k \<and> (hd k = CHR ''0'' \<longrightarrow> k = ''0'')
     \<and> digits_val k < 2 ^ 32 - 1"

definition own_entries :: "jsobj \<Rightarrow> jsobj" where
  "own_entries ob = (let ob' = AList.clearjunk ob in
     sort_key (\<lambda>(k, v). digits_val k) (filter (\<lambda>(k, v). is_index k) ob')
       @ filter (\<lambda>(k, v). \<not> is_index k) ob')"

definition own_keys :: "jsobj \<Rightarrow> string list" where
  "own_keys ob = map fst (own_entries ob)"

lemma distinct_own_entries: "distinct (map fst (own_entries ob))"
proof -
  let ?i = "filter (\<lambda>(k, v). is_index k) (AList.clearjunk ob)"
  let ?s = "filter (\<lambda>(k, v). \<not> is_index k) (AList.clearjunk ob)"
  have d: "distinct (map fst (AList.clearjunk ob))" by (rule distinct_clearjunk)
  have "mset (map fst (own_entries ob)) = mset (map fst (AList.clearjunk ob))"
  proof -
    have "mset (own_entries ob) = mset ?i + mset ?s"
      by (simp add: own_entries_def Let_def)
    also have "\<dots> = mset (AList.clearjunk ob)"
      using multiset_partition [of "mset (AList.clearjunk ob)" "\<lambda>(k, v). is_index k"]
      by (simp add: mset_filter case_prod_beta')
    finally show ?thesis by (simp add: mset_map)
  qed
  then show ?thesis using d mset_eq_imp_distinct_iff by blast
qed

lemma set_own_entries: "set (own_entries ob) = set (AList.clearjunk ob)"
  by (auto simp: own_entries_def Let_def)

lemma map_of_own_entries [js_simps]: "map_of (own_entries ob) = map_of ob"
proof -
  have "map_of (own_entries ob) = map_of (AList.clearjunk ob)"
    by (rule map_of_eqI) (auto simp: distinct_own_entries set_own_entries)
  then show ?thesis by (simp add: map_of_clearjunk)
qed

lemma obj_get_own_entries [simp]: "obj_get (own_entries ob) k = obj_get ob k"
  by (simp add: obj_get_def js_simps)

lemma obj_has_own_entries [simp]: "obj_has (own_entries ob) k \<longleftrightarrow> obj_has ob k"
  by (simp add: obj_has_def js_simps)

lemma set_own_keys: "set (own_keys ob) = {k. obj_has ob k}"
proof -
  have "set (own_keys ob) = dom (map_of (own_entries ob))"
    by (simp add: own_keys_def dom_map_of_conv_image_fst)
  also have "\<dots> = {k. obj_has ob k}"
    by (simp only: map_of_own_entries dom_def obj_has_def)
  finally show ?thesis .
qed

lemma own_entries_plain:
  assumes "distinct (map fst ob)" and plain: "\<And>k. k \<in> fst ` set ob \<Longrightarrow> \<not> is_index k"
  shows "own_entries ob = ob"
proof -
  from plain have "filter (\<lambda>(k, v). is_index k) ob = []"
    and "filter (\<lambda>(k, v). \<not> is_index k) ob = ob"
    by (force simp: filter_empty_conv filter_id_conv)+
  with assms(1) show ?thesis by (simp add: own_entries_def distinct_clearjunk_id)
qed

text \<open>\<open>{...t, ...o}\<close> for objects: the properties of \<open>o\<close> are written over those of \<open>t\<close>.\<close>

definition spread_into :: "jsobj \<Rightarrow> jsobj \<Rightarrow> jsobj" where
  "spread_into t ob = fold (\<lambda>(k, v) a. obj_put a k v) (own_entries ob) t"

lemma fold_put_map_of:
  "map_of (fold (\<lambda>(k, v) a. obj_put a k v) es t) = map_of t ++ map_of (rev es)"
  by (induction es arbitrary: t) (auto simp: js_simps map_add_def fun_eq_iff split: option.splits)

lemma map_of_spread_into [js_simps]: "map_of (spread_into t ob) = map_of t ++ map_of ob"
proof -
  have "map_of (rev (own_entries ob)) = map_of (own_entries ob)"
    by (rule map_of_eqI) (auto simp: distinct_own_entries simp flip: rev_map)
  then show ?thesis by (simp add: spread_into_def fold_put_map_of map_of_own_entries)
qed

lemma obj_get_spread [simp]:
  "obj_get (spread_into t ob) k = (if obj_has ob k then obj_get ob k else obj_get t k)"
  by (auto simp: obj_get_def obj_has_def js_simps map_add_def split: option.splits)

lemma obj_get_spread_Nil [simp]: "obj_get (spread_into [] ob) k = obj_get ob k"
  by (simp add: obj_get_absent)

lemma obj_has_spread [simp]: "obj_has (spread_into t ob) k \<longleftrightarrow> obj_has ob k \<or> obj_has t k"
  by (auto simp: obj_has_def js_simps map_add_def split: option.splits)

end
