(* ===== verification/JsText.thy ===== *)
theory JsText
  imports JsValue
begin

text \<open>
  The part of JavaScript that turns numbers and values into text and back: decimal printing,
  \<open>parseInt\<close>, the coercions of \<open>+\<close> and \<open><\<close>, and \<open>JSON.stringify\<close>.
\<close>

section \<open>Decimal numbers\<close>

definition digit_char :: "nat \<Rightarrow> char" where
  "digit_char d = char_of (48 + d)"

fun show_nat :: "nat \<Rightarrow> string" where
  "show_nat n = (if n < 10 then [digit_char n] else show_nat (n div 10) @ [digit_char (n mod 10)])"

declare show_nat.simps [simp del]

definition show_int :: "int \<Rightarrow> string" where
  "show_int i = (if i < 0 then CHR ''-'' # show_nat (nat (- i)) else show_nat (nat i))"

lemma digit_char_simps [simp]:
  assumes "d < 10"
  shows "is_digit (digit_char d)" "digit_val (digit_char d) = d"
  using assms by (simp_all add: is_digit_def digit_val_def digit_char_def of_char_of take_bit_nat_def)

lemma digits_val_append:
  "digits_val (s @ [c]) = 10 * digits_val s + digit_val c"
  by (simp add: digits_val_def)

lemma show_nat_digits: "list_all is_digit (show_nat n)"
  by (induction n rule: show_nat.induct) (subst show_nat.simps, auto)

lemma show_nat_nonempty [simp]: "show_nat n \<noteq> []"
  by (subst show_nat.simps) simp

lemma digits_val_show_nat [simp]: "digits_val (show_nat n) = n"
proof (induction n rule: show_nat.induct)
  case (1 n)
  show ?case
  proof (cases "n < 10")
    case True
    then show ?thesis by (subst show_nat.simps) (simp add: digits_val_def)
  next
    case False
    with "1.IH" show ?thesis by (subst show_nat.simps) (simp add: digits_val_append)
  qed
qed

text \<open>
  \<open>parseInt(s, 10)\<close>: skip white space, take an optional sign and the longest run of digits; no
  digit means \<open>NaN\<close>. What follows the digits is ignored.
\<close>

definition is_space :: "char \<Rightarrow> bool" where
  "is_space c \<longleftrightarrow> (of_char c :: nat) \<in> {9, 10, 11, 12, 13, 32, 160}"

fun parse_unsigned :: "string \<Rightarrow> jsval" where
  "parse_unsigned s = (let ds = takeWhile is_digit s in
     if ds = [] then JNaN else JNum (int (digits_val ds)))"

fun js_negate :: "jsval \<Rightarrow> jsval" where
  "js_negate (JNum n) = JNum (- n)"
| "js_negate v = v"

definition parseInt10 :: "string \<Rightarrow> jsval" where
  "parseInt10 s = (case dropWhile is_space s of
     [] \<Rightarrow> JNaN
   | c # t \<Rightarrow> (if c = CHR ''-'' then js_negate (parse_unsigned t)
               else if c = CHR ''+'' then parse_unsigned t
               else parse_unsigned (c # t)))"

lemma digit_not_sign: "is_digit c \<Longrightarrow> \<not> is_space c \<and> c \<noteq> CHR ''-'' \<and> c \<noteq> CHR ''+''"
  by (auto simp: is_digit_def is_space_def)

lemma takeWhile_digits: "list_all is_digit s \<Longrightarrow> takeWhile is_digit s = s"
  by (simp add: list_all_iff takeWhile_eq_all_conv)

lemma parse_unsigned_show_nat: "parse_unsigned (show_nat n) = JNum (int n)"
  by (simp add: takeWhile_digits show_nat_digits Let_def)

lemma parseInt10_digits:
  assumes "list_all is_digit s" and "s \<noteq> []"
  shows "parseInt10 s = JNum (int (digits_val s))"
proof -
  obtain c t where s: "s = c # t" using assms(2) by (cases s) auto
  with assms(1) have "is_digit c" by simp
  then have c: "\<not> is_space c" "c \<noteq> CHR ''-''" "c \<noteq> CHR ''+''" by (auto dest: digit_not_sign)
  have "parseInt10 s = parse_unsigned s" using s c by (simp add: parseInt10_def)
  then show ?thesis using assms by (simp add: takeWhile_digits Let_def)
qed

lemma parseInt10_show_int: "parseInt10 (show_int i) = JNum i"
proof (cases "i < 0")
  case True
  have "\<not> is_space (CHR ''-'')" by (simp add: is_space_def)
  with True show ?thesis
    by (simp add: show_int_def parseInt10_def parse_unsigned_show_nat del: parse_unsigned.simps)
next
  case False
  then show ?thesis by (simp add: show_int_def parseInt10_digits show_nat_digits)
qed

text \<open>A text whose first character is neither a space, a sign nor a digit is not a number.\<close>

lemma parseInt10_NaN:
  assumes "\<not> is_digit c" "\<not> is_space c" "c \<noteq> CHR ''-''" "c \<noteq> CHR ''+''"
  shows "parseInt10 (c # s) = JNaN"
  using assms by (simp add: parseInt10_def)

lemma show_int_inject [simp]: "show_int i = show_int j \<longleftrightarrow> i = j"
  by (metis jsval.inject(2) parseInt10_show_int)

section \<open>Coercions\<close>

text \<open>
  \<open>Number(s)\<close>, for the decimal integer literals; a literal with a fraction or an exponent is no
  integer of the model and reads as \<open>NaN\<close>.
\<close>

definition trim :: "string \<Rightarrow> string" where
  "trim s = rev (dropWhile is_space (rev (dropWhile is_space s)))"

definition string_to_number :: "string \<Rightarrow> jsval" where
  "string_to_number s = (case trim s of
     [] \<Rightarrow> JNum 0
   | c # t \<Rightarrow> (let ds = (if c = CHR ''-'' \<or> c = CHR ''+'' then t else c # t) in
       if ds \<noteq> [] \<and> list_all is_digit ds
       then (if c = CHR ''-'' then JNum (- int (digits_val ds)) else JNum (int (digits_val ds)))
       else JNaN))"

fun join_with :: "string \<Rightarrow> string list \<Rightarrow> string" where
  "join_with sep [] = []"
| "join_with sep [s] = s"
| "join_with sep (s # ss) = s @ sep @ join_with sep ss"

fun js_to_string :: "jsval \<Rightarrow> string" where
  "js_to_string JUndef = ''undefined''"
| "js_to_string JNull = ''null''"
| "js_to_string (JBool b) = (if b then ''true'' else ''false'')"
| "js_to_string (JNum n) = show_int n"
| "js_to_string JNaN = ''NaN''"
| "js_to_string (JStr s) = s"
| "js_to_string (JArr xs) = join_with '',''
     (map (\<lambda>x. if x = JUndef \<or> x = JNull then [] else js_to_string x) xs)"
| "js_to_string (JObj _) = ''[object Object]''"
| "js_to_string (JRef _) = ''[object Object]''"
| "js_to_string (JFun _) = ''function''"

fun to_number :: "jsval \<Rightarrow> jsval" where
  "to_number JNull = JNum 0"
| "to_number (JBool b) = JNum (if b then 1 else 0)"
| "to_number (JNum n) = JNum n"
| "to_number (JStr s) = string_to_number s"
| "to_number (JArr xs) = string_to_number (js_to_string (JArr xs))"
| "to_number _ = JNaN"

text \<open>\<open>v + 1\<close>: text and objects are concatenated, everything else is added.\<close>

fun js_plus1 :: "jsval \<Rightarrow> jsval" where
  "js_plus1 (JStr s) = JStr (s @ ''1'')"
| "js_plus1 (JArr xs) = JStr (js_to_string (JArr xs) @ ''1'')"
| "js_plus1 (JObj ps) = JStr (js_to_string (JObj ps) @ ''1'')"
| "js_plus1 (JRef r) = JStr (js_to_string (JRef r) @ ''1'')"
| "js_plus1 (JFun f) = JStr (js_to_string (JFun f) @ ''1'')"
| "js_plus1 v = (case to_number v of JNum n \<Rightarrow> JNum (n + 1) | _ \<Rightarrow> JNaN)"

text \<open>\<open>a < b\<close> and \<open>a >= b\<close> for values of which at most one is text: both become numbers, and a
  comparison with \<open>NaN\<close> is false either way.\<close>

definition js_less :: "jsval \<Rightarrow> jsval \<Rightarrow> bool" where
  "js_less a b = (case (to_number a, to_number b) of (JNum m, JNum n) \<Rightarrow> m < n | _ \<Rightarrow> False)"

definition js_geq :: "jsval \<Rightarrow> jsval \<Rightarrow> bool" where
  "js_geq a b = (case (to_number a, to_number b) of (JNum m, JNum n) \<Rightarrow> n \<le> m | _ \<Rightarrow> False)"

lemma js_cmp_JNum [simp]:
  "js_less (JNum m) (JNum n) \<longleftrightarrow> m < n" "js_geq (JNum m) (JNum n) \<longleftrightarrow> n \<le> m"
  by (simp_all add: js_less_def js_geq_def)

text \<open>\<open>a % b\<close> has the sign of \<open>a\<close>; by zero it is \<open>NaN\<close>.\<close>

definition trunc_mod :: "int \<Rightarrow> int \<Rightarrow> int" where
  "trunc_mod a b = sgn a * (\<bar>a\<bar> mod \<bar>b\<bar>)"

definition js_mod :: "jsval \<Rightarrow> jsval \<Rightarrow> jsval" where
  "js_mod a b = (case (to_number a, to_number b) of
     (JNum m, JNum n) \<Rightarrow> if n = 0 then JNaN else JNum (trunc_mod m n)
   | _ \<Rightarrow> JNaN)"

lemma trunc_mod_0_iff: "b \<noteq> 0 \<Longrightarrow> trunc_mod a b = 0 \<longleftrightarrow> b dvd a"
  by (auto simp: trunc_mod_def sgn_0_0 dvd_eq_mod_eq_0 [symmetric])

end
