(* ===== verification/JsJson.thy ===== *)
theory JsJson
  imports JsText
begin

text \<open>
  \<open>JSON.stringify\<close>: the serialiser over values with block references, its plain text for trees,
  and the injectivity of that text, on which the use of a text as an identity rests.
\<close>

section \<open>Strings\<close>

definition hex_char :: "nat \<Rightarrow> char" where
  "hex_char d = (if d < 10 then char_of (48 + d) else char_of (87 + d))"

definition escape :: "char \<Rightarrow> string" where
  "escape c = (let n = (of_char c :: nat) in
     if n = 34 then [CHR 0x5C, CHR 0x22]
     else if n = 92 then [CHR 0x5C, CHR 0x5C]
     else if n = 8 then [CHR 0x5C, CHR ''b'']
     else if n = 12 then [CHR 0x5C, CHR ''f'']
     else if n = 10 then [CHR 0x5C, CHR ''n'']
     else if n = 13 then [CHR 0x5C, CHR ''r'']
     else if n = 9 then [CHR 0x5C, CHR ''t'']
     else if n < 32 then [CHR 0x5C, CHR ''u'', CHR ''0'', CHR ''0'', hex_char (n div 16), hex_char (n mod 16)]
     else [c])"

definition quote :: "string \<Rightarrow> string" where
  "quote s = CHR 0x22 # concat (map escape s) @ [CHR 0x22]"

text \<open>One escaped character can be read back, whatever follows it.\<close>

definition unhex :: "char \<Rightarrow> nat" where
  "unhex c = (if is_digit c then digit_val c else of_char c - 87)"

fun unescape :: "string \<Rightarrow> char \<times> string" where
  "unescape (a # b # s) =
     (if a \<noteq> CHR 0x5C then (a, b # s)
      else if b = CHR ''b'' then (char_of (8::nat), s)
      else if b = CHR ''f'' then (char_of (12::nat), s)
      else if b = CHR ''n'' then (char_of (10::nat), s)
      else if b = CHR ''r'' then (char_of (13::nat), s)
      else if b = CHR ''t'' then (char_of (9::nat), s)
      else if b = CHR ''u'' then
        (char_of (16 * unhex (s ! 2) + unhex (s ! 3)), drop 4 s)
      else (b, s))"
| "unescape [a] = (a, [])"
| "unescape [] = (CHR 0x22, [])"

lemma unhex_hex_char: "d < 16 \<Longrightarrow> unhex (hex_char d) = d"
  by (simp add: unhex_def hex_char_def is_digit_def digit_val_def of_char_of take_bit_nat_def)

lemma char_of_codeI: "(of_char c :: nat) = n \<Longrightarrow> char_of n = c"
  by auto

lemma char_of_quote_codes [simp]:
  "char_of (34::nat) = CHR 0x22" "char_of (92::nat) = CHR 0x5C"
  by (rule char_of_codeI, simp)+

lemma unescape_plain: "a \<noteq> CHR 0x5C \<Longrightarrow> unescape (a # s) = (a, s)"
  by (cases s) simp_all

lemma unescape_escape: "unescape (escape c @ x) = (c, x)"
proof -
  let ?n = "of_char c :: nat"
  consider "?n \<in> {34, 92, 8, 12, 10, 13, 9}" | "?n \<notin> {34, 92, 8, 12, 10, 13, 9}" "?n < 32"
    | "?n \<notin> {34, 92, 8, 12, 10, 13, 9}" "\<not> ?n < 32" by blast
  then show ?thesis
  proof cases
    case 1
    then show ?thesis
      by (elim insertE) (simp_all add: escape_def char_of_codeI, auto dest!: char_of_codeI)
  next
    case 2
    then have "escape c = [CHR 0x5C, CHR ''u'', CHR ''0'', CHR ''0'', hex_char (?n div 16), hex_char (?n mod 16)]"
      by (simp add: escape_def Let_def)
    moreover have "unhex (hex_char (?n div 16)) = ?n div 16" "unhex (hex_char (?n mod 16)) = ?n mod 16"
      using 2 by (simp_all add: unhex_hex_char)
    moreover have "char_of (16 * (?n div 16) + ?n mod 16) = c" by (rule char_of_codeI) simp
    ultimately show ?thesis by simp
  next
    case 3
    then have "escape c = [c]" "c \<noteq> CHR 0x5C" by (auto simp: escape_def)
    then show ?thesis by (simp add: unescape_plain)
  qed
qed

lemma escape_prefix: "escape c @ x = escape d @ y \<Longrightarrow> c = d \<and> x = y"
  by (metis unescape_escape prod.inject)

lemma escape_not_quote: "escape c \<noteq> [] \<and> hd (escape c) \<noteq> CHR 0x22"
  by (auto simp: escape_def Let_def)

lemma quote_body_prefix:
  "concat (map escape s) @ CHR 0x22 # x = concat (map escape t) @ CHR 0x22 # y \<Longrightarrow> s = t \<and> x = y"
proof (induction s arbitrary: t)
  case Nil
  show ?case
  proof (cases t)
    case (Cons d t')
    with Nil show ?thesis using escape_not_quote [of d] by (cases "escape d") auto
  qed (use Nil in simp)
next
  case (Cons c s)
  show ?case
  proof (cases t)
    case Nil
    with Cons.prems show ?thesis using escape_not_quote [of c] by (cases "escape c") auto
  next
    case (Cons d t')
    with Cons.prems have "escape c @ concat (map escape s) @ CHR 0x22 # x
      = escape d @ concat (map escape t') @ CHR 0x22 # y" by simp
    then have "c = d" and "concat (map escape s) @ CHR 0x22 # x = concat (map escape t') @ CHR 0x22 # y"
      by (auto dest: escape_prefix)
    with Cons.IH Cons show ?thesis by blast
  qed
qed

lemma quote_prefix: "quote s @ x = quote t @ y \<Longrightarrow> s = t \<and> x = y"
  by (rule quote_body_prefix) (simp add: quote_def)

section \<open>The text of a tree\<close>

fun json_text :: "jsval \<Rightarrow> string" where
  "json_text (JBool b) = (if b then ''true'' else ''false'')"
| "json_text (JNum n) = show_int n"
| "json_text (JStr s) = quote s"
| "json_text (JArr xs) = ''['' @ join_with '','' (map json_text xs) @ '']''"
| "json_text (JObj ps) =
     ''{'' @ join_with '','' (map (\<lambda>(k, v). quote k @ '':'' @ json_text v) ps) @ ''}''"
| "json_text _ = ''null''"

text \<open>Values that come out of a JSON text: trees of objects with distinct keys.\<close>

fun is_json :: "jsval \<Rightarrow> bool" where
  "is_json JNull = True"
| "is_json (JBool b) = True"
| "is_json (JNum n) = True"
| "is_json (JStr s) = True"
| "is_json (JArr xs) = list_all is_json xs"
| "is_json (JObj ps) = (distinct (map fst ps) \<and> list_all (\<lambda>(k, v). is_json v) ps)"
| "is_json _ = False"

definition delimited :: "string \<Rightarrow> bool" where
  "delimited x \<longleftrightarrow> x = [] \<or> hd x \<in> {CHR '','', CHR '']'', CHR ''}''}"

lemma delimited_simps [simp]:
  "delimited []" "delimited (CHR '','' # x)" "delimited (CHR '']'' # x)" "delimited (CHR ''}'' # x)"
  by (simp_all add: delimited_def)

definition prefix_inj_on :: "'a set \<Rightarrow> ('a \<Rightarrow> string) \<Rightarrow> bool" where
  "prefix_inj_on A f \<longleftrightarrow> (\<forall>a \<in> A. \<forall>b. \<forall>x y. f a @ x = f b @ y \<longrightarrow> delimited x \<longrightarrow> delimited y
     \<longrightarrow> b \<in> A \<longrightarrow> a = b \<and> x = y)"

lemma join_with_Cons: "join_with sep (s # ss) = s @ (if ss = [] then [] else sep @ join_with sep ss)"
  by (cases ss) simp_all

lemma join_prefix:
  assumes elt: "\<And>a b x y. a \<in> set xs \<Longrightarrow> b \<in> set ys \<Longrightarrow> f a @ x = f b @ y \<Longrightarrow> delimited x
      \<Longrightarrow> delimited y \<Longrightarrow> a = b \<and> x = y"
    and ne: "\<And>a. f a \<noteq> [] \<and> hd (f a) \<noteq> c" and c: "delimited [c]" "c \<noteq> CHR '',''"
    and eq: "join_with '','' (map f xs) @ c # x = join_with '','' (map f ys) @ c # y"
  shows "xs = ys \<and> x = y"
  using elt eq
proof (induction xs arbitrary: ys)
  case Nil
  show ?case
  proof (cases ys)
    case (Cons b ys')
    with Nil.prems show ?thesis using ne [of b] by (cases "f b") (auto simp: join_with_Cons)
  qed (use Nil in simp)
next
  case (Cons a xs)
  show ?case
  proof (cases ys)
    case Nil
    with Cons.prems show ?thesis using ne [of a] by (cases "f a") (auto simp: join_with_Cons)
  next
    case (Cons b ys')
    let ?r = "\<lambda>zs z. (if zs = [] then [] else '','' @ join_with '','' (map f zs)) @ c # z"
    have "f a @ ?r xs x = f b @ ?r ys' y"
      using Cons.prems(2) Cons by (simp add: join_with_Cons)
    moreover have "delimited (?r zs z)" for zs z
      using c by (auto simp: delimited_def)
    ultimately have "a = b \<and> ?r xs x = ?r ys' y"
      by (intro Cons.prems(1)) (simp_all add: \<open>ys = b # ys'\<close>)
    then have ab: "a = b" and r: "?r xs x = ?r ys' y" by simp_all
    show ?thesis
    proof (cases "xs = [] \<or> ys' = []")
      case True
      with r c(2) ab Cons show ?thesis by (auto split: if_splits)
    next
      case False
      with r have "join_with '','' (map f xs) @ c # x = join_with '','' (map f ys') @ c # y" by simp
      with Cons.IH [of ys'] Cons.prems(1) Cons ab show ?thesis by auto
    qed
  qed
qed

lemma show_int_chars: "list_all (\<lambda>c. is_digit c \<or> c = CHR ''-'') (show_int i)"
  using show_nat_digits by (auto simp: show_int_def list_all_iff)

lemma show_int_nonempty [simp]: "show_int i \<noteq> []"
  by (simp add: show_int_def)

lemma show_int_prefix:
  assumes eq: "show_int i @ x = show_int j @ y" and x: "delimited x" and y: "delimited y"
  shows "i = j \<and> x = y"
proof -
  let ?p = "\<lambda>c. is_digit c \<or> c = CHR ''-''"
  have stop: "takeWhile ?p (show_int k @ z) = show_int k" if "delimited z" for k z
  proof -
    have "takeWhile ?p (show_int k @ z) = show_int k @ takeWhile ?p z"
      using show_int_chars by (auto simp: list_all_iff intro!: takeWhile_append2)
    also have "takeWhile ?p z = []"
      using that by (cases z) (auto simp: delimited_def is_digit_def)
    finally show ?thesis by simp
  qed
  have "show_int i = show_int j" using stop [OF x, of i] stop [OF y, of j] eq by simp
  then show ?thesis using eq by simp
qed

text \<open>The kind of a value can be read off the first character of its text.\<close>

definition text_kind :: "char \<Rightarrow> nat" where
  "text_kind c = (if c = CHR ''n'' then 0 else if c = CHR ''t'' then 1 else if c = CHR ''f'' then 2
     else if c = CHR 0x22 then 3 else if c = CHR ''['' then 4 else if c = CHR ''{'' then 5
     else if is_digit c \<or> c = CHR ''-'' then 6 else 7)"

fun value_kind :: "jsval \<Rightarrow> nat" where
  "value_kind (JBool b) = (if b then 1 else 2)"
| "value_kind (JNum n) = 6"
| "value_kind (JStr s) = 3"
| "value_kind (JArr xs) = 4"
| "value_kind (JObj ps) = 5"
| "value_kind _ = 0"

lemma show_int_hd: "text_kind (hd (show_int i)) = 6"
proof -
  obtain c s where s: "show_int i = c # s" by (cases "show_int i") auto
  then have "is_digit c \<or> c = CHR ''-''" using show_int_chars [of i] by simp
  moreover have "is_digit c \<Longrightarrow> c \<notin> {CHR ''n'', CHR ''t'', CHR ''f'', CHR 0x22, CHR ''['', CHR ''{''}"
    by (auto simp: is_digit_def)
  ultimately show ?thesis using s by (auto simp: text_kind_def)
qed

lemma json_text_hd: "json_text v \<noteq> [] \<and> text_kind (hd (json_text v)) = value_kind v"
proof (cases v)
  case (JNum n)
  then show ?thesis by (simp add: show_int_hd)
qed (auto simp: text_kind_def quote_def)

lemma json_text_not_closing: "json_text v \<noteq> [] \<and> hd (json_text v) \<noteq> CHR '']''"
  using json_text_hd [of v] by (cases v) (auto simp: text_kind_def is_digit_def)

lemma json_text_kind_eq:
  assumes "json_text v @ x = json_text w @ y"
  shows "value_kind v = value_kind w"
  using assms json_text_hd [of v] json_text_hd [of w]
  by (metis hd_append2)

text \<open>\<open>JSON.stringify\<close> is injective on JSON values, whatever delimiter follows the text.\<close>

lemma json_text_prefix:
  "json_text v @ x = json_text w @ y \<Longrightarrow> is_json v \<Longrightarrow> is_json w \<Longrightarrow> delimited x \<Longrightarrow> delimited y
   \<Longrightarrow> v = w \<and> x = y"
proof (induction v arbitrary: w x y rule: json_text.induct)
  case (1 b)
  then show ?case using json_text_kind_eq [OF "1.prems"(1)] by (cases w) (auto split: if_splits)
next
  case (2 n)
  then obtain m where w: "w = JNum m"
    using json_text_kind_eq [OF "2.prems"(1)] by (cases w) (auto split: if_splits)
  with "2.prems" show ?case using show_int_prefix [of n x m y] by simp
next
  case (3 s)
  then obtain t where w: "w = JStr t"
    using json_text_kind_eq [OF "3.prems"(1)] by (cases w) (auto split: if_splits)
  with "3.prems" show ?case using quote_prefix [of s x t y] by simp
next
  case (4 xs)
  then obtain ys where w: "w = JArr ys"
    using json_text_kind_eq [OF "4.prems"(1)] by (cases w) (auto split: if_splits)
  have "xs = ys \<and> x = y"
  proof (rule join_prefix [where f = json_text and c = "CHR '']''"])
    show "join_with '','' (map json_text xs) @ CHR '']'' # x = join_with '','' (map json_text ys) @ CHR '']'' # y"
      using "4.prems"(1) w by simp
    show "a = b \<and> x = y" if "a \<in> set xs" "b \<in> set ys" "json_text a @ x = json_text b @ y"
      "delimited x" "delimited y" for a b x y
      using "4.IH" [OF that(1), of x b y] that "4.prems"(2,3) w by (simp add: list_all_iff)
  qed (use json_text_not_closing in auto)
  with w show ?case by simp
next
  case (5 ps)
  then obtain qs where w: "w = JObj qs"
    using json_text_kind_eq [OF "5.prems"(1)] by (cases w) (auto split: if_splits)
  let ?f = "\<lambda>(k, v). quote k @ '':'' @ json_text v"
  have "ps = qs \<and> x = y"
  proof (rule join_prefix [where f = ?f and c = "CHR ''}''"])
    show "join_with '','' (map ?f ps) @ CHR ''}'' # x = join_with '','' (map ?f qs) @ CHR ''}'' # y"
      using "5.prems"(1) w by simp
    fix a b x y
    assume a: "a \<in> set ps" and b: "b \<in> set qs" and eq: "?f a @ x = ?f b @ y"
      and d: "delimited x" "delimited y"
    obtain k v where kv: "a = (k, v)" by (cases a)
    obtain l u where lu: "b = (l, u)" by (cases b)
    from eq kv lu have "quote k @ CHR '':'' # json_text v @ x = quote l @ CHR '':'' # json_text u @ y"
      by simp
    then have "k = l" and t: "json_text v @ x = json_text u @ y" by (auto dest: quote_prefix)
    have "is_json v" "is_json u"
      using a b kv lu "5.prems"(2,3) w by (auto simp: list_all_iff)
    then have "v = u \<and> x = y" by (intro "5.IH" [OF a kv [symmetric]] t d)
    with \<open>k = l\<close> kv lu show "a = b \<and> x = y" by simp
  qed (auto simp: quote_def)
  with w show ?case by simp
next
  case "6_1"
  then show ?case by simp
next
  case "6_2"
  then show ?case using json_text_kind_eq [OF "6_2.prems"(1)] by (cases w) (auto split: if_splits)
qed simp_all

corollary json_text_inject:
  "is_json v \<Longrightarrow> is_json w \<Longrightarrow> json_text v = json_text w \<longleftrightarrow> v = w"
  using json_text_prefix [of v "[]" w "[]"] by auto

section \<open>The serialiser\<close>

text \<open>
  \<open>JSON.stringify(v)\<close> on values with functions and block references. \<open>tj f o\<close> is what the \<open>toJSON\<close>
  method \<open>f\<close> returns on the object \<open>o\<close>; \<open>undefined\<close> and functions have no text (\<open>None\<close>): they are
  left out of an object and stand as \<open>null\<close> in an array. A block met again while it is being written
  is a circular structure. \<open>n\<close> is what is left of the call stack.
\<close>

definition deref :: "jsheap \<Rightarrow> nat \<Rightarrow> jsobj" where
  "deref H r = (if r < length H then H ! r else [])"

fun own_props :: "jsheap \<Rightarrow> jsval \<Rightarrow> jsobj" where
  "own_props H (JObj ps) = ps"
| "own_props H (JRef r) = deref H r"
| "own_props H v = []"

definition apply_toJSON :: "(js_fun \<Rightarrow> jsobj \<Rightarrow> jsval) \<Rightarrow> jsheap \<Rightarrow> jsval \<Rightarrow> jsval" where
  "apply_toJSON tj H v = (case obj_get (own_props H v) ''toJSON'' of
     JFun f \<Rightarrow> tj f (own_props H v)
   | _ \<Rightarrow> v)"

definition json_members :: "(string \<times> string option) list \<Rightarrow> string" where
  "json_members ms = ''{'' @ join_with '',''
     (List.map_filter (\<lambda>(k, t). map_option (\<lambda>s. quote k @ '':'' @ s) t) ms) @ ''}''"

definition json_elements :: "string option list \<Rightarrow> string" where
  "json_elements ts = ''['' @ join_with '','' (map (\<lambda>t. case t of None \<Rightarrow> ''null'' | Some s \<Rightarrow> s) ts) @ '']''"

fun json_ser :: "(js_fun \<Rightarrow> jsobj \<Rightarrow> jsval) \<Rightarrow> jsheap \<Rightarrow> nat \<Rightarrow> nat list \<Rightarrow> jsval \<Rightarrow> string option res" where
  "json_ser tj H 0 seen v = Inl stackOverflow"
| "json_ser tj H (Suc n) seen v = (case apply_toJSON tj H v of
     JUndef \<Rightarrow> Inr None
   | JFun f \<Rightarrow> Inr None
   | JArr xs \<Rightarrow> bindR (mapR (json_ser tj H n seen) xs) (\<lambda>ts. Inr (Some (json_elements ts)))
   | JObj ps \<Rightarrow> bindR (mapR (\<lambda>(k, u). bindR (json_ser tj H n seen u) (\<lambda>t. Inr (k, t))) (own_entries ps))
       (\<lambda>ms. Inr (Some (json_members ms)))
   | JRef r \<Rightarrow> if r \<in> set seen then Inl (TypeError ''Converting circular structure to JSON'')
       else bindR (mapR (\<lambda>(k, u). bindR (json_ser tj H n (r # seen) u) (\<lambda>t. Inr (k, t)))
              (own_entries (deref H r)))
            (\<lambda>ms. Inr (Some (json_members ms)))
   | w \<Rightarrow> Inr (Some (json_text w)))"

text \<open>A JSON tree whose objects list their properties in the order JavaScript does, and its depth.\<close>

fun ordered_json :: "jsval \<Rightarrow> bool" where
  "ordered_json (JArr xs) = list_all ordered_json xs"
| "ordered_json (JObj ps) = (own_entries ps = ps \<and> list_all (\<lambda>(k, v). ordered_json v) ps)"
| "ordered_json v = True"

fun depth :: "jsval \<Rightarrow> nat" where
  "depth (JArr xs) = Suc (foldr (\<lambda>x. max (depth x)) xs 0)"
| "depth (JObj ps) = Suc (foldr (\<lambda>(k, v). max (depth v)) ps 0)"
| "depth v = 1"

lemma depth_elem: "x \<in> set xs \<Longrightarrow> depth x < depth (JArr xs)"
proof -
  assume "x \<in> set xs"
  then have "depth x \<le> foldr (\<lambda>x. max (depth x)) xs 0" by (induction xs) auto
  then show ?thesis by simp
qed

lemma depth_field: "(k, v) \<in> set ps \<Longrightarrow> depth v < depth (JObj ps)"
proof -
  assume "(k, v) \<in> set ps"
  then have "depth v \<le> foldr (\<lambda>(k, v). max (depth v)) ps 0" by (induction ps) auto
  then show ?thesis by simp
qed

lemma obj_get_in_values: "obj_get ps k \<noteq> JUndef \<Longrightarrow> (k, obj_get ps k) \<in> set ps"
  by (auto simp: obj_get_def split: option.splits dest: map_of_SomeD)

lemma is_json_get: "is_json (JObj ps) \<Longrightarrow> obj_get ps k = JUndef \<or> is_json (obj_get ps k)"
  using obj_get_in_values [of ps k] by (force simp: list_all_iff)

lemma apply_toJSON_json: "is_json v \<Longrightarrow> apply_toJSON tj H v = v"
  using is_json_get [of _ "''toJSON''"]
  by (cases v) (fastforce simp: apply_toJSON_def split: jsval.splits)+

lemma map_filter_Some: "List.map_filter (\<lambda>x. Some (f x)) xs = map f xs"
  by (induction xs) (simp_all add: List.map_filter_def)

lemma json_ser_tree:
  "is_json v \<Longrightarrow> ordered_json v \<Longrightarrow> depth v \<le> n \<Longrightarrow> json_ser tj H n seen v = Inr (Some (json_text v))"
proof (induction n arbitrary: v)
  case 0
  then show ?case by (cases v) auto
next
  case (Suc n)
  show ?case
  proof (cases v)
    case (JArr xs)
    have "mapR (json_ser tj H n seen) xs = Inr (map (\<lambda>x. Some (json_text x)) xs)"
    proof (rule mapR_Inr)
      fix x assume x: "x \<in> set xs"
      then have "is_json x" "ordered_json x" "depth x \<le> n"
        using Suc.prems JArr depth_elem [OF x] by (auto simp: list_all_iff)
      then show "json_ser tj H n seen x = Inr (Some (json_text x))" by (rule Suc.IH)
    qed
    then show ?thesis using JArr Suc.prems(1)
      by (simp add: apply_toJSON_json json_elements_def comp_def)
  next
    case (JObj ps)
    let ?g = "\<lambda>(k, u). bindR (json_ser tj H n seen u) (\<lambda>t. Inr (k, t))"
    have "mapR ?g (own_entries ps) = Inr (map (\<lambda>(k, u). (k, Some (json_text u))) ps)"
    proof -
      have "mapR ?g ps = Inr (map (\<lambda>(k, u). (k, Some (json_text u))) ps)"
      proof (rule mapR_Inr)
        fix x assume x: "x \<in> set ps"
        obtain k u where ku: "x = (k, u)" by (cases x)
        then have "is_json u" "ordered_json u" "depth u \<le> n"
          using Suc.prems JObj x depth_field [of k u ps] by (auto simp: list_all_iff)
        then have "json_ser tj H n seen u = Inr (Some (json_text u))" by (rule Suc.IH)
        with ku show "?g x = Inr ((\<lambda>(k, u). (k, Some (json_text u))) x)" by simp
      qed
      then show ?thesis using Suc.prems(2) JObj by simp
    qed
    moreover have "json_members (map (\<lambda>(k, u). (k, Some (json_text u))) ps) = json_text (JObj ps)"
      by (simp add: json_members_def List.map_filter_def comp_def case_prod_beta')
    ultimately show ?thesis using JObj Suc.prems(1) by (simp add: apply_toJSON_json)
  qed (use Suc.prems in \<open>simp_all add: apply_toJSON_json\<close>)
qed

end
