(* ===== verification/Interfaces.thy ===== *)
theory Interfaces
  imports JsJson
begin

text \<open>
  The data of a block as \<^verbatim>\<open>packages/types/src/interfaces.ts\<close> declares it: one record per interface
  (a field \<open>f\<close> of an interface is the field \<open>p_f\<close> of its record, \<open>p\<close> a prefix of the interface, an
  optional field an option), and for each the JavaScript object it stands for, whose absent fields
  are absent. A transaction nests transactions, so it is a datatype with named fields. The methods
  of a block and the \<open>block\<close> field of a transaction are added when a block is built: here \<open>tx_block\<close>
  is the block a transaction refers back to, \<open>blk_hash\<close> is absent in what the indexer returns, and
  \<open>getTransactionsByGroup\<close> is a function of the component that builds blocks.
\<close>

definition req_field :: "string \<Rightarrow> ('a \<Rightarrow> jsval) \<Rightarrow> 'a \<Rightarrow> jsobj" where
  "req_field k f v = [(k, f v)]"

definition opt_field :: "string \<Rightarrow> ('a \<Rightarrow> jsval) \<Rightarrow> 'a option \<Rightarrow> jsobj" where
  "opt_field k f v = (case v of None \<Rightarrow> [] | Some x \<Rightarrow> [(k, f x)])"

definition js_arr :: "('a \<Rightarrow> jsval) \<Rightarrow> 'a list \<Rightarrow> jsval" where
  "js_arr f xs = JArr (map f xs)"

lemma obj_get_append: "obj_get (xs @ ys) k = (if obj_has xs k then obj_get xs k else obj_get ys k)"
  by (auto simp: obj_get_def obj_has_def map_add_def split: option.splits)

lemma obj_has_append: "obj_has (xs @ ys) k \<longleftrightarrow> obj_has xs k \<or> obj_has ys k"
  by (auto simp: obj_has_def map_add_def split: option.splits)

definition opt_val :: "('a \<Rightarrow> jsval) \<Rightarrow> 'a option \<Rightarrow> jsval" where
  "opt_val f v = (case v of None \<Rightarrow> JUndef | Some x \<Rightarrow> f x)"

lemma opt_val_simps [simp]: "opt_val f None = JUndef" "opt_val f (Some x) = f x"
  by (simp_all add: opt_val_def)

lemma get_field [js_simps]:
  "obj_get (req_field k f v @ ys) k' = (if k = k' then f v else obj_get ys k')"
  "k \<noteq> k' \<Longrightarrow> obj_get (opt_field k f u @ ys) k' = obj_get ys k'"
  "\<not> obj_has ys k \<Longrightarrow> obj_get (opt_field k f u @ ys) k = opt_val f u"
  "obj_get (req_field k f v) k' = (if k = k' then f v else JUndef)"
  "obj_get (opt_field k f u) k' = (if k = k' then opt_val f u else JUndef)"
  by (auto simp: req_field_def opt_field_def opt_val_def obj_get_append obj_get_absent
      split: option.splits)

lemma has_field [js_simps]:
  "obj_has (req_field k f v @ ys) k' \<longleftrightarrow> k = k' \<or> obj_has ys k'"
  "obj_has (opt_field k f u @ ys) k' \<longleftrightarrow> (k = k' \<and> u \<noteq> None) \<or> obj_has ys k'"
  "obj_has (req_field k f v) k' \<longleftrightarrow> k = k'"
  "obj_has (opt_field k f u) k' \<longleftrightarrow> k = k' \<and> u \<noteq> None"
  by (auto simp: req_field_def opt_field_def split: option.splits)

section \<open>The parts of a transaction and of a block\<close>

datatype EOnCompletion = noop | optin | closeout | clear | update | delete

fun js_of_EOnCompletion :: "EOnCompletion \<Rightarrow> jsval" where
  "js_of_EOnCompletion noop = JStr ''noop''"
| "js_of_EOnCompletion optin = JStr ''optin''"
| "js_of_EOnCompletion closeout = JStr ''closeout''"
| "js_of_EOnCompletion clear = JStr ''clear''"
| "js_of_EOnCompletion update = JStr ''update''"
| "js_of_EOnCompletion delete = JStr ''delete''"

record BlockReward =
  rew_feeSink :: "string"
  rew_rewardsCalculationRound :: "int"
  rew_rewardsLevel :: "int"
  rew_rewardsPool :: "string"
  rew_rewardsRate :: "string"
  rew_rewardsResidue :: "int"

definition js_of_BlockReward :: "BlockReward \<Rightarrow> jsval" where
  "js_of_BlockReward x = JObj (
     req_field ''feeSink'' JStr (rew_feeSink x) @
     req_field ''rewardsCalculationRound'' JNum (rew_rewardsCalculationRound x) @
     req_field ''rewardsLevel'' JNum (rew_rewardsLevel x) @
     req_field ''rewardsPool'' JStr (rew_rewardsPool x) @
     req_field ''rewardsRate'' JStr (rew_rewardsRate x) @
     req_field ''rewardsResidue'' JNum (rew_rewardsResidue x))"

record StateSchema =
  ss_numByteSlice :: "int"
  ss_numUint :: "int"

definition js_of_StateSchema :: "StateSchema \<Rightarrow> jsval" where
  "js_of_StateSchema x = JObj (
     req_field ''numByteSlice'' JNum (ss_numByteSlice x) @
     req_field ''numUint'' JNum (ss_numUint x))"

record EvalDelta =
  ed_action :: "int"
  ed_bytes :: "string option"
  ed_uint :: "int option"

definition js_of_EvalDelta :: "EvalDelta \<Rightarrow> jsval" where
  "js_of_EvalDelta x = JObj (
     req_field ''action'' JNum (ed_action x) @
     opt_field ''bytes'' JStr (ed_bytes x) @
     opt_field ''uint'' JNum (ed_uint x))"

record EvalDeltaKeyValue =
  kv_key :: "string"
  kv_value :: "EvalDelta"

definition js_of_EvalDeltaKeyValue :: "EvalDeltaKeyValue \<Rightarrow> jsval" where
  "js_of_EvalDeltaKeyValue x = JObj (
     req_field ''key'' JStr (kv_key x) @
     req_field ''value'' js_of_EvalDelta (kv_value x))"

record TransactionAssetParam =
  par_clawback :: "string option"
  par_creator :: "string"
  par_decimals :: "int"
  par_defaultFrozen :: "bool option"
  par_freeze :: "string option"
  par_manager :: "string option"
  par_metadataHash :: "string option"
  par_name :: "string option"
  par_nameB64 :: "string option"
  par_reserve :: "string option"
  par_total :: "int"
  par_unitName :: "string option"
  par_unitNameB64 :: "string option"
  par_url :: "string option"
  par_urlB64 :: "string option"

definition js_of_TransactionAssetParam :: "TransactionAssetParam \<Rightarrow> jsval" where
  "js_of_TransactionAssetParam x = JObj (
     opt_field ''clawback'' JStr (par_clawback x) @
     req_field ''creator'' JStr (par_creator x) @
     req_field ''decimals'' JNum (par_decimals x) @
     opt_field ''defaultFrozen'' JBool (par_defaultFrozen x) @
     opt_field ''freeze'' JStr (par_freeze x) @
     opt_field ''manager'' JStr (par_manager x) @
     opt_field ''metadataHash'' JStr (par_metadataHash x) @
     opt_field ''name'' JStr (par_name x) @
     opt_field ''nameB64'' JStr (par_nameB64 x) @
     opt_field ''reserve'' JStr (par_reserve x) @
     req_field ''total'' JNum (par_total x) @
     opt_field ''unitName'' JStr (par_unitName x) @
     opt_field ''unitNameB64'' JStr (par_unitNameB64 x) @
     opt_field ''url'' JStr (par_url x) @
     opt_field ''urlB64'' JStr (par_urlB64 x))"

record TransactionApplication =
  app_accounts :: "(string list) option"
  app_applicationArgs :: "(string list) option"
  app_applicationId :: "int"
  app_approvalProgram :: "string option"
  app_clearStateProgram :: "string option"
  app_extraProgramPages :: "int option"
  app_foreignApps :: "(int list) option"
  app_foreignAssets :: "(int list) option"
  app_globalStateSchema :: "StateSchema option"
  app_localStateSchema :: "StateSchema option"
  app_onCompletion :: "EOnCompletion"

definition js_of_TransactionApplication :: "TransactionApplication \<Rightarrow> jsval" where
  "js_of_TransactionApplication x = JObj (
     opt_field ''accounts'' (js_arr JStr) (app_accounts x) @
     opt_field ''applicationArgs'' (js_arr JStr) (app_applicationArgs x) @
     req_field ''applicationId'' JNum (app_applicationId x) @
     opt_field ''approvalProgram'' JStr (app_approvalProgram x) @
     opt_field ''clearStateProgram'' JStr (app_clearStateProgram x) @
     opt_field ''extraProgramPages'' JNum (app_extraProgramPages x) @
     opt_field ''foreignApps'' (js_arr JNum) (app_foreignApps x) @
     opt_field ''foreignAssets'' (js_arr JNum) (app_foreignAssets x) @
     opt_field ''globalStateSchema'' js_of_StateSchema (app_globalStateSchema x) @
     opt_field ''localStateSchema'' js_of_StateSchema (app_localStateSchema x) @
     req_field ''onCompletion'' js_of_EOnCompletion (app_onCompletion x))"

record TransactionAssetConfig =
  acfg_assetId :: "int option"
  acfg_params :: "TransactionAssetParam option"

definition js_of_TransactionAssetConfig :: "TransactionAssetConfig \<Rightarrow> jsval" where
  "js_of_TransactionAssetConfig x = JObj (
     opt_field ''assetId'' JNum (acfg_assetId x) @
     opt_field ''params'' js_of_TransactionAssetParam (acfg_params x))"

record TransactionAssetFreeze =
  afrz_address :: "string"
  afrz_assetId :: "int"
  afrz_newFreezeStatus :: "bool"

definition js_of_TransactionAssetFreeze :: "TransactionAssetFreeze \<Rightarrow> jsval" where
  "js_of_TransactionAssetFreeze x = JObj (
     req_field ''address'' JStr (afrz_address x) @
     req_field ''assetId'' JNum (afrz_assetId x) @
     req_field ''newFreezeStatus'' JBool (afrz_newFreezeStatus x))"

record TransactionAssetTransfer =
  axfer_amount :: "int"
  axfer_assetId :: "int"
  axfer_closeAmount :: "int option"
  axfer_closeTo :: "string option"
  axfer_receiver :: "string"
  axfer_sender :: "string option"

definition js_of_TransactionAssetTransfer :: "TransactionAssetTransfer \<Rightarrow> jsval" where
  "js_of_TransactionAssetTransfer x = JObj (
     req_field ''amount'' JNum (axfer_amount x) @
     req_field ''assetId'' JNum (axfer_assetId x) @
     opt_field ''closeAmount'' JNum (axfer_closeAmount x) @
     opt_field ''closeTo'' JStr (axfer_closeTo x) @
     req_field ''receiver'' JStr (axfer_receiver x) @
     opt_field ''sender'' JStr (axfer_sender x))"

record TransactionKeyreg =
  keyreg_nonParticipation :: "bool option"
  keyreg_selectionParticipationKey :: "string option"
  keyreg_stateProofKey :: "string option"
  keyreg_voteFirstValid :: "int option"
  keyreg_voteKeyDilution :: "int option"
  keyreg_voteLastValid :: "int option"
  keyreg_voteParticipationKey :: "string option"

definition js_of_TransactionKeyreg :: "TransactionKeyreg \<Rightarrow> jsval" where
  "js_of_TransactionKeyreg x = JObj (
     opt_field ''nonParticipation'' JBool (keyreg_nonParticipation x) @
     opt_field ''selectionParticipationKey'' JStr (keyreg_selectionParticipationKey x) @
     opt_field ''stateProofKey'' JStr (keyreg_stateProofKey x) @
     opt_field ''voteFirstValid'' JNum (keyreg_voteFirstValid x) @
     opt_field ''voteKeyDilution'' JNum (keyreg_voteKeyDilution x) @
     opt_field ''voteLastValid'' JNum (keyreg_voteLastValid x) @
     opt_field ''voteParticipationKey'' JStr (keyreg_voteParticipationKey x))"

record TransactionPayment =
  pay_amount :: "int"
  pay_closeAmount :: "int option"
  pay_closeRemainderTo :: "string option"
  pay_receiver :: "string"

definition js_of_TransactionPayment :: "TransactionPayment \<Rightarrow> jsval" where
  "js_of_TransactionPayment x = JObj (
     req_field ''amount'' JNum (pay_amount x) @
     opt_field ''closeAmount'' JNum (pay_closeAmount x) @
     opt_field ''closeRemainderTo'' JStr (pay_closeRemainderTo x) @
     req_field ''receiver'' JStr (pay_receiver x))"

record TransactionSignatureMultisigSubsignature =
  sub_publicKey :: "string option"
  sub_signature :: "string option"

definition js_of_TransactionSignatureMultisigSubsignature :: "TransactionSignatureMultisigSubsignature \<Rightarrow> jsval" where
  "js_of_TransactionSignatureMultisigSubsignature x = JObj (
     opt_field ''publicKey'' JStr (sub_publicKey x) @
     opt_field ''signature'' JStr (sub_signature x))"

record TransactionSignatureMultisig =
  msig_subsignature :: "(TransactionSignatureMultisigSubsignature list) option"
  msig_threshold :: "int option"
  msig_version :: "int option"

definition js_of_TransactionSignatureMultisig :: "TransactionSignatureMultisig \<Rightarrow> jsval" where
  "js_of_TransactionSignatureMultisig x = JObj (
     opt_field ''subsignature'' (js_arr js_of_TransactionSignatureMultisigSubsignature) (msig_subsignature x) @
     opt_field ''threshold'' JNum (msig_threshold x) @
     opt_field ''version'' JNum (msig_version x))"

record TransactionSignatureLogicsig =
  lsig_args :: "(string list) option"
  lsig_logic :: "string"
  lsig_multisigSignature :: "TransactionSignatureMultisig option"
  lsig_signature :: "string option"

definition js_of_TransactionSignatureLogicsig :: "TransactionSignatureLogicsig \<Rightarrow> jsval" where
  "js_of_TransactionSignatureLogicsig x = JObj (
     opt_field ''args'' (js_arr JStr) (lsig_args x) @
     req_field ''logic'' JStr (lsig_logic x) @
     opt_field ''multisigSignature'' js_of_TransactionSignatureMultisig (lsig_multisigSignature x) @
     opt_field ''signature'' JStr (lsig_signature x))"

record TransactionSignature =
  sig_logicsig :: "TransactionSignatureLogicsig option"
  sig_multisig :: "TransactionSignatureMultisig option"
  sig_sig :: "string option"

definition js_of_TransactionSignature :: "TransactionSignature \<Rightarrow> jsval" where
  "js_of_TransactionSignature x = JObj (
     opt_field ''logicsig'' js_of_TransactionSignatureLogicsig (sig_logicsig x) @
     opt_field ''multisig'' js_of_TransactionSignatureMultisig (sig_multisig x) @
     opt_field ''sig'' JStr (sig_sig x))"

record BlockUpgradeState =
  ups_currentProtocol :: "string"
  ups_nextProtocol :: "string option"
  ups_nextProtocolApprovals :: "int option"
  ups_nextProtocolSwitchOn :: "int option"
  ups_nextProtocolVoteBefore :: "int option"

definition js_of_BlockUpgradeState :: "BlockUpgradeState \<Rightarrow> jsval" where
  "js_of_BlockUpgradeState x = JObj (
     req_field ''currentProtocol'' JStr (ups_currentProtocol x) @
     opt_field ''nextProtocol'' JStr (ups_nextProtocol x) @
     opt_field ''nextProtocolApprovals'' JNum (ups_nextProtocolApprovals x) @
     opt_field ''nextProtocolSwitchOn'' JNum (ups_nextProtocolSwitchOn x) @
     opt_field ''nextProtocolVoteBefore'' JNum (ups_nextProtocolVoteBefore x))"

record BlockUpgradeVote =
  upv_upgradeApprove :: "bool option"
  upv_upgradeDelay :: "int option"
  upv_upgradePropose :: "string option"

definition js_of_BlockUpgradeVote :: "BlockUpgradeVote \<Rightarrow> jsval" where
  "js_of_BlockUpgradeVote x = JObj (
     opt_field ''upgradeApprove'' JBool (upv_upgradeApprove x) @
     opt_field ''upgradeDelay'' JNum (upv_upgradeDelay x) @
     opt_field ''upgradePropose'' JStr (upv_upgradePropose x))"


section \<open>Transactions and blocks\<close>

datatype AlgorandTransaction = AlgorandTransaction
  (tx_applicationTransaction: "TransactionApplication option")
  (tx_assetConfigTransaction: "TransactionAssetConfig option")
  (tx_assetFreezeTransaction: "TransactionAssetFreeze option")
  (tx_assetTransferTransaction: "TransactionAssetTransfer option")
  (tx_authAddr: "string option")
  (tx_closeRewards: "int option")
  (tx_closingAmount: "int option")
  (tx_confirmedRound: "int option")
  (tx_createdApplicationIndex: "int option")
  (tx_createdAssetIndex: "int option")
  (tx_fee: "int")
  (tx_firstValid: "int")
  (tx_genesisHash: "string option")
  (tx_genesisId: "string option")
  (tx_globalStateDelta: "(EvalDeltaKeyValue list) option")
  (tx_group: "string option")
  (tx_id: "string option")
  (tx_innerTxns: "AlgorandTransaction list option")
  (tx_intraRoundOffset: "int option")
  (tx_keyregTransaction: "TransactionKeyreg option")
  (tx_lastValid: "int")
  (tx_lease: "string option")
  (tx_localStateDelta: "(string list) option")
  (tx_logs: "(string list) option")
  (tx_note: "string option")
  (tx_paymentTransaction: "TransactionPayment option")
  (tx_receiverRewards: "int option")
  (tx_rekeyTo: "string option")
  (tx_roundTime: "int option")
  (tx_sender: "string")
  (tx_senderRewards: "int option")
  (tx_signature: "TransactionSignature option")
  (tx_txType: "string")
  (tx_block: "nat option")

lemma size_innerTxns [termination_simp]:
  "tx_innerTxns t = Some ts \<Longrightarrow> u \<in> set ts \<Longrightarrow> size u < size t"
  by (cases t) (auto dest: size_list_estimation' [where f = size, OF _ order.refl])

function js_of_AlgorandTransaction :: "AlgorandTransaction \<Rightarrow> jsval" where
  "js_of_AlgorandTransaction t = JObj (
     opt_field ''applicationTransaction'' js_of_TransactionApplication (tx_applicationTransaction t) @
     opt_field ''assetConfigTransaction'' js_of_TransactionAssetConfig (tx_assetConfigTransaction t) @
     opt_field ''assetFreezeTransaction'' js_of_TransactionAssetFreeze (tx_assetFreezeTransaction t) @
     opt_field ''assetTransferTransaction'' js_of_TransactionAssetTransfer (tx_assetTransferTransaction t) @
     opt_field ''authAddr'' JStr (tx_authAddr t) @
     opt_field ''closeRewards'' JNum (tx_closeRewards t) @
     opt_field ''closingAmount'' JNum (tx_closingAmount t) @
     opt_field ''confirmedRound'' JNum (tx_confirmedRound t) @
     opt_field ''createdApplicationIndex'' JNum (tx_createdApplicationIndex t) @
     opt_field ''createdAssetIndex'' JNum (tx_createdAssetIndex t) @
     req_field ''fee'' JNum (tx_fee t) @
     req_field ''firstValid'' JNum (tx_firstValid t) @
     opt_field ''genesisHash'' JStr (tx_genesisHash t) @
     opt_field ''genesisId'' JStr (tx_genesisId t) @
     opt_field ''globalStateDelta'' (js_arr js_of_EvalDeltaKeyValue) (tx_globalStateDelta t) @
     opt_field ''group'' JStr (tx_group t) @
     opt_field ''id'' JStr (tx_id t) @
     (case tx_innerTxns t of None \<Rightarrow> []
        | Some ts \<Rightarrow> [(''innerTxns'', JArr (map js_of_AlgorandTransaction ts))]) @
     opt_field ''intraRoundOffset'' JNum (tx_intraRoundOffset t) @
     opt_field ''keyregTransaction'' js_of_TransactionKeyreg (tx_keyregTransaction t) @
     req_field ''lastValid'' JNum (tx_lastValid t) @
     opt_field ''lease'' JStr (tx_lease t) @
     opt_field ''localStateDelta'' (js_arr JStr) (tx_localStateDelta t) @
     opt_field ''logs'' (js_arr JStr) (tx_logs t) @
     opt_field ''note'' JStr (tx_note t) @
     opt_field ''paymentTransaction'' js_of_TransactionPayment (tx_paymentTransaction t) @
     opt_field ''receiverRewards'' JNum (tx_receiverRewards t) @
     opt_field ''rekeyTo'' JStr (tx_rekeyTo t) @
     opt_field ''roundTime'' JNum (tx_roundTime t) @
     req_field ''sender'' JStr (tx_sender t) @
     opt_field ''senderRewards'' JNum (tx_senderRewards t) @
     opt_field ''signature'' js_of_TransactionSignature (tx_signature t) @
     req_field ''txType'' JStr (tx_txType t) @
     opt_field ''block'' JRef (tx_block t))"
  by pat_completeness auto
termination
  by (relation "measure size") (auto simp: size_innerTxns)

declare js_of_AlgorandTransaction.simps [simp del]

record AlgorandBlock =
  blk_hash :: "string option"
  blk_genesisHash :: "string"
  blk_genesisId :: "string"
  blk_previousBlockHash :: "string"
  blk_rewards :: "(BlockReward list) option"
  blk_round :: "int"
  blk_seed :: "string"
  blk_timestamp :: "int"
  blk_transactions :: "(AlgorandTransaction list) option"
  blk_transactionsRoot :: "string"
  blk_txnCounter :: "int option"
  blk_upgradeState :: "BlockUpgradeState option"
  blk_upgradeVote :: "BlockUpgradeVote option"

definition js_of_AlgorandBlock :: "AlgorandBlock \<Rightarrow> jsval" where
  "js_of_AlgorandBlock b = JObj (
     opt_field ''hash'' JStr (blk_hash b) @
     req_field ''genesisHash'' JStr (blk_genesisHash b) @
     req_field ''genesisId'' JStr (blk_genesisId b) @
     req_field ''previousBlockHash'' JStr (blk_previousBlockHash b) @
     opt_field ''rewards'' (js_arr js_of_BlockReward) (blk_rewards b) @
     req_field ''round'' JNum (blk_round b) @
     req_field ''seed'' JStr (blk_seed b) @
     req_field ''timestamp'' JNum (blk_timestamp b) @
     opt_field ''transactions'' (js_arr js_of_AlgorandTransaction) (blk_transactions b) @
     req_field ''transactionsRoot'' JStr (blk_transactionsRoot b) @
     opt_field ''txnCounter'' JNum (blk_txnCounter b) @
     opt_field ''upgradeState'' js_of_BlockUpgradeState (blk_upgradeState b) @
     opt_field ''upgradeVote'' js_of_BlockUpgradeVote (blk_upgradeVote b))"

end
