(* ===== verification/ProjectTypes.thy ===== *)
theory ProjectTypes
  imports Interfaces
begin

text \<open>
  The declarations of a project: \<^verbatim>\<open>packages/types/src/project.ts\<close>, with the predicates
  on datasources and handlers of \<^verbatim>\<open>packages/common-algorand/src/project/utils.ts\<close> and
  \<^verbatim>\<open>packages/node/src/utils/project.ts\<close>. Kinds are strings, because a project may name
  any; a filter is the JavaScript value of the manifest (\<open>JUndef\<close> when there is none).
\<close>

section \<open>Kinds\<close>

datatype AlgorandDataSourceKind = Runtime

fun ds_kind_value :: "AlgorandDataSourceKind \<Rightarrow> string" where
  "ds_kind_value Runtime = ''algorand/Runtime''"

datatype AlgorandHandlerKind = Block | Transaction

fun handler_kind_value :: "AlgorandHandlerKind \<Rightarrow> string" where
  "handler_kind_value Block = ''algorand/BlockHandler''"
| "handler_kind_value Transaction = ''algorand/TransactionHandler''"

text \<open>The members of the enum, in their order.\<close>

instantiation AlgorandHandlerKind :: enum
begin

definition "enum_AlgorandHandlerKind = [Block, Transaction]"
definition "enum_all_AlgorandHandlerKind P \<longleftrightarrow> P Block \<and> P Transaction"
definition "enum_ex_AlgorandHandlerKind P \<longleftrightarrow> P Block \<or> P Transaction"

instance proof
  have all: "(UNIV :: AlgorandHandlerKind set) = {Block, Transaction}"
    using AlgorandHandlerKind.exhaust by blast
  show "UNIV = set (enum_class.enum :: AlgorandHandlerKind list)"
    by (simp add: all enum_AlgorandHandlerKind_def)
  show "distinct (enum_class.enum :: AlgorandHandlerKind list)"
    by (simp add: enum_AlgorandHandlerKind_def)
  show "enum_class.enum_all P \<longleftrightarrow> Ball UNIV P" "enum_class.enum_ex P \<longleftrightarrow> Bex UNIV P"
    for P :: "AlgorandHandlerKind \<Rightarrow> bool"
    by (simp_all add: all enum_all_AlgorandHandlerKind_def enum_ex_AlgorandHandlerKind_def)
qed

end

lemma ex_handler_kind: "(\<exists>k. P k) \<longleftrightarrow> P Block \<or> P Transaction"
  and all_handler_kind: "(\<forall>k. P k) \<longleftrightarrow> P Block \<and> P Transaction"
  by (metis AlgorandHandlerKind.exhaust)+

text \<open>\<open>Object.values(AlgorandHandlerKind)\<close>.\<close>

definition handler_kind_values :: "string list" where
  "handler_kind_values = map handler_kind_value enum_class.enum"

lemma handler_kind_values_list: "handler_kind_values = map handler_kind_value [Block, Transaction]"
  by (simp only: handler_kind_values_def enum_AlgorandHandlerKind_def)

fun as_handler_kind :: "string \<Rightarrow> AlgorandHandlerKind option" where
  "as_handler_kind k = (if k = handler_kind_value Block then Some Block
     else if k = handler_kind_value Transaction then Some Transaction else None)"

lemma handler_kind_value_inject [simp]: "handler_kind_value a = handler_kind_value b \<longleftrightarrow> a = b"
  by (cases a; cases b) simp_all

lemma as_handler_kind_value [simp]: "as_handler_kind (handler_kind_value k) = Some k"
  by (cases k) simp_all

section \<open>Filters\<close>

record AlgorandBlockFilter =
  bf_modulo :: "int option"
  bf_timestamp :: "string option"

definition js_of_AlgorandBlockFilter :: "AlgorandBlockFilter \<Rightarrow> jsval" where
  "js_of_AlgorandBlockFilter f = JObj (
     opt_field ''modulo'' JNum (bf_modulo f) @
     opt_field ''timestamp'' JStr (bf_timestamp f))"

text \<open>An argument of \<open>None\<close> is the \<open>null\<close> that skips its position.\<close>

record AlgorandTransactionFilter =
  tf_txType :: "string option"
  tf_sender :: "string option"
  tf_receiver :: "string option"
  tf_nonParticipant :: "bool option"
  tf_assetId :: "int option"
  tf_newFreezeStatus :: "bool option"
  tf_address :: "string option"
  tf_applicationId :: "int option"
  tf_applicationArgs :: "string option list option"

definition js_of_arg :: "string option \<Rightarrow> jsval" where
  "js_of_arg a = (case a of None \<Rightarrow> JNull | Some s \<Rightarrow> JStr s)"

definition js_of_AlgorandTransactionFilter :: "AlgorandTransactionFilter \<Rightarrow> jsval" where
  "js_of_AlgorandTransactionFilter f = JObj (
     opt_field ''txType'' JStr (tf_txType f) @
     opt_field ''sender'' JStr (tf_sender f) @
     opt_field ''receiver'' JStr (tf_receiver f) @
     opt_field ''nonParticipant'' JBool (tf_nonParticipant f) @
     opt_field ''assetId'' JNum (tf_assetId f) @
     opt_field ''newFreezeStatus'' JBool (tf_newFreezeStatus f) @
     opt_field ''address'' JStr (tf_address f) @
     opt_field ''applicationId'' JNum (tf_applicationId f) @
     opt_field ''applicationArgs'' (js_arr js_of_arg) (tf_applicationArgs f))"

section \<open>Handlers and datasources\<close>

record AlgorandHandler =
  h_kind :: string
  h_handler :: string
  h_filter :: jsval

record AlgorandMapping =
  m_file :: string
  m_handlers :: "AlgorandHandler list"

record Processor =
  p_file :: string
  p_options :: jsval

record AlgorandDataSource =
  ds_kind :: string
  ds_startBlock :: "int option"
  ds_mapping :: AlgorandMapping
  ds_processor :: "Processor option"
  ds_assets :: "(string \<times> string) list"

text \<open>What a datasource processor tells about one of its handler kinds: the kind of the base handler
  it builds on and its base filter, one value or an array of them.\<close>

record SecondLayerHandlerProcessor =
  baseHandlerKind :: "string option"
  baseFilter :: jsval

record AlgorandDataSourceProcessor =
  handlerProcessors :: "string \<Rightarrow> SecondLayerHandlerProcessor option"

definition isBlockHandlerProcessor :: "SecondLayerHandlerProcessor \<Rightarrow> bool" where
  "isBlockHandlerProcessor hp \<longleftrightarrow> baseHandlerKind hp = Some (handler_kind_value Block)"

definition isTransactionHandlerProcessor :: "SecondLayerHandlerProcessor \<Rightarrow> bool" where
  "isTransactionHandlerProcessor hp \<longleftrightarrow> baseHandlerKind hp = Some (handler_kind_value Transaction)"

definition isCustomDs :: "AlgorandDataSource \<Rightarrow> bool" where
  "isCustomDs ds \<longleftrightarrow> ds_kind ds \<noteq> ds_kind_value Runtime \<and> ds_processor ds \<noteq> None"

definition isRuntimeDs :: "AlgorandDataSource \<Rightarrow> bool" where
  "isRuntimeDs ds \<longleftrightarrow> ds_kind ds = ds_kind_value Runtime"

definition isBaseHandler :: "AlgorandHandler \<Rightarrow> bool" where
  "isBaseHandler h \<longleftrightarrow> h_kind h \<in> set handler_kind_values"

definition isCustomHandler :: "AlgorandHandler \<Rightarrow> bool" where
  "isCustomHandler h \<longleftrightarrow> \<not> isBaseHandler h"

lemma isCustomDs_not_runtime: "isCustomDs ds \<Longrightarrow> \<not> isRuntimeDs ds"
  by (simp add: isCustomDs_def isRuntimeDs_def)

lemma isBaseHandler_iff: "isBaseHandler h \<longleftrightarrow> (\<exists>k. as_handler_kind (h_kind h) = Some k)"
  by (auto simp: isBaseHandler_def handler_kind_values_list split: if_splits)

lemma processor_kinds_exclusive: "isBlockHandlerProcessor hp \<Longrightarrow> \<not> isTransactionHandlerProcessor hp"
  by (simp add: isBlockHandlerProcessor_def isTransactionHandlerProcessor_def)

end
