(* ===== verification/BlockUtils.thy ===== *)
theory BlockUtils
  imports ProjectTypes
begin

text \<open>
  The block helpers of \<^verbatim>\<open>packages/node/src/algorand/utils.algorand.ts\<close>: the header of a
  block, the wrapper handed to the indexer, and the renaming of the keys of an indexer reply. lodash's
  \<open>camelCase\<close> is the parameter \<open>cc\<close>.
\<close>

section \<open>Headers\<close>

text \<open>A \<open>Date\<close> is a time value in milliseconds, of at most 8.64e15 either way, or invalid.\<close>

datatype js_date = Date int | InvalidDate

fun new_Date :: "jsval \<Rightarrow> js_date" where
  "new_Date (JNum ms) = (if \<bar>ms\<bar> \<le> 8640000000000000 then Date ms else InvalidDate)"
| "new_Date _ = InvalidDate"

fun js_times :: "jsval \<Rightarrow> int \<Rightarrow> jsval" where
  "js_times v n = (case to_number v of JNum m \<Rightarrow> JNum (m * n) | _ \<Rightarrow> JNaN)"

record Header =
  blockHeight :: jsval
  blockHash :: jsval
  parentHash :: jsval
  timestamp :: js_date

definition algorandBlockToHeader :: "jsobj \<Rightarrow> Header" where
  "algorandBlockToHeader block = \<lparr>
     blockHeight = obj_get block ''round'',
     blockHash = obj_get block ''hash'',
     parentHash = obj_get block ''previousBlockHash'',
     timestamp = new_Date (js_times (obj_get block ''timestamp'') 1000)\<rparr>"

text \<open>\<open>formatBlockUtil\<close> keeps the block by reference: \<open>getHeader\<close> reads it when it is called.\<close>

record IBlock =
  ib_block :: nat

definition formatBlockUtil :: "nat \<Rightarrow> IBlock" where
  "formatBlockUtil block = \<lparr>ib_block = block\<rparr>"

definition getHeader :: "jsheap \<Rightarrow> IBlock \<Rightarrow> Header" where
  "getHeader H b = algorandBlockToHeader (deref H (ib_block b))"

definition calcInterval :: int where
  "calcInterval = 3300"

section \<open>Renaming keys\<close>

text \<open>
  \<open>camelCaseObjectKey cc H n v\<close>: \<open>n\<close> is what is left of the call stack. An array is mapped; an object
  whose \<open>constructor\<close> is \<open>Object\<close> (it has no property of that name) is rebuilt key by key, each step a
  spread of the result so far; any other value is returned as it is, and \<open>undefined\<close> has no
  \<open>constructor\<close> to read. A block reference is such an object too.
\<close>

definition rename_keys :: "(string \<Rightarrow> string) \<Rightarrow> (jsval \<Rightarrow> jsval res) \<Rightarrow> jsobj \<Rightarrow> jsval res" where
  "rename_keys cc f ob = bindR
     (foldR (\<lambda>result key. bindR (f (obj_get ob key))
              (\<lambda>v. Inr (obj_put (spread_into [] result) (cc key) v)))
        (own_keys ob) [])
     (\<lambda>result. Inr (JObj result))"

fun camelCaseObjectKey :: "(string \<Rightarrow> string) \<Rightarrow> jsheap \<Rightarrow> nat \<Rightarrow> jsval \<Rightarrow> jsval res" where
  "camelCaseObjectKey cc H 0 v = Inl stackOverflow"
| "camelCaseObjectKey cc H (Suc n) v = (case v of
     JArr xs \<Rightarrow> bindR (mapR (camelCaseObjectKey cc H n) xs) (\<lambda>ys. Inr (JArr ys))
   | JUndef \<Rightarrow> Inl (TypeError ''Cannot read properties of undefined (reading 'constructor')'')
   | JObj ob \<Rightarrow> if obj_has ob ''constructor'' then Inr v
       else rename_keys cc (camelCaseObjectKey cc H n) ob
   | JRef r \<Rightarrow> if obj_has (deref H r) ''constructor'' then Inr v
       else rename_keys cc (camelCaseObjectKey cc H n) (deref H r)
   | _ \<Rightarrow> Inr v)"

text \<open>The same on a tree, without the stack: what the renaming computes.\<close>

definition put_all :: "(string \<times> jsval) list \<Rightarrow> jsobj" where
  "put_all es = foldl (\<lambda>a (k, v). obj_put (spread_into [] a) k v) [] es"

function camel_tree :: "(string \<Rightarrow> string) \<Rightarrow> jsval \<Rightarrow> jsval" where
  "camel_tree cc v = (case v of
     JArr xs \<Rightarrow> JArr (map (camel_tree cc) xs)
   | JObj ob \<Rightarrow> if obj_has ob ''constructor'' then v
       else JObj (put_all (map (\<lambda>(k, u). (cc k, camel_tree cc u)) (own_entries ob)))
   | _ \<Rightarrow> v)"
  by pat_completeness auto
termination
proof (relation "measure (\<lambda>(cc, v). depth v)", goal_cases)
  case (2 cc v xs x)
  then show ?case using depth_elem [of x xs] by simp
next
  case (3 cc v ob p k u)
  then have "(k, u) \<in> set (AList.clearjunk ob)" by (simp add: set_own_entries)
  then have "(k, u) \<in> set ob"
    by (metis map_of_SomeD map_of_clearjunk map_of_eq_Some_iff distinct_clearjunk)
  with 3 show ?case using depth_field [of k u ob] by simp
qed simp

declare camel_tree.simps [simp del]

lemma camel_tree_simps [simp]:
  "camel_tree cc (JArr xs) = JArr (map (camel_tree cc) xs)"
  "camel_tree cc (JObj ob) = (if obj_has ob ''constructor'' then JObj ob
     else JObj (put_all (map (\<lambda>(k, u). (cc k, camel_tree cc u)) (own_entries ob))))"
  "camel_tree cc JUndef = JUndef" "camel_tree cc JNull = JNull" "camel_tree cc (JBool b) = JBool b"
  "camel_tree cc (JNum n) = JNum n" "camel_tree cc JNaN = JNaN" "camel_tree cc (JStr s) = JStr s"
  "camel_tree cc (JRef r) = JRef r" "camel_tree cc (JFun f) = JFun f"
  by (subst camel_tree.simps, simp)+

text \<open>An \<open>undefined\<close> or a reference is nowhere in a JSON tree.\<close>

lemma is_json_own_entries:
  "is_json (JObj ob) \<Longrightarrow> (k, u) \<in> set (own_entries ob) \<Longrightarrow> is_json u \<and> obj_get ob k = u \<and> (k, u) \<in> set ob"
  by (auto simp: set_own_entries distinct_clearjunk_id list_all_iff obj_get_def)

lemma rename_keys_Inr:
  assumes "\<And>k u. (k, u) \<in> set (own_entries ob) \<Longrightarrow> f (obj_get ob k) = Inr (g u)"
  shows "rename_keys cc f ob = Inr (JObj (put_all (map (\<lambda>(k, u). (cc k, g u)) (own_entries ob))))"
proof -
  have "foldR (\<lambda>result key. bindR (f (obj_get ob key))
              (\<lambda>v. Inr (obj_put (spread_into [] result) (cc key) v))) (map fst es) z
      = Inr (foldl (\<lambda>a (k, v). obj_put (spread_into [] a) k v) z (map (\<lambda>(k, u). (cc k, g u)) es))"
    if "set es \<subseteq> set (own_entries ob)" for es z
    using that assms by (induction es arbitrary: z) auto
  then show ?thesis by (simp add: rename_keys_def put_all_def own_keys_def)
qed

lemma camelCaseObjectKey_tree:
  "is_json v \<Longrightarrow> depth v \<le> n \<Longrightarrow> camelCaseObjectKey cc H n v = Inr (camel_tree cc v)"
proof (induction n arbitrary: v)
  case 0
  then show ?case by (cases v) auto
next
  case (Suc n)
  show ?case
  proof (cases v)
    case (JArr xs)
    have "mapR (camelCaseObjectKey cc H n) xs = Inr (map (camel_tree cc) xs)"
    proof (rule mapR_Inr)
      fix x assume x: "x \<in> set xs"
      then have "is_json x" "depth x \<le> n"
        using Suc.prems JArr depth_elem [OF x] by (auto simp: list_all_iff)
      then show "camelCaseObjectKey cc H n x = Inr (camel_tree cc x)" by (rule Suc.IH)
    qed
    then show ?thesis using JArr by simp
  next
    case (JObj ob)
    have "camelCaseObjectKey cc H n (obj_get ob k) = Inr (camel_tree cc u)"
      if "(k, u) \<in> set (own_entries ob)" for k u
    proof -
      from that Suc.prems JObj have u: "is_json u" "obj_get ob k = u" "(k, u) \<in> set ob"
        using is_json_own_entries by blast+
      then have "depth u \<le> n" using Suc.prems JObj depth_field [of k u ob] by simp
      with u show ?thesis by (simp add: Suc.IH)
    qed
    then show ?thesis using JObj
      by (simp add: rename_keys_Inr [where g = "camel_tree cc"])
  qed (use Suc.prems in simp_all)
qed

text \<open>Looking up a key of the renamed object: the last property renamed to it.\<close>

lemma map_of_foldl_put:
  "map_of (foldl (\<lambda>a (k, v). obj_put (spread_into [] a) k v) z es) = map_of z ++ map_of (rev es)"
  by (induction es arbitrary: z)
    (auto simp: js_simps map_add_def fun_eq_iff split: option.splits)

lemma map_of_put_all [js_simps]: "map_of (put_all es) = map_of (rev es)"
  by (simp add: put_all_def map_of_foldl_put)

lemma obj_get_rename:
  assumes inj: "\<And>k'. obj_has ob k' \<Longrightarrow> cc k' = cc k \<Longrightarrow> k' = k" and has: "obj_has ob k"
  shows "obj_get (put_all (map (\<lambda>(k, u). (cc k, g u)) (own_entries ob))) (cc k) = g (obj_get ob k)"
proof -
  let ?es = "own_entries ob"
  obtain v where v: "map_of ob k = Some v" using has by (auto simp: obj_has_def)
  then have mem: "(k, v) \<in> set ?es"
    by (metis map_of_SomeD map_of_own_entries)
  have "(cc k, g v) \<in> set (rev (map (\<lambda>(k, u). (cc k, g u)) ?es))"
    using mem by force
  then have "\<exists>w. map_of (rev (map (\<lambda>(k, u). (cc k, g u)) ?es)) (cc k) = Some w"
    using weak_map_of_SomeI by metis
  then obtain w where w: "map_of (rev (map (\<lambda>(k, u). (cc k, g u)) ?es)) (cc k) = Some w" ..
  then obtain k' u where ku: "(k', u) \<in> set ?es" "cc k' = cc k" "w = g u"
    by (auto dest!: map_of_SomeD)
  then have "obj_has ob k'"
    by (metis distinct_own_entries map_of_is_SomeI map_of_own_entries obj_has_def option.simps(3))
  with inj ku have "k' = k" by blast
  with ku mem have "u = v" using distinct_own_entries by (metis eq_key_imp_eq_value)
  with w ku v show ?thesis by (simp add: obj_get_def js_simps)
qed

lemma obj_has_rename:
  "obj_has (put_all (map (\<lambda>(k, u). (cc k, g u)) (own_entries ob))) k' \<longleftrightarrow> (\<exists>k. obj_has ob k \<and> cc k = k')"
proof -
  have "obj_has (put_all (map (\<lambda>(k, u). (cc k, g u)) (own_entries ob))) k'
      \<longleftrightarrow> k' \<in> cc ` set (own_keys ob)"
    by (simp add: obj_has_def js_simps map_of_eq_None_iff own_keys_def image_image case_prod_beta'
        flip: rev_map)
  then show ?thesis by (auto simp: set_own_keys)
qed

end
