(* ===== verification/AlgorandApi.thy ===== *)
theory AlgorandApi
  imports BlockUtils
begin

text \<open>
  The client of an indexer node, \<^verbatim>\<open>packages/node/src/algorand/api.algorand.ts\<close>. The
  record \<open>deps\<close> holds the third-party code the client calls: the requests of algosdk's indexer, each a
  function of the world that may answer differently every time, node-core's \<open>delay\<close>, lodash's
  \<open>camelCase\<close> and \<open>omit\<close>, the event loop, which decides which of the pending tasks of a \<open>Promise.all\<close>
  settles next, and the depth of the call stack. The record \<open>AlgorandApi\<close> is the client object:
  its fields, the heap its blocks live in and the world outside.
\<close>

section \<open>The client and what it calls\<close>

record 'w deps =
  lookupBlock_do :: "jsval \<Rightarrow> 'w \<Rightarrow> jsval res \<times> 'w"
  lookupBlock_headerOnly_do :: "jsval \<Rightarrow> 'w \<Rightarrow> jsval res \<times> 'w"
  searchForTransactions_do :: "jsval \<Rightarrow> int \<Rightarrow> jsval \<Rightarrow> 'w \<Rightarrow> jsval res \<times> 'w"
  makeHealthCheck_do :: "'w \<Rightarrow> jsval res \<times> 'w"
  delay_do :: "int \<Rightarrow> 'w \<Rightarrow> 'w"
  next_settled :: "nat \<Rightarrow> 'w \<Rightarrow> nat \<times> 'w"
  lodash_camelCase :: "string \<Rightarrow> string"
  lodash_omit :: "jsobj \<Rightarrow> string list \<Rightarrow> jsobj"
  callStack :: nat

record 'w AlgorandApi =
  api_genesisHash :: jsval
  api_chain :: jsval
  blockCache :: "nat list"
  paginationLimit :: int
  heap :: jsheap
  world :: 'w

type_synonym ('w, 'a) api = "('w AlgorandApi, 'a) io"

definition request :: "('w \<Rightarrow> 'a res \<times> 'w) \<Rightarrow> ('w, 'a) api" where
  "request f s = (case f (world s) of (r, w) \<Rightarrow> Some (r, s\<lparr>world := w\<rparr>))"

definition settles :: "('w, 'b) deps_scheme \<Rightarrow> 'w AlgorandApi event_loop" where
  "settles d n s = (case next_settled d n (world s) of (k, w) \<Rightarrow> (k, s\<lparr>world := w\<rparr>))"

text \<open>\<open>v.k\<close>, for a value that may be \<open>undefined\<close>.\<close>

fun js_read :: "jsheap \<Rightarrow> jsval \<Rightarrow> string \<Rightarrow> jsval res" where
  "js_read H JUndef k = Inl (TypeError (''Cannot read properties of undefined (reading '' @ [CHR 0x27] @ k @ [CHR 0x27] @ '')''))"
| "js_read H JNull k = Inl (TypeError (''Cannot read properties of null (reading '' @ [CHR 0x27] @ k @ [CHR 0x27] @ '')''))"
| "js_read H v k = Inr (obj_get (own_props H v) k)"

text \<open>\<open>v ?? d\<close>\<close>

definition js_default :: "jsval \<Rightarrow> jsval \<Rightarrow> jsval" where
  "js_default v d = (if v = JUndef \<or> v = JNull then d else v)"

text \<open>What \<open>{...v}\<close> copies: the properties of an object, the elements of an array or a text under
  their indices, nothing of anything else.\<close>

fun spread_props :: "jsheap \<Rightarrow> jsval \<Rightarrow> jsobj" where
  "spread_props H (JObj ob) = own_entries ob"
| "spread_props H (JRef r) = own_entries (deref H r)"
| "spread_props H (JArr xs) = zip (map show_nat [0..<length xs]) xs"
| "spread_props H (JStr s) = zip (map show_nat [0..<length s]) (map (\<lambda>c. JStr [c]) s)"
| "spread_props H v = []"

section \<open>Blocks\<close>

definition tx_object :: "jsheap \<Rightarrow> nat \<Rightarrow> jsval \<Rightarrow> jsval" where
  "tx_object H newBlock tx = JObj (obj_put (obj_put (spread_into [] (spread_props H tx))
     ''block'' (JRef newBlock)) ''toJSON'' (JFun TxToJSON))"

definition block_object :: "jsheap \<Rightarrow> jsval \<Rightarrow> jsval \<Rightarrow> jsobj" where
  "block_object H block transactions = obj_put (obj_put (obj_put (spread_into [] (spread_props H block))
     ''getTransactionsByGroup'' (JFun (GetTransactionsByGroup transactions)))
     ''toJSON'' (JFun BlockToJSON)) ''transactions'' transactions"

text \<open>\<open>newBlock.transactions?.map(...)\<close>: nothing for no transactions, and no \<open>map\<close> on anything that is
  not an array.\<close>

fun map_transactions :: "jsheap \<Rightarrow> nat \<Rightarrow> jsval \<Rightarrow> jsval res" where
  "map_transactions H newBlock (JArr txs) = Inr (JArr (map (tx_object H newBlock) txs))"
| "map_transactions H newBlock JUndef = Inr JUndef"
| "map_transactions H newBlock JNull = Inr JUndef"
| "map_transactions H newBlock v = Inl (TypeError ''newBlock.transactions?.map is not a function'')"

definition constructBlock :: "jsval \<Rightarrow> ('w, nat) api" where
  "constructBlock block s = (let H = heap s; newBlock = length H in
     case map_transactions H newBlock (obj_get (spread_props H block) ''transactions'') of
       Inl e \<Rightarrow> Some (Inl e, s)
     | Inr transactions \<Rightarrow>
         Some (Inr newBlock, s\<lparr>heap := H @ [block_object H block transactions]\<rparr>))"

fun getTransactionsByGroup :: "jsval \<Rightarrow> string \<Rightarrow> jsval list" where
  "getTransactionsByGroup (JArr txs) groupId =
     filter (\<lambda>tx. strict_eq (obj_get (own_props [] tx) ''group'') (JStr groupId)) txs"
| "getTransactionsByGroup v groupId = []"

text \<open>The \<open>toJSON\<close> methods; the other closure is stored under another name.\<close>

fun run_toJSON :: "('w, 'b) deps_scheme \<Rightarrow> js_fun \<Rightarrow> jsobj \<Rightarrow> jsval" where
  "run_toJSON d BlockToJSON this = JObj (lodash_omit d this [''getTransactionsByGroup'', ''toJSON''])"
| "run_toJSON d TxToJSON this = JObj (lodash_omit d this [''block'', ''toJSON''])"
| "run_toJSON d (GetTransactionsByGroup txs) this = JArr (getTransactionsByGroup txs [])"

definition JSON_stringify :: "'w deps \<Rightarrow> jsheap \<Rightarrow> jsval \<Rightarrow> string option res" where
  "JSON_stringify d H v = json_ser (run_toJSON d) H (callStack d) [] v"

section \<open>Requests\<close>

definition getHeaderOnly :: "'w deps \<Rightarrow> jsval \<Rightarrow> ('w, nat) api" where
  "getHeaderOnly d block =
     iocatch (iobind (request (lookupBlock_headerOnly_do d block)) constructBlock) iothrow"

text \<open>
  All the transactions of a round, a page at a time. A page with transactions asks for the next one,
  with the token of the reply if it has one, and the first page without transactions ends the
  recursion. Nothing says that it ends: \<open>None\<close> is a run that never settles.
\<close>

text \<open>\<open>result.transactions.length > 0\<close>\<close>

fun has_transactions :: "jsval \<Rightarrow> bool res" where
  "has_transactions JUndef = Inl (TypeError (''Cannot read properties of undefined (reading '' @ [CHR 0x27] @ ''length'' @ [CHR 0x27] @ '')''))"
| "has_transactions JNull = Inl (TypeError (''Cannot read properties of null (reading '' @ [CHR 0x27] @ ''length'' @ [CHR 0x27] @ '')''))"
| "has_transactions (JArr xs) = Inr (xs \<noteq> [])"
| "has_transactions (JStr s) = Inr (s \<noteq> [])"
| "has_transactions (JObj ob) = Inr (js_less (JNum 0) (obj_get ob ''length''))"
| "has_transactions v = Inr False"

text \<open>\<open>result.transactions.concat(nextPage)\<close>\<close>

definition js_concat :: "jsval \<Rightarrow> jsval \<Rightarrow> jsval res" where
  "js_concat v y = (case v of
     JArr xs \<Rightarrow> Inr (JArr (case y of JArr ys \<Rightarrow> xs @ ys | _ \<Rightarrow> xs @ [y]))
   | JStr s \<Rightarrow> Inr (JStr (s @ js_to_string y))
   | _ \<Rightarrow> Inl (TypeError ''result.transactions.concat is not a function''))"

lemma js_concat_arrays [simp]: "js_concat (JArr xs) (JArr ys) = Inr (JArr (xs @ ys))"
  by (simp add: js_concat_def)

partial_function (option) paginatedTransactions ::
  "'w deps \<Rightarrow> jsval \<Rightarrow> jsval \<Rightarrow> 'w AlgorandApi \<Rightarrow> (jsval res \<times> 'w AlgorandApi) option" where
  "paginatedTransactions d height nextToken s =
     (case searchForTransactions_do d height (paginationLimit s)
             (if truthy nextToken then nextToken else JUndef) (world s) of
        (Inl e, w) \<Rightarrow> Some (Inl e, s\<lparr>world := w\<rparr>)
      | (Inr result, w) \<Rightarrow> (case js_read (heap s) result ''transactions'' of
          Inl e \<Rightarrow> Some (Inl e, s\<lparr>world := w\<rparr>)
        | Inr transactions \<Rightarrow> (case has_transactions transactions of
            Inl e \<Rightarrow> Some (Inl e, s\<lparr>world := w\<rparr>)
          | Inr nonempty \<Rightarrow>
              if nonempty then Option.bind
                (paginatedTransactions d height
                   (obj_get (own_props (heap s) result) ''next-token'') (s\<lparr>world := w\<rparr>))
                (\<lambda>(r, s'). Some (bindR r (js_concat transactions), s'))
              else Some (Inr transactions, s\<lparr>world := w\<rparr>))))"

definition renameKeys :: "'w deps \<Rightarrow> jsval \<Rightarrow> ('w, jsval) api" where
  "renameKeys d v s = Some (camelCaseObjectKey (lodash_camelCase d) (heap s) (callStack d) v, s)"

definition combinePaginateBlock :: "'w deps \<Rightarrow> jsval \<Rightarrow> ('w, nat) api" where
  "combinePaginateBlock d height =
     iocatch (iobind (ioboth (settles d) (getHeaderOnly d height) (paginatedTransactions d height JUndef))
       (\<lambda>(blockHeader, paginatedTransactionsResults).
          iobind (renameKeys d (JRef blockHeader)) (\<lambda>header.
          iobind (renameKeys d paginatedTransactionsResults) (\<lambda>transactions.
          constructBlock (JObj (obj_put (spread_into [] (spread_props [] header))
            ''transactions'' transactions)))))) iothrow"

definition max_transactions_message :: string where
  "max_transactions_message = ''Max transactions limit exceeded''"

definition getBlockByHeight :: "'w deps \<Rightarrow> jsval \<Rightarrow> ('w, nat) api" where
  "getBlockByHeight d height =
     iocatch (iobind (request (lookupBlock_do d height)) (\<lambda>blockInfo.
              iobind (renameKeys d blockInfo) constructBlock))
       (\<lambda>error. if js_includes (emessage error) max_transactions_message
                then combinePaginateBlock d height
                else iothrow error)"

text \<open>\<open>(await makeHealthCheck().do()).round\<close>\<close>

definition healthRound :: "'w deps \<Rightarrow> ('w, jsval) api" where
  "healthRound d = iobind (request (makeHealthCheck_do d))
     (\<lambda>checkHealth s. Some (js_read (heap s) checkHealth ''round'', s))"

definition getLatestBlockHeader :: "'w deps \<Rightarrow> ('w, nat) api" where
  "getLatestBlockHeader d = iobind (healthRound d) (getHeaderOnly d)"

section \<open>Fetching blocks with their hashes\<close>

definition has_round :: "jsheap \<Rightarrow> jsval \<Rightarrow> nat \<Rightarrow> bool" where
  "has_round H n block = strict_eq (obj_get (deref H block) ''round'') n"

definition blockInCache :: "int \<Rightarrow> 'w AlgorandApi \<Rightarrow> nat option \<times> 'w AlgorandApi" where
  "blockInCache n s = (case take_first (has_round (heap s) (JNum n)) (blockCache s) of
     (found, rest) \<Rightarrow> (found, s\<lparr>blockCache := rest\<rparr>))"

definition pushCache :: "nat \<Rightarrow> ('w, unit) api" where
  "pushCache block s = Some (Inr (), s\<lparr>blockCache := blockCache s @ [block]\<rparr>)"

definition readBlock :: "nat \<Rightarrow> string \<Rightarrow> ('w, jsval) api" where
  "readBlock block k s = Some (Inr (obj_get (deref (heap s) block) k), s)"

definition writeBlock :: "nat \<Rightarrow> string \<Rightarrow> jsval \<Rightarrow> ('w, unit) api" where
  "writeBlock block k v s = Some (Inr (),
     s\<lparr>heap := (heap s)[block := obj_put (deref (heap s) block) k v]\<rparr>)"

text \<open>The loop that waits for the chain: one second, then the round of the node again.\<close>

partial_function (option) waitForRound ::
  "'w deps \<Rightarrow> jsval \<Rightarrow> jsval \<Rightarrow> 'w AlgorandApi \<Rightarrow> (unit res \<times> 'w AlgorandApi) option" where
  "waitForRound d currentRound target s =
     (if js_less currentRound target
      then (case healthRound d (s\<lparr>world := delay_do d 1 (world s)\<rparr>) of
              None \<Rightarrow> None
            | Some (Inl e, s') \<Rightarrow> Some (Inl e, s')
            | Some (Inr next, s') \<Rightarrow> waitForRound d next target s')
      else Some (Inr (), s))"

definition unable_message :: "jsval \<Rightarrow> string" where
  "unable_message n = ''Unable to get block hash for round '' @ js_to_string n"

definition getBlockHash :: "'w deps \<Rightarrow> jsval \<Rightarrow> nat list \<Rightarrow> ('w, jsval) api" where
  "getBlockHash d n blocks s =
     (case find (has_round (heap s) (js_plus1 n)) blocks of
        Some block \<Rightarrow> readBlock block ''previousBlockHash'' s
      | None \<Rightarrow>
          iocatch
            (iobind (getBlockByHeight d (js_plus1 n)) (\<lambda>fetchedBlock.
             iobind (pushCache fetchedBlock) (\<lambda>_.
             readBlock fetchedBlock ''previousBlockHash'')))
            (\<lambda>e. iobind (healthRound d) (\<lambda>currentRound.
               if js_geq currentRound (js_plus1 n) then iothrow e
               else iobind (waitForRound d currentRound (js_plus1 n))
                      (\<lambda>_. iothrow (Error (unable_message n)))))
            s)"

text \<open>
  The cache is asked for every number before anything is awaited; a number without a block in it is
  then fetched.
\<close>

fun blocksInCache :: "int list \<Rightarrow> 'w AlgorandApi \<Rightarrow> nat option list \<times> 'w AlgorandApi" where
  "blocksInCache [] s = ([], s)"
| "blocksInCache (num # nums) s = (case blockInCache num s of (found, t) \<Rightarrow>
     (case blocksInCache nums t of (founds, u) \<Rightarrow> (found # founds, u)))"

definition fetchOne :: "'w deps \<Rightarrow> int \<times> nat option \<Rightarrow> ('w, nat) api" where
  "fetchOne d = (\<lambda>(num, found). case found of
     Some block \<Rightarrow> ioret block
   | None \<Rightarrow> getBlockByHeight d (JNum num))"

definition setHash :: "'w deps \<Rightarrow> nat list \<Rightarrow> nat \<Rightarrow> ('w, IBlock) api" where
  "setHash d blocks block =
     iobind (readBlock block ''round'') (\<lambda>n.
     iobind (getBlockHash d n blocks) (\<lambda>hash.
     iobind (writeBlock block ''hash'' hash) (\<lambda>_.
     ioret (formatBlockUtil block))))"

definition fetchBlocks :: "'w deps \<Rightarrow> int list \<Rightarrow> ('w, IBlock list) api" where
  "fetchBlocks d blockNums s = (case blocksInCache blockNums s of (founds, s') \<Rightarrow>
     iobind (ioall (settles d) (map (fetchOne d) (zip blockNums founds))) (\<lambda>blocks.
     ioall (settles d) (map (setHash d blocks) blocks)) s')"

section \<open>The client object\<close>

definition AssertionError :: "string \<Rightarrow> js_error" where
  "AssertionError msg = \<lparr>ename = ''AssertionError'', emessage = msg, estatus = None\<rparr>"

definition getGenesisHash :: "'w AlgorandApi \<Rightarrow> jsval res" where
  "getGenesisHash s = (if truthy (api_genesisHash s) then Inr (api_genesisHash s)
     else Inl (AssertionError ''genesisHash not initialized''))"

definition getChainId :: "'w AlgorandApi \<Rightarrow> jsval res" where
  "getChainId s = (if truthy (api_chain s) then Inr (api_chain s)
     else Inl (AssertionError ''chain not initialized''))"

text \<open>A new client, before its first request.\<close>

definition new_AlgorandApi :: "'w \<Rightarrow> 'w AlgorandApi" where
  "new_AlgorandApi w = \<lparr>api_genesisHash = JUndef, api_chain = JUndef, blockCache = [],
     paginationLimit = 10000, heap = [], world = w\<rparr>"

text \<open>
  What the constructor hands to algosdk's \<open>Indexer\<close>; \<open>url_port\<close> is \<open>new URL(endpoint).port\<close>, which throws
  on a text that is no URL.
\<close>

record indexer_config =
  ix_token :: jsval
  ix_server :: string
  ix_port :: string
  ix_headers :: jsval

definition indexer_config :: "(string \<Rightarrow> string res) \<Rightarrow> string \<Rightarrow> jsval \<Rightarrow> indexer_config res" where
  "indexer_config url_port endpoint config =
     bindR (js_read [] config ''headers'') (\<lambda>headers.
       let token = (if headers = JUndef \<or> headers = JNull then JUndef
                    else obj_get (own_props [] headers) ''X-Indexer-API-Token'') in
       bindR (url_port endpoint) (\<lambda>port.
         Inr \<lparr>ix_token = js_default token (JStr []), ix_server = endpoint, ix_port = port, ix_headers = headers\<rparr>))"

text \<open>
  The client of an endpoint reads the genesis hash and the chain off the first block. \<open>Indexer\<close> is the
  node behind a configuration.
\<close>

definition readGenesis :: "'w deps \<Rightarrow> 'w \<Rightarrow> 'w AlgorandApi res" where
  "readGenesis d w = (case lookupBlock_do d (JNum 1) w of
     (Inl e, w') \<Rightarrow> Inl e
   | (Inr block, w') \<Rightarrow>
       bindR (js_read [] block ''genesis-hash'') (\<lambda>genesisHash.
       Inr ((new_AlgorandApi w')\<lparr>
         api_genesisHash := js_default genesisHash (JStr []),
         api_chain := js_default (obj_get (own_props [] block) ''genesis-id'') (JStr [])\<rparr>)))"

definition create :: "(indexer_config \<Rightarrow> 'w deps) \<Rightarrow> (string \<Rightarrow> string res) \<Rightarrow> string \<Rightarrow> jsval \<Rightarrow> 'w
    \<Rightarrow> 'w AlgorandApi res" where
  "create Indexer url_port endpoint config w =
     bindR (indexer_config url_port endpoint config) (\<lambda>c. readGenesis (Indexer c) w)"

section \<open>The interface handed to project code\<close>

record SafeAPIService =
  safe_height :: jsval

definition getSafeApi :: "jsval \<Rightarrow> SafeAPIService" where
  "getSafeApi height = \<lparr>safe_height = height\<rparr>"

definition safe_getBlock :: "'w deps \<Rightarrow> SafeAPIService \<Rightarrow> ('w, nat) api" where
  "safe_getBlock d this =
     iocatch (iobind (getBlockByHeight d (safe_height this)) (\<lambda>block.
              iobind (readBlock block ''round'') (\<lambda>n.
              if \<not> truthy n then iothrow (Error []) else ioret block)))
       (\<lambda>error. iothrow (Error ''ERROR: failed to get block from safe api service.''))"

definition safe_getTxns :: "'w deps \<Rightarrow> SafeAPIService \<Rightarrow> ('w, jsval) api" where
  "safe_getTxns d this =
     iocatch (iobind (getBlockByHeight d (safe_height this)) (\<lambda>block.
              iobind (readBlock block ''transactions'') (\<lambda>txns.
              if \<not> truthy txns then iothrow (Error []) else ioret txns)))
       (\<lambda>error. iothrow (Error ''ERROR: failed to get transactions from safe api service.''))"

end
