(* ===== verification/ApiFacts.thy ===== *)
theory ApiFacts
  imports AlgorandApi
begin

text \<open>
  The invariant of the client: every block of its heap is the block its own methods and its own
  transactions refer back to, and every block of its cache is in the heap. It holds whatever the node
  answers. The cache is an instance of the interface \<open>block_cache\<close>.
\<close>

section \<open>Reading what a block is built of\<close>

lemma own_props_tx_object [simp]:
  "own_props H' (tx_object H b tx) = obj_put (obj_put (spread_into [] (spread_props H tx))
     ''block'' (JRef b)) ''toJSON'' (JFun TxToJSON)"
  by (simp add: tx_object_def)

lemma block_object_get:
  "obj_get (block_object H v txs) k =
     (if k = ''transactions'' then txs
      else if k = ''toJSON'' then JFun BlockToJSON
      else if k = ''getTransactionsByGroup'' then JFun (GetTransactionsByGroup txs)
      else obj_get (spread_props H v) k)"
  by (auto simp: block_object_def obj_get_absent)

lemma block_object_has:
  "obj_has (block_object H v txs) k \<longleftrightarrow>
     k \<in> {''transactions'', ''toJSON'', ''getTransactionsByGroup''} \<or> obj_has (spread_props H v) k"
  by (auto simp: block_object_def)

lemma map_transactions_Inr:
  "map_transactions H b v = Inr txs \<Longrightarrow>
     txs = JUndef \<or> (\<exists>xs. v = JArr xs \<and> txs = JArr (map (tx_object H b) xs))"
  by (cases v) auto

lemma deref_append [simp]: "r < length H \<Longrightarrow> deref (H @ H') r = deref H r"
  by (simp add: deref_def nth_append)

lemma deref_last [simp]: "deref (H @ [b]) (length H) = b"
  by (simp add: deref_def)

section \<open>The invariant\<close>

definition block_wf :: "nat \<Rightarrow> jsobj \<Rightarrow> bool" where
  "block_wf i b \<longleftrightarrow>
     obj_get b ''toJSON'' = JFun BlockToJSON \<and>
     obj_get b ''getTransactionsByGroup'' = JFun (GetTransactionsByGroup (obj_get b ''transactions'')) \<and>
     (obj_get b ''transactions'' = JUndef \<or>
      (\<exists>txs. obj_get b ''transactions'' = JArr txs \<and> (\<forall>tx \<in> set txs.
         obj_get (own_props [] tx) ''block'' = JRef i \<and> obj_get (own_props [] tx) ''toJSON'' = JFun TxToJSON)))"

definition api_wf :: "'w AlgorandApi \<Rightarrow> bool" where
  "api_wf s \<longleftrightarrow> (\<forall>i < length (heap s). block_wf i (heap s ! i)) \<and> (\<forall>b \<in> set (blockCache s). b < length (heap s))"

text \<open>The invariant with \<open>k\<close> blocks at least: a block once built stays.\<close>

definition wf_from :: "nat \<Rightarrow> 'w AlgorandApi \<Rightarrow> bool" where
  "wf_from k s \<longleftrightarrow> api_wf s \<and> k \<le> length (heap s)"

definition live :: "nat \<Rightarrow> 'w AlgorandApi \<Rightarrow> bool" where
  "live b s \<longleftrightarrow> b < length (heap s)"

lemma block_wf_object:
  "map_transactions H i v = Inr txs \<Longrightarrow> block_wf i (block_object H w txs)"
  by (drule map_transactions_Inr) (auto simp: block_wf_def block_object_get)

lemma block_wf_put_hash: "block_wf i b \<Longrightarrow> block_wf i (obj_put b ''hash'' v)"
  by (auto simp: block_wf_def)

lemma wf_from_world: "wf_from k s \<Longrightarrow> wf_from k (s\<lparr>world := w\<rparr>)"
  by (simp add: wf_from_def api_wf_def)

lemma wf_from_live: "wf_from k s \<and> live b s \<longleftrightarrow> wf_from (max k (Suc b)) s"
  by (auto simp: wf_from_def live_def)

named_theorems wf_keep \<open>what each method does to the invariant\<close>

lemma keeps_request [wf_keep]: "keeps (wf_from k) (request f)"
  by (rule tripleI) (auto simp: request_def wf_from_world split: prod.splits)

lemma triple_constructBlock [wf_keep]:
  "triple (wf_from k) (constructBlock v) (\<lambda>b s. wf_from k s \<and> live b s) (\<lambda>_. wf_from k)"
proof (rule tripleI)
  fix s :: "'w AlgorandApi" and b s' assume s: "wf_from k s" and run: "constructBlock v s = Some (Inr b, s')"
  let ?H = "heap s"
  from run obtain txs where txs: "map_transactions ?H (length ?H) (obj_get (spread_props ?H v) ''transactions'') = Inr txs"
    and b: "b = length ?H" and s': "s' = s\<lparr>heap := ?H @ [block_object ?H v txs]\<rparr>"
    by (auto simp: constructBlock_def Let_def split: sum.splits)
  have "block_wf i ((?H @ [block_object ?H v txs]) ! i)" if "i < Suc (length ?H)" for i
    using that s block_wf_object [OF txs]
    by (cases "i = length ?H") (auto simp: wf_from_def api_wf_def nth_append)
  then show "wf_from k s' \<and> live b s'"
    using s by (auto simp: s' b wf_from_def api_wf_def live_def less_SucI)
qed (auto simp: constructBlock_def Let_def split: sum.splits)

lemma keeps_renameKeys [wf_keep]: "keeps (wf_from k) (renameKeys d v)"
  and keeps_readBlock [wf_keep]: "keeps (wf_from k) (readBlock b key)"
  and keeps_blockInCache_state: "wf_from k s \<Longrightarrow> wf_from k (snd (blockInCache n s))"
  using set_take_first [of "has_round (heap s) (JNum n)" "blockCache s"]
  by (auto intro!: tripleI simp: renameKeys_def readBlock_def blockInCache_def wf_from_def api_wf_def
      split: prod.splits)

lemma keeps_healthRound [wf_keep]: "keeps (wf_from k) (healthRound d)"
  unfolding healthRound_def
  by (rule keeps_bind, rule keeps_request) (auto intro!: tripleI)

lemma triple_getHeaderOnly [wf_keep]:
  "triple (wf_from k) (getHeaderOnly d n) (\<lambda>b s. wf_from k s \<and> live b s) (\<lambda>_. wf_from k)"
  unfolding getHeaderOnly_def
  by (rule triple_catch [OF triple_bind [OF keeps_request triple_constructBlock]]) (simp add: triple_throw)

text \<open>One request for a page, with \<open>f\<close> for the recursive call, and the induction over the pages of a call that
  settles.\<close>

definition page_step :: "('w deps \<Rightarrow> jsval \<Rightarrow> jsval \<Rightarrow> ('w, jsval) api) \<Rightarrow> 'w deps \<Rightarrow> jsval \<Rightarrow> jsval \<Rightarrow> ('w, jsval) api" where
  "page_step f d h tok s =
     (case searchForTransactions_do d h (paginationLimit s) (if truthy tok then tok else JUndef) (world s) of
        (Inl e, w) \<Rightarrow> Some (Inl e, s\<lparr>world := w\<rparr>)
      | (Inr result, w) \<Rightarrow> (case js_read (heap s) result ''transactions'' of
          Inl e \<Rightarrow> Some (Inl e, s\<lparr>world := w\<rparr>)
        | Inr transactions \<Rightarrow> (case has_transactions transactions of
            Inl e \<Rightarrow> Some (Inl e, s\<lparr>world := w\<rparr>)
          | Inr nonempty \<Rightarrow>
              if nonempty then Option.bind
                (f d h (obj_get (own_props (heap s) result) ''next-token'') (s\<lparr>world := w\<rparr>))
                (\<lambda>(r, s'). Some (bindR r (js_concat transactions), s'))
              else Some (Inr transactions, s\<lparr>world := w\<rparr>))))"

lemma paginated_induct [consumes 1, case_names page]:
  assumes "paginatedTransactions d h tok s = Some y"
    and "\<And>f d h tok s y. (\<And>d h tok s y. f d h tok s = Some y \<Longrightarrow> P d h tok s y) \<Longrightarrow>
      page_step f d h tok s = Some y \<Longrightarrow> P d h tok s y"
  shows "P d h tok s y"
  by (rule paginatedTransactions.raw_induct [OF _ assms(1)]) (rule assms(2), auto simp: page_step_def)

lemma page_step_list:
  assumes "searchForTransactions_do d h (paginationLimit s) (if truthy tok then tok else JUndef) (world s) = (Inr (JObj ob), w)"
    and "obj_get ob ''transactions'' = JArr xs"
  shows "page_step f d h tok s = (if xs = [] then Some (Inr (JArr []), s\<lparr>world := w\<rparr>)
     else Option.bind (f d h (obj_get ob ''next-token'') (s\<lparr>world := w\<rparr>))
       (\<lambda>(r, s'). Some (bindR r (js_concat (JArr xs)), s')))"
  using assms by (simp add: page_step_def)

lemma paginated_world: "paginatedTransactions d h tok s = Some y \<Longrightarrow> \<exists>w. snd y = s\<lparr>world := w\<rparr>"
proof (induction rule: paginated_induct)
  case (page f d h tok s y)
  let ?req = "searchForTransactions_do d h (paginationLimit s) (if truthy tok then tok else JUndef) (world s)"
  obtain r w where req: "?req = (r, w)" by (cases ?req)
  have rec: "\<exists>w'. snd y' = s\<lparr>world := w'\<rparr>" if "f d h t (s\<lparr>world := w\<rparr>) = Some y'" for t y'
    using page.IH [OF that] by simp
  from page(2) show ?case
    unfolding page_step_def req
    by (fastforce dest!: rec split: sum.splits if_splits simp: bind_eq_Some_conv)
qed

lemma keeps_paginated [wf_keep]: "keeps (wf_from k) (paginatedTransactions d h tok)"
  by (rule tripleI) (auto dest!: paginated_world intro: wf_from_world)

lemma wf_from_settles: "wf_from k s \<Longrightarrow> wf_from k (snd (settles d n s))"
  by (simp add: settles_def wf_from_world split: prod.splits)

lemma keeps_tasks:
  "(\<And>t. t \<in> set ts \<Longrightarrow> keeps (wf_from k) t) \<Longrightarrow> keeps (wf_from k) (ioall (settles d) ts)"
  "keeps (wf_from k) a \<Longrightarrow> keeps (wf_from k) b \<Longrightarrow> keeps (wf_from k) (ioboth (settles d) a b)"
  by (rule keeps_ioall, rule wf_from_settles, assumption, assumption)
    (rule keeps_ioboth, rule wf_from_settles)

lemma keeps_of_live:
  "triple (wf_from k) m (\<lambda>b s. wf_from k s \<and> live b s) (\<lambda>_. wf_from k) \<Longrightarrow> keeps (wf_from k) m"
  by (erule triple_conseq) auto

lemma triple_combinePaginateBlock [wf_keep]:
  "triple (wf_from k) (combinePaginateBlock d h) (\<lambda>b s. wf_from k s \<and> live b s) (\<lambda>_. wf_from k)"
  unfolding combinePaginateBlock_def
proof (rule triple_catch)
  let ?both = "ioboth (settles d) (getHeaderOnly d h) (paginatedTransactions d h JUndef)"
  have "keeps (wf_from k) ?both"
    by (intro keeps_tasks keeps_of_live [OF triple_getHeaderOnly] keeps_paginated)
  then show "triple (wf_from k) (iobind ?both (\<lambda>(blockHeader, paginatedTransactionsResults).
          iobind (renameKeys d (JRef blockHeader)) (\<lambda>header.
          iobind (renameKeys d paginatedTransactionsResults) (\<lambda>transactions.
          constructBlock (JObj (obj_put (spread_into [] (spread_props [] header))
            ''transactions'' transactions))))))
     (\<lambda>b s. wf_from k s \<and> live b s) (\<lambda>_. wf_from k)"
  proof (rule triple_bind, goal_cases)
    case (1 x)
    then show ?case
      by (cases x) (auto intro!: triple_bind [OF keeps_renameKeys] triple_constructBlock)
  qed
qed (simp add: triple_throw)

lemma triple_getBlockByHeight [wf_keep]:
  "triple (wf_from k) (getBlockByHeight d h) (\<lambda>b s. wf_from k s \<and> live b s) (\<lambda>_. wf_from k)"
  unfolding getBlockByHeight_def
  by (rule triple_catch [OF triple_bind [OF keeps_request triple_bind [OF keeps_renameKeys triple_constructBlock]]])
    (simp add: triple_throw triple_combinePaginateBlock)

lemma keeps_waitForRound [wf_keep]: "keeps (wf_from k) (waitForRound d c n)"
proof -
  have "wf_from k s \<longrightarrow> wf_from k (snd y)" if "waitForRound d c n s = Some y" for s y
  proof (rule waitForRound.raw_induct [OF _ that, where P = "\<lambda>d c n s y. wf_from k s \<longrightarrow> wf_from k (snd y)"])
    fix f :: "'a deps \<Rightarrow> jsval \<Rightarrow> jsval \<Rightarrow> 'a AlgorandApi \<Rightarrow> (unit res \<times> 'a AlgorandApi) option"
      and d :: "'a deps" and c n and s :: "'a AlgorandApi" and y
    assume IH: "\<And>d c n s y. f d c n s = Some y \<Longrightarrow> wf_from k s \<longrightarrow> wf_from k (snd y)"
      and "(if js_less c n
      then (case healthRound d (s\<lparr>world := delay_do d 1 (world s)\<rparr>) of
              None \<Rightarrow> None
            | Some (Inl e, s') \<Rightarrow> Some (Inl e, s')
            | Some (Inr next, s') \<Rightarrow> f d next n s')
      else Some (Inr (), s)) = Some y"
    then show "wf_from k s \<longrightarrow> wf_from k (snd y)"
      using keepsD [OF keeps_healthRound [of k d] wf_from_world [of k s "delay_do d 1 (world s)"]]
      by (auto split: if_splits option.splits prod.splits sum.splits)
  qed
  then show ?thesis by (intro tripleI) fastforce+
qed

lemma triple_pushCache: "triple (\<lambda>s. wf_from k s \<and> live b s) (pushCache b) (\<lambda>_ s. wf_from k s \<and> live b s) E"
  by (rule tripleI) (auto simp: pushCache_def wf_from_def api_wf_def live_def)

lemma keeps_getBlockHash [wf_keep]: "keeps (wf_from k) (getBlockHash d n blocks)"
proof -
  have fetch: "keeps (wf_from k) (iobind (getBlockByHeight d (js_plus1 n)) (\<lambda>fetchedBlock.
             iobind (pushCache fetchedBlock) (\<lambda>_. readBlock fetchedBlock ''previousBlockHash'')))"
    by (rule triple_bind [OF triple_getBlockByHeight], rule triple_bind [OF triple_pushCache])
      (rule triple_conseq [OF keeps_readBlock], auto)
  have "keeps (wf_from k) (iobind (healthRound d) (\<lambda>currentRound.
               if js_geq currentRound (js_plus1 n) then iothrow e
               else iobind (waitForRound d currentRound (js_plus1 n))
                      (\<lambda>_. iothrow (Error (unable_message n)))))" for e
    by (rule keeps_bind [OF keeps_healthRound]) (auto intro: keeps_waitForRound)
  with fetch have "keeps (wf_from k) (iocatch (iobind (getBlockByHeight d (js_plus1 n)) (\<lambda>fetchedBlock.
             iobind (pushCache fetchedBlock) (\<lambda>_. readBlock fetchedBlock ''previousBlockHash'')))
       (\<lambda>e. iobind (healthRound d) (\<lambda>currentRound.
               if js_geq currentRound (js_plus1 n) then iothrow e
               else iobind (waitForRound d currentRound (js_plus1 n))
                      (\<lambda>_. iothrow (Error (unable_message n))))))"
    by (rule keeps_catch)
  then show ?thesis
    using keeps_readBlock [of k] by (intro tripleI) (auto simp: getBlockHash_def dest: keepsD split: option.splits)
qed

lemma blocksInCache_wf: "wf_from k s \<Longrightarrow> wf_from k (snd (blocksInCache ns s))"
proof (induction ns arbitrary: s)
  case (Cons n ns)
  from Cons.IH [OF keeps_blockInCache_state [OF Cons.prems, of n]] show ?case
    by (simp add: case_prod_beta')
qed simp

lemma keeps_fetchOne [wf_keep]: "keeps (wf_from k) (fetchOne d x)"
  by (cases x; cases "snd x") (auto simp: fetchOne_def intro: keeps_of_live triple_getBlockByHeight)

lemma keeps_writeHash [wf_keep]: "keeps (wf_from k) (writeBlock b ''hash'' v)"
proof (rule tripleI)
  fix s :: "'a AlgorandApi" and x s' assume s: "wf_from k s" and run: "writeBlock b ''hash'' v s = Some (Inr x, s')"
  then have s': "s' = s\<lparr>heap := (heap s)[b := obj_put (deref (heap s) b) ''hash'' v]\<rparr>"
    by (simp add: writeBlock_def)
  have "block_wf i (heap s' ! i)" if "i < length (heap s)" for i
    using s that by (cases "i = b") (auto simp: s' wf_from_def api_wf_def deref_def block_wf_put_hash)
  with s show "wf_from k s'" by (auto simp: s' wf_from_def api_wf_def)
qed (simp add: writeBlock_def)

lemma keeps_setHash [wf_keep]: "keeps (wf_from k) (setHash d blocks b)"
  unfolding setHash_def
  by (intro keeps_bind keeps_readBlock keeps_getBlockHash keeps_writeHash keeps_ret)

lemma keeps_fetchBlocks: "keeps (wf_from k) (fetchBlocks d ns)"
proof (rule keepsI)
  fix s :: "'a AlgorandApi" and r s' assume s: "wf_from k s" and run: "fetchBlocks d ns s = Some (r, s')"
  obtain founds t where f: "blocksInCache ns s = (founds, t)" by (cases "blocksInCache ns s")
  with blocksInCache_wf [OF s, of ns] have t: "wf_from k t" by simp
  have "keeps (wf_from k) (iobind (ioall (settles d) (map (fetchOne d) (zip ns founds))) (\<lambda>blocks.
     ioall (settles d) (map (setHash d blocks) blocks)))"
    by (intro keeps_bind keeps_tasks) (auto intro: keeps_fetchOne keeps_setHash)
  from keepsD [OF this t] run f show "wf_from k s'" by (simp add: fetchBlocks_def)
qed

section \<open>Every state the client gets into\<close>

text \<open>
  The client is created, its methods are called in any order, and between two calls the world does
  what it likes. A call that is rejected leaves a state too.
\<close>

inductive api_reach :: "'w deps \<Rightarrow> 'w AlgorandApi \<Rightarrow> bool" for d where
  created: "indexer_config url_port endpoint config = Inr c \<Longrightarrow> Indexer c = d \<Longrightarrow>
    create Indexer url_port endpoint config w = Inr s \<Longrightarrow> api_reach d s"
| outside: "api_reach d s \<Longrightarrow> api_reach d (s\<lparr>world := w\<rparr>)"
| by_height: "api_reach d s \<Longrightarrow> getBlockByHeight d h s = Some (r, s') \<Longrightarrow> api_reach d s'"
| header: "api_reach d s \<Longrightarrow> getHeaderOnly d h s = Some (r, s') \<Longrightarrow> api_reach d s'"
| latest: "api_reach d s \<Longrightarrow> getLatestBlockHeader d s = Some (r, s') \<Longrightarrow> api_reach d s'"
| blocks: "api_reach d s \<Longrightarrow> fetchBlocks d ns s = Some (q, s') \<Longrightarrow> api_reach d s'"

lemma readGenesis_new:
  "readGenesis d w = Inr s \<Longrightarrow> heap s = [] \<and> blockCache s = []"
  by (auto simp: readGenesis_def new_AlgorandApi_def bindR_Inr_iff split: prod.splits sum.splits)

lemma create_wf: "create Indexer url_port endpoint config w = Inr s \<Longrightarrow> api_wf s"
  by (auto simp: create_def bindR_Inr_iff api_wf_def dest: readGenesis_new)

lemma wf_from_0: "api_wf s \<longleftrightarrow> wf_from 0 s"
  by (simp add: wf_from_def)

lemma api_reach_wf: "api_reach d s \<Longrightarrow> api_wf s"
proof (induction rule: api_reach.induct)
  case (latest s r s')
  have "keeps (wf_from 0) (getLatestBlockHeader d)"
    unfolding getLatestBlockHeader_def
    by (intro keeps_bind keeps_healthRound keeps_of_live triple_getHeaderOnly)
  with latest show ?case by (auto simp: wf_from_0 dest: keepsD)
qed (auto simp: wf_from_0 create_wf [unfolded wf_from_0] wf_from_world
       dest: keepsD [OF keeps_of_live [OF triple_getBlockByHeight]]
         keepsD [OF keeps_of_live [OF triple_getHeaderOnly]] keepsD [OF keeps_fetchBlocks])

text \<open>What a block answers about a group is what its transactions say, each of which refers to it.\<close>

lemma block_wf_group:
  assumes "block_wf i b" "obj_get b ''getTransactionsByGroup'' = JFun (GetTransactionsByGroup v)"
  shows "tx \<in> set (getTransactionsByGroup v g) \<longleftrightarrow>
     (\<exists>txs. obj_get b ''transactions'' = JArr txs \<and> tx \<in> set txs
        \<and> obj_get (own_props [] tx) ''group'' = JStr g)"
  and "tx \<in> set (getTransactionsByGroup v g) \<Longrightarrow> obj_get (own_props [] tx) ''block'' = JRef i"
proof -
  from assms have v: "v = obj_get b ''transactions''" by (simp add: block_wf_def)
  then show "tx \<in> set (getTransactionsByGroup v g) \<longleftrightarrow>
     (\<exists>txs. obj_get b ''transactions'' = JArr txs \<and> tx \<in> set txs
        \<and> obj_get (own_props [] tx) ''group'' = JStr g)"
    by (cases "obj_get b ''transactions''") auto
  then show "tx \<in> set (getTransactionsByGroup v g) \<Longrightarrow> obj_get (own_props [] tx) ''block'' = JRef i"
    using assms(1) by (auto simp: block_wf_def)
qed

section \<open>The cache\<close>

text \<open>
  What \<open>fetchBlocks\<close> needs of the cache: a block that is taken is one of the round asked for, and it is
  in the cache no more; without one the cache is as it was; a block that is put is there.
\<close>

locale block_cache =
  fixes fetch :: "int \<Rightarrow> 's \<Rightarrow> nat option \<times> 's"
    and put :: "nat \<Rightarrow> 's \<Rightarrow> 's"
    and cached :: "'s \<Rightarrow> nat list"
    and at_round :: "'s \<Rightarrow> int \<Rightarrow> nat \<Rightarrow> bool"
  assumes fetch_None: "fetch n s = (None, s') \<Longrightarrow> s' = s \<and> (\<forall>b \<in> set (cached s). \<not> at_round s n b)"
    and fetch_Some: "fetch n s = (Some b, s') \<Longrightarrow> at_round s n b \<and> at_round s' = at_round s
          \<and> mset (cached s) = add_mset b (mset (cached s'))"
    and put_cached: "cached (put b s) = cached s @ [b]"
    and put_round: "at_round (put b s) = at_round s"
begin

lemma fetch_once: "fetch n s = (Some b, s') \<Longrightarrow> distinct (cached s) \<Longrightarrow> b \<notin> set (cached s') \<and> distinct (cached s')"
  by (metis fetch_Some distinct.simps(2) mset.simps(2) mset_eq_imp_distinct_iff)

lemma fetch_length: "fetch n s = (c, s') \<Longrightarrow> length (cached s') = length (cached s) - (if c = None then 0 else 1)"
  by (cases c) (auto dest!: fetch_None fetch_Some dest: arg_cong [where f = size])

lemma fetch_mem: "fetch n s = (Some b, s') \<Longrightarrow> b \<in> set (cached s)"
  by (metis fetch_Some set_mset_mset union_single_eq_member)

lemma fetch_subset: "fetch n s = (c, s') \<Longrightarrow> set (cached s') \<subseteq> set (cached s)"
  by (cases c) (metis fetch_None order_refl, metis fetch_Some set_mset_mset set_mset_add_mset_insert subset_insertI)

lemma fetch_put:
  assumes "at_round s n b" "\<And>c. c \<in> set (cached s) \<Longrightarrow> \<not> at_round s n c" "fetch n (put b s) = (c, s')"
  shows "c = Some b \<and> mset (cached s') = mset (cached s)"
proof (cases c)
  case None
  with fetch_None [of n "put b s" s'] assms show ?thesis by (auto simp: put_cached put_round)
next
  case (Some x)
  with assms(3) have x: "at_round s n x" "mset (cached s @ [b]) = add_mset x (mset (cached s'))"
    and "x \<in> set (cached (put b s))"
    using fetch_Some [of n "put b s" x s'] fetch_mem [of n "put b s" x s'] by (auto simp: put_cached put_round)
  with assms(2) have "x = b" by (auto simp: put_cached)
  with x Some show ?thesis by simp
qed

end

definition pushed :: "nat \<Rightarrow> 'w AlgorandApi \<Rightarrow> 'w AlgorandApi" where
  "pushed b s = s\<lparr>blockCache := blockCache s @ [b]\<rparr>"

lemma pushCache_pushed: "pushCache b s = Some (Inr (), pushed b s)"
  by (simp add: pushCache_def pushed_def)

interpretation cache: block_cache blockInCache pushed blockCache "\<lambda>s n. has_round (heap s) (JNum n)"
proof
  fix n and s s' :: "'a AlgorandApi" and b
  show "s' = s \<and> (\<forall>b \<in> set (blockCache s). \<not> has_round (heap s) (JNum n) b)"
    if "blockInCache n s = (None, s')"
    using that take_first_None [of "has_round (heap s) (JNum n)" "blockCache s"]
      take_first_None_snd [of "has_round (heap s) (JNum n)" "blockCache s"]
    by (auto simp: blockInCache_def split: prod.splits)
  show "has_round (heap s) (JNum n) b \<and> (\<lambda>n. has_round (heap s') (JNum n)) = (\<lambda>n. has_round (heap s) (JNum n))
      \<and> mset (blockCache s) = add_mset b (mset (blockCache s'))"
    if "blockInCache n s = (Some b, s')"
    using that take_first_Some [of "has_round (heap s) (JNum n)" "blockCache s" b]
    by (auto simp: blockInCache_def split: prod.splits)
qed (simp_all add: pushed_def)

text \<open>
  The blocks of one round in the cache: they are taken out in the order they were put in, the others stay.
\<close>

definition cached_at :: "int \<Rightarrow> 'w AlgorandApi \<Rightarrow> nat list" where
  "cached_at n s = filter (has_round (heap s) (JNum n)) (blockCache s)"

lemma blocksInCache_round:
  "blocksInCache (replicate (length (cached_at n s)) n) s = (map Some (cached_at n s),
     s\<lparr>blockCache := filter (\<lambda>b. \<not> has_round (heap s) (JNum n) b) (blockCache s)\<rparr>)"
proof (induction "length (cached_at n s)" arbitrary: s)
  case 0
  then show ?case by (simp add: cached_at_def filter_empty_conv filter_id_conv)
next
  case (Suc k)
  let ?P = "has_round (heap s) (JNum n)"
  obtain c cs where cs: "cached_at n s = c # cs" using Suc.hyps(2) by (cases "cached_at n s") auto
  from take_first_filter [OF this [unfolded cached_at_def]] obtain rest where
    rest: "take_first ?P (blockCache s) = (Some c, rest)" "filter ?P rest = cs"
      "filter (\<lambda>b. \<not> ?P b) rest = filter (\<lambda>b. \<not> ?P b) (blockCache s)" by blast
  let ?t = "s\<lparr>blockCache := rest\<rparr>"
  have t: "cached_at n ?t = cs" using rest(2) by (simp add: cached_at_def)
  have "blockInCache n s = (Some c, ?t)" by (simp add: blockInCache_def rest(1))
  moreover have "blocksInCache (replicate (length cs) n) ?t
      = (map Some cs, s\<lparr>blockCache := filter (\<lambda>b. \<not> ?P b) (blockCache s)\<rparr>)"
    using Suc.hyps(1) [of ?t] Suc.hyps(2) rest(3) by (simp add: t cs)
  ultimately show ?case by (simp add: cs)
qed

lemma cached_at_pushed: "has_round (heap s) (JNum n) b \<Longrightarrow> cached_at n (pushed b s) = cached_at n s @ [b]"
  by (simp add: cached_at_def pushed_def)

lemma blockInCache_pushed:
  assumes "has_round (heap s) (JNum n) b"
  shows "blockInCache n (pushed b s) = (case blockInCache n s of
     (None, u) \<Rightarrow> (Some b, u) | (Some c, u) \<Rightarrow> (Some c, pushed b u))"
  using assms take_first_None_snd [of "has_round (heap s) (JNum n)" "blockCache s"]
  by (auto simp: blockInCache_def pushed_def take_first_append split: prod.splits option.splits)

end
