(* ===== verification/Tasks.thy ===== *)
theory Tasks
  imports Prelude "HOL-Library.Extended_Nat"
begin

text \<open>
  Asynchronous code as the sequence of its sections: what runs from one \<open>await\<close> to the next without
  interruption. Other code may run between two sections, on the same state; the rules below are those of
  rely and guarantee, with a bound on the number of sections that are left.
\<close>

section \<open>Tasks\<close>

text \<open>
  A task has settled, or it waits and its next section takes the state at that time. \<open>diverge\<close> waits for
  ever; \<open>thenT\<close> goes on with the result, \<open>bindT\<close> with its value, \<open>catchT\<close> with its rejection; \<open>atomic\<close> is a
  single section, and \<open>loopT\<close> repeats a section until it has a value.
\<close>

codatatype ('s, 'a) task =
    Done (outcome: "'a res")
  | Await (resume: "'s \<Rightarrow> ('s, 'a) task \<times> 's")

primcorec diverge :: "('s, 'a) task" where
  "diverge = Await (map_prod (\<lambda>_. diverge) id \<circ> Pair ())"

primcorec thenT :: "('s, 'a) task \<Rightarrow> ('a res \<Rightarrow> ('s, 'b) task) \<Rightarrow> ('s, 'b) task" where
  "thenT m f = (case m of Done r \<Rightarrow> f r | Await g \<Rightarrow> Await (map_prod (\<lambda>t. thenT t f) id \<circ> g))"

definition bindT :: "('s, 'a) task \<Rightarrow> ('a \<Rightarrow> ('s, 'b) task) \<Rightarrow> ('s, 'b) task" where
  "bindT m f = thenT m (\<lambda>r. case r of Inl e \<Rightarrow> Done (Inl e) | Inr x \<Rightarrow> f x)"

definition catchT :: "('s, 'a) task \<Rightarrow> (js_error \<Rightarrow> ('s, 'a) task) \<Rightarrow> ('s, 'a) task" where
  "catchT m h = thenT m (\<lambda>r. case r of Inl e \<Rightarrow> h e | Inr x \<Rightarrow> Done (Inr x))"

definition atomic :: "('s, 'a) io \<Rightarrow> ('s, 'a) task" where
  "atomic m = Await (\<lambda>s. case m s of None \<Rightarrow> (diverge, s) | Some (r, s') \<Rightarrow> (Done r, s'))"

primcorec loopT :: "('c \<Rightarrow> ('s, 'c + 'a) io) \<Rightarrow> 'c \<Rightarrow> ('s, 'a) task" where
  "loopT body c = Await (\<lambda>s. map_prod (case_sum (loopT body) id) id (case body c s of
     None \<Rightarrow> (Inr diverge, s)
   | Some (Inl e, s') \<Rightarrow> (Inr (Done (Inl e)), s')
   | Some (Inr (Inl c'), s') \<Rightarrow> (Inl c', s')
   | Some (Inr (Inr x), s') \<Rightarrow> (Inr (Done (Inr x)), s')))"

lemma thenT_simps [simp]:
  "thenT (Done r) f = f r" "thenT (Await g) f = Await (\<lambda>s. case g s of (t, s') \<Rightarrow> (thenT t f, s'))"
  by (subst thenT.code, simp add: comp_def map_prod_def)+

lemma diverge_unfold: "diverge = Await (\<lambda>s. (diverge, s))"
  by (subst diverge.code) (simp add: comp_def)

lemma loopT_unfold: "loopT body c = Await (\<lambda>s. case body c s of
     None \<Rightarrow> (diverge, s)
   | Some (Inl e, s') \<Rightarrow> (Done (Inl e), s')
   | Some (Inr (Inl c'), s') \<Rightarrow> (loopT body c', s')
   | Some (Inr (Inr x), s') \<Rightarrow> (Done (Inr x), s'))"
  by (subst loopT.code) (auto simp: fun_eq_iff split: option.splits prod.splits sum.splits)

text \<open>
  \<open>Promise.all\<close> over tasks whose sections interleave: \<open>pick n s\<close> chooses which of the \<open>n\<close> tasks that have not
  settled runs its next section. The result is the rejection that came first in time, if there was one, or
  all the values; it is there when every task has settled.
\<close>

definition unsettled :: "('s, 'a) task list \<Rightarrow> nat list" where
  "unsettled ts = filter (\<lambda>i. \<not> is_Done (ts ! i)) [0..<length ts]"

fun first_error :: "js_error option \<Rightarrow> ('s, 'a) task list \<Rightarrow> js_error option" where
  "first_error (Some e) ts = Some e"
| "first_error None [] = None"
| "first_error None (Done (Inl e) # ts) = Some e"
| "first_error None (Done (Inr x) # ts) = first_error None ts"
| "first_error None (Await f # ts) = first_error None ts"

definition step_all :: "'s event_loop \<Rightarrow> js_error option \<times> ('s, 'a) task list \<Rightarrow> 's
    \<Rightarrow> (js_error option \<times> ('s, 'a) task list) \<times> 's" where
  "step_all pick p s = (case p of (err, ts) \<Rightarrow> let ps = unsettled ts in
     case pick (length ps) s of (k, s1) \<Rightarrow> let i = ps ! (k mod length ps) in
     case resume (ts ! i) s1 of (t, s2) \<Rightarrow> ((first_error err [t], ts[i := t]), s2))"

primcorec all_from :: "'s event_loop \<Rightarrow> js_error option \<times> ('s, 'a) task list \<Rightarrow> ('s, 'a list) task" where
  "all_from pick p = (if unsettled (snd p) = []
     then Done (case fst p of Some e \<Rightarrow> Inl e | None \<Rightarrow> Inr (map (\<lambda>t. projr (outcome t)) (snd p)))
     else Await (map_prod (all_from pick) id \<circ> step_all pick p))"

lemma all_from_unfold:
  "unsettled ts = [] \<Longrightarrow> all_from pick (err, ts) = Done (case err of Some e \<Rightarrow> Inl e | None \<Rightarrow> Inr (map (\<lambda>t. projr (outcome t)) ts))"
  "unsettled ts \<noteq> [] \<Longrightarrow> all_from pick (err, ts) = Await (\<lambda>s. case step_all pick (err, ts) s of (p, s') \<Rightarrow> (all_from pick p, s'))"
  by (subst all_from.code, simp add: comp_def map_prod_def split: option.split)+

definition allT :: "'s event_loop \<Rightarrow> ('s, 'a) task list \<Rightarrow> ('s, 'a list) task" where
  "allT pick ts = all_from pick (first_error None ts, ts)"

definition bothT :: "'s event_loop \<Rightarrow> ('s, 'a) task \<Rightarrow> ('s, 'b) task \<Rightarrow> ('s, 'a \<times> 'b) task" where
  "bothT pick a b = bindT (allT pick [bindT a (\<lambda>x. Done (Inr (Inl x))), bindT b (\<lambda>y. Done (Inr (Inr y)))])
     (\<lambda>xs. Done (Inr (projl (xs ! 0), projr (xs ! 1))))"

text \<open>A task with nothing else running: its sections one after the other.\<close>

partial_function (option) alone :: "('s, 'a) task \<Rightarrow> ('s, 'a) io" where
  "alone t s = (case t of Done r \<Rightarrow> Some (r, s) | Await f \<Rightarrow> (case f s of (t', s') \<Rightarrow> alone t' s'))"

section \<open>A task alone\<close>

lemma alone_simps [simp]:
  "alone (Done r) s = Some (r, s)" "alone (Await f) s = (case f s of (t, s') \<Rightarrow> alone t s')"
  by (subst alone.simps, simp)+

lemma alone_induct [consumes 1, case_names Done Await]:
  fixes t :: "('s, 'a) task"
  assumes "alone t s = Some (r, s')"
    and "\<And>r s. P (Done r) s r s"
    and "\<And>f s t u r s'. f s = (t, u) \<Longrightarrow> alone t u = Some (r, s') \<Longrightarrow> P t u r s' \<Longrightarrow> P (Await f) s r s'"
  shows "P t s r s'"
proof -
  let ?Q = "\<lambda>t s z. alone t s = Some z \<and> P t s (fst z) (snd z)"
  have "?Q t s (r, s')"
  proof (rule alone.raw_induct [OF _ assms(1), where P = ?Q])
    fix al :: "('s, 'a) task \<Rightarrow> ('s, 'a) io" and t :: "('s, 'a) task" and s z
    assume "\<And>t s z. al t s = Some z \<Longrightarrow> ?Q t s z"
      and "(case t of Done r \<Rightarrow> Some (r, s) | Await f \<Rightarrow> (case f s of (t', s') \<Rightarrow> al t' s')) = Some z"
    then show "?Q t s z" using assms(2,3) by (cases t) (auto split: prod.splits)
  qed
  then show ?thesis by simp
qed

lemma alone_None: "(\<And>r s'. alone t s \<noteq> Some (r, s')) \<Longrightarrow> alone t s = None"
  by (metis not_Some_eq prod.collapse)

lemma alone_diverge [simp]: "alone (diverge :: ('s, 'a) task) s = None"
proof (rule alone_None)
  have "t \<noteq> diverge" if "alone t s = Some (r, s')" for t :: "('s, 'a) task" and r s'
    using that
  proof (induction rule: alone_induct)
    case (Done r s)
    then show ?case by (subst diverge_unfold) simp
  next
    case (Await f s t u r s')
    then show ?case by (subst diverge_unfold) auto
  qed
  then show "alone (diverge :: ('s, 'a) task) s \<noteq> Some (r, s')" for r s' by blast
qed

lemma alone_atomic [simp]: "alone (atomic m) = m"
  by (auto simp: atomic_def fun_eq_iff split: option.splits)

lemma alone_thenT_Some: "alone m s = Some (r, s') \<Longrightarrow> alone (thenT m f) s = alone (f r) s'"
  by (induction rule: alone_induct) simp_all

lemma alone_thenT_settles: "alone t s = Some (r, s') \<Longrightarrow> t = thenT m f \<Longrightarrow> \<exists>z. alone m s = Some z"
proof (induction arbitrary: m rule: alone_induct)
  case (Done r s)
  then show ?case by (cases m) auto
next
  case (Await g s t u r s')
  show ?case
  proof (cases m)
    case m: (Await g')
    with Await(4) have "g = (\<lambda>s. case g' s of (t, s') \<Rightarrow> (thenT t f, s'))" by simp
    with Await(1,3) m show ?thesis by (auto split: prod.splits)
  qed simp
qed

lemma alone_thenT:
  "alone (thenT m f) s = (case alone m s of None \<Rightarrow> None | Some (r, s') \<Rightarrow> alone (f r) s')"
proof (cases "alone m s")
  case None
  with alone_thenT_settles [OF _ refl, of m f s] show ?thesis by (auto intro!: alone_None)
next
  case (Some z)
  then show ?thesis by (cases z) (simp add: alone_thenT_Some)
qed

lemma alone_bindT [simp]: "alone (bindT m f) = iobind (alone m) (\<lambda>x. alone (f x))"
  by (auto simp: bindT_def alone_thenT iobind_def fun_eq_iff split: option.splits sum.splits)

lemma alone_catchT [simp]: "alone (catchT m h) = iocatch (alone m) (\<lambda>e. alone (h e))"
  by (auto simp: catchT_def alone_thenT iocatch_def fun_eq_iff split: option.splits sum.splits)

lemma alone_loopT: "alone (loopT body c) s = (case body c s of
     None \<Rightarrow> None
   | Some (Inl e, s') \<Rightarrow> Some (Inl e, s')
   | Some (Inr (Inl c'), s') \<Rightarrow> alone (loopT body c') s'
   | Some (Inr (Inr x), s') \<Rightarrow> Some (Inr x, s'))"
  by (subst loopT_unfold) (auto split: option.splits sum.splits)

lemma alone_loopT_induct [consumes 1, case_names section_run]:
  assumes "alone (loopT body c) s \<noteq> None"
    and step: "\<And>c s. body c s \<noteq> None \<Longrightarrow> (\<And>c' s'. body c s = Some (Inr (Inl c'), s') \<Longrightarrow> P c' s') \<Longrightarrow> P c s"
  shows "P c s"
proof -
  have "\<forall>c. t = loopT body c \<longrightarrow> P c s" if "alone t s = Some (r, s')" for t r s'
    using that
  proof (induction rule: alone_induct)
    case (Await f s t u r s')
    have "P c s" if "Await f = loopT body c" for c
    proof -
      from that have "f = resume (loopT body c)" by (metis task.sel(2))
      then have f: "f = (\<lambda>s. case body c s of None \<Rightarrow> (diverge, s) | Some (Inl e, s') \<Rightarrow> (Done (Inl e), s')
        | Some (Inr (Inl c'), s') \<Rightarrow> (loopT body c', s') | Some (Inr (Inr x), s') \<Rightarrow> (Done (Inr x), s'))"
        by (subst (asm) loopT_unfold) simp
      show ?thesis by (rule step) (use Await f in \<open>auto split: option.splits\<close>)
    qed
    then show ?case by blast
  qed (subst loopT_unfold, simp)
  with assms(1) show ?thesis by fastforce
qed

section \<open>What a task does while others run\<close>

text \<open>
  \<open>conforms ok ext Q n t s\<close>: from \<open>s\<close> on, whatever the others do between two sections of \<open>t\<close> as long as \<open>ok\<close>
  and \<open>ext\<close> hold of it, each section of \<open>t\<close> keeps \<open>ok\<close> and \<open>ext\<close> itself, and \<open>t\<close> settles within \<open>n\<close> sections
  in a result and a state that satisfy \<open>Q\<close>. With \<open>\<infinity>\<close> it may also go on for ever.
\<close>

coinductive conforms :: "('s \<Rightarrow> bool) \<Rightarrow> ('s \<Rightarrow> 's \<Rightarrow> bool) \<Rightarrow> ('a res \<Rightarrow> 's \<Rightarrow> bool) \<Rightarrow> enat
    \<Rightarrow> ('s, 'a) task \<Rightarrow> 's \<Rightarrow> bool" for ok ext Q where
  settled: "Q r s \<Longrightarrow> conforms ok ext Q n (Done r) s"
| waiting: "(\<And>s' t u. ok s' \<Longrightarrow> ext s s' \<Longrightarrow> f s' = (t, u) \<Longrightarrow> ok u \<and> ext s' u \<and> conforms ok ext Q n t u)
    \<Longrightarrow> conforms ok ext Q (eSuc n) (Await f) s"

inductive_simps conforms_Done [simp]: "conforms ok ext Q n (Done r) s"
inductive_cases conforms_AwaitE: "conforms ok ext Q n (Await f) s"

lemma conforms_coinduct [consumes 1, case_names Done Await]:
  assumes "X n t s"
    and "\<And>n r s. X n (Done r) s \<Longrightarrow> Q r s"
    and "\<And>n f s. X n (Await f) s \<Longrightarrow> \<exists>m. n = eSuc m \<and> (\<forall>s' t u. ok s' \<longrightarrow> ext s s' \<longrightarrow> f s' = (t, u) \<longrightarrow>
      ok u \<and> ext s' u \<and> (X m t u \<or> conforms ok ext Q m t u))"
  shows "conforms ok ext Q n t s"
  using assms(1)
proof (coinduction arbitrary: n t s)
  case conforms
  show ?case
  proof (cases t)
    case (Done r)
    with assms(2) conforms show ?thesis by simp
  next
    case (Await f)
    with assms(3) [of n f s] conforms show ?thesis by auto
  qed
qed

lemma conforms_Await:
  "conforms ok ext Q n (Await f) s \<longleftrightarrow> (\<exists>m. n = eSuc m \<and> (\<forall>s' t u. ok s' \<longrightarrow> ext s s' \<longrightarrow> f s' = (t, u) \<longrightarrow>
     ok u \<and> ext s' u \<and> conforms ok ext Q m t u))"
  by (auto elim!: conforms_AwaitE intro!: waiting)

lemma eSuc_leE:
  assumes "eSuc k \<le> m"
  obtains j where "m = eSuc j" "k \<le> j"
proof (cases m)
  case (enat x)
  with assms obtain y where "x = Suc y" by (cases x) (simp_all add: zero_enat_def [symmetric])
  with enat have "m = eSuc (enat y)" by (simp add: eSuc_enat)
  with assms that show thesis by simp
next
  case infinity
  with that [of \<infinity>] show thesis by simp
qed

lemma conforms_weaken:
  assumes "conforms ok ext Q n t s" "n \<le> m" "\<And>r s. Q r s \<Longrightarrow> Q' r s"
  shows "conforms ok ext Q' m t s"
proof (rule conforms_coinduct [where X = "\<lambda>m t s. \<exists>n \<le> m. conforms ok ext Q n t s"])
  show "\<exists>n \<le> m. conforms ok ext Q n t s" using assms by blast
next
  fix m f s assume "\<exists>n \<le> m. conforms ok ext Q n (Await f) s"
  then obtain n where n: "n \<le> m" "conforms ok ext Q n (Await f) s" by blast
  then obtain k where k: "n = eSuc k" and f: "\<And>s' t u. ok s' \<Longrightarrow> ext s s' \<Longrightarrow> f s' = (t, u) \<Longrightarrow>
    ok u \<and> ext s' u \<and> conforms ok ext Q k t u" unfolding conforms_Await by blast
  from n(1) k obtain j where "m = eSuc j" "k \<le> j" using eSuc_leE [of k m] by blast
  with f show "\<exists>j. m = eSuc j \<and> (\<forall>s' t u. ok s' \<longrightarrow> ext s s' \<longrightarrow> f s' = (t, u) \<longrightarrow>
     ok u \<and> ext s' u \<and> ((\<exists>n \<le> j. conforms ok ext Q n t u) \<or> conforms ok ext Q' j t u))" by blast
qed (use assms(3) in auto)

lemma conforms_thenT:
  assumes "conforms ok ext (\<lambda>r s. conforms ok ext Q k (f r) s) n t s"
  shows "conforms ok ext Q (n + k) (thenT t f) s"
proof (cases t)
  case (Done r)
  with assms show ?thesis by (auto intro: conforms_weaken)
next
  case (Await g)
  let ?C = "conforms ok ext (\<lambda>r s. conforms ok ext Q k (f r) s)"
  define X where "X m u s \<longleftrightarrow> (\<exists>g n. u = thenT (Await g) f \<and> m = n + k \<and> ?C n (Await g) s)" for m u s
  have then_step: "X (n + k) (thenT t f) s \<or> conforms ok ext Q (n + k) (thenT t f) s" if "?C n t s" for n t s
    using that by (cases t) (auto simp: X_def simp del: thenT_simps(2) intro: conforms_weaken)
  from assms Await have "X (n + k) (thenT t f) s" by (auto simp: X_def simp del: thenT_simps)
  then show ?thesis
  proof (rule conforms_coinduct [where X = X])
    fix m h u assume "X m (Await h) u"
    then obtain g n where h: "h = (\<lambda>s. case g s of (t, s') \<Rightarrow> (thenT t f, s'))" and m: "m = n + k"
      and c: "?C n (Await g) u" by (auto simp: X_def)
    from c obtain j where j: "n = eSuc j" and g: "\<And>s' t v. ok s' \<Longrightarrow> ext u s' \<Longrightarrow> g s' = (t, v) \<Longrightarrow>
       ok v \<and> ext s' v \<and> ?C j t v" by (auto simp: conforms_Await)
    have "ok v \<and> ext s' v \<and> (X (j + k) t v \<or> conforms ok ext Q (j + k) t v)"
      if "ok s'" "ext u s'" "h s' = (t, v)" for s' t v
    proof -
      from that(3) h obtain t' where "g s' = (t', v)" and t: "t = thenT t' f" by (auto split: prod.splits)
      from g [OF that(1,2) this(1)] have "ok v" "ext s' v" "?C j t' v" by blast+
      with then_step [OF this(3)] t show ?thesis by simp
    qed
    moreover have "m = eSuc (j + k)" by (simp add: m j iadd_Suc)
    ultimately show "\<exists>m'. m = eSuc m' \<and> (\<forall>s' t v. ok s' \<longrightarrow> ext u s' \<longrightarrow> h s' = (t, v) \<longrightarrow>
      ok v \<and> ext s' v \<and> (X m' t v \<or> conforms ok ext Q m' t v))" by blast
  qed (auto simp: X_def)
qed

lemma conforms_bindT:
  assumes "conforms ok ext (\<lambda>r s. case r of Inl e \<Rightarrow> Q (Inl e) s | Inr x \<Rightarrow> conforms ok ext Q k (f x) s) n t s"
  shows "conforms ok ext Q (n + k) (bindT t f) s"
  unfolding bindT_def by (rule conforms_thenT [OF conforms_weaken [OF assms]]) (auto split: sum.splits)

lemma conforms_catchT:
  assumes "conforms ok ext (\<lambda>r s. case r of Inl e \<Rightarrow> conforms ok ext Q k (h e) s | Inr x \<Rightarrow> Q (Inr x) s) n t s"
  shows "conforms ok ext Q (n + k) (catchT t h) s"
  unfolding catchT_def by (rule conforms_thenT [OF conforms_weaken [OF assms]]) (auto split: sum.splits)

text \<open>What stays true whatever happens is true of the result.\<close>

lemma conforms_frame:
  assumes "conforms ok ext Q n t s" "R s" and stable: "\<And>s s'. ext s s' \<Longrightarrow> R s \<Longrightarrow> R s'"
  shows "conforms ok ext (\<lambda>r s. Q r s \<and> R s) n t s"
proof (rule conforms_coinduct [where X = "\<lambda>n t s. conforms ok ext Q n t s \<and> R s"])
  fix n f s assume "conforms ok ext Q n (Await f) s \<and> R s"
  then obtain m where m: "n = eSuc m" and f: "\<And>s' t u. ok s' \<Longrightarrow> ext s s' \<Longrightarrow> f s' = (t, u) \<Longrightarrow>
     ok u \<and> ext s' u \<and> conforms ok ext Q m t u" and R: "R s" unfolding conforms_Await by blast
  have "R u" if "ok s'" "ext s s'" "f s' = (t, u)" for s' t u
    using f [OF that] stable [of s' u] stable [OF that(2) R] by blast
  with m f show "\<exists>m. n = eSuc m \<and> (\<forall>s' t u. ok s' \<longrightarrow> ext s s' \<longrightarrow> f s' = (t, u) \<longrightarrow>
     ok u \<and> ext s' u \<and> ((conforms ok ext Q m t u \<and> R u) \<or> conforms ok ext (\<lambda>r s. Q r s \<and> R s) m t u))" by blast
qed (use assms in auto)

lemma conforms_ok:
  assumes "conforms ok ext Q n t s" "ok s"
  shows "conforms ok ext (\<lambda>r s. Q r s \<and> ok s) n t s"
proof (rule conforms_coinduct [where X = "\<lambda>n t s. conforms ok ext Q n t s \<and> ok s"])
  fix n f s assume "conforms ok ext Q n (Await f) s \<and> ok s"
  then show "\<exists>m. n = eSuc m \<and> (\<forall>s' t u. ok s' \<longrightarrow> ext s s' \<longrightarrow> f s' = (t, u) \<longrightarrow>
     ok u \<and> ext s' u \<and> ((conforms ok ext Q m t u \<and> ok u) \<or> conforms ok ext (\<lambda>r s. Q r s \<and> ok s) m t u))"
    unfolding conforms_Await by blast
qed (use assms in auto)

text \<open>\<open>yields P\<close>: the result is a value, and \<open>P\<close> holds of it.\<close>

definition yields :: "('a \<Rightarrow> 's \<Rightarrow> bool) \<Rightarrow> 'a res \<Rightarrow> 's \<Rightarrow> bool" where
  "yields P r s \<longleftrightarrow> (\<exists>x. r = Inr x \<and> P x s)"

lemma yields_simps [simp]: "yields P (Inr x) s = P x s" "\<not> yields P (Inl e) s"
  by (simp_all add: yields_def)

lemma yields_mono: "yields P r s \<Longrightarrow> (\<And>x. P x s \<Longrightarrow> P' x s') \<Longrightarrow> yields P' r s'"
  by (auto simp: yields_def)

lemma conforms_bind_yields:
  assumes "conforms ok ext (yields P) n t s" "\<And>x s. P x s \<Longrightarrow> conforms ok ext Q k (f x) s"
  shows "conforms ok ext Q (n + k) (bindT t f) s"
  by (rule conforms_bindT, rule conforms_weaken [OF assms(1)]) (auto simp: assms(2) yields_def)

lemma conforms_catch_yields:
  assumes "conforms ok ext (yields P) n t s"
  shows "conforms ok ext (yields P) n (catchT t h) s"
proof -
  have "conforms ok ext (yields P) (n + 0) (catchT t h) s"
    by (rule conforms_catchT, rule conforms_weaken [OF assms]) (auto simp: yields_def)
  then show ?thesis by simp
qed

lemma conforms_diverge: "(\<And>s. ok s \<Longrightarrow> ext s s) \<Longrightarrow> conforms ok ext Q \<infinity> diverge s"
  by (coinduction arbitrary: s rule: conforms_coinduct)
    ((subst (asm) diverge_unfold, simp)+, fastforce intro: exI [of _ \<infinity>])

text \<open>A section, and a loop of sections.\<close>

lemma conforms_atomic:
  assumes "\<And>s'. ok s' \<Longrightarrow> ext s s' \<Longrightarrow> \<exists>r u. m s' = Some (r, u) \<and> ok u \<and> ext s' u \<and> Q r u"
  shows "conforms ok ext Q 1 (atomic m) s"
  unfolding atomic_def one_eSuc
  by (rule waiting) (use assms in \<open>fastforce split: option.splits\<close>)

lemma conforms_loopT:
  assumes refl: "\<And>s. ok s \<Longrightarrow> ext s s"
    and body: "\<And>c s r u. ok s \<Longrightarrow> body c s = Some (r, u) \<Longrightarrow> ok u \<and> ext s u \<and>
      (case r of Inl e \<Rightarrow> Q (Inl e) u | Inr (Inl c') \<Rightarrow> True | Inr (Inr x) \<Rightarrow> Q (Inr x) u)"
  shows "conforms ok ext Q \<infinity> (loopT body c) s"
proof (rule conforms_coinduct [where X = "\<lambda>m t s. m = \<infinity> \<and> (\<exists>c. t = loopT body c)"])
  fix m :: enat and f s assume "m = \<infinity> \<and> (\<exists>c. Await f = loopT body c)"
  then obtain c where m: "m = \<infinity>" and "Await f = loopT body c" by blast
  then have f: "f = (\<lambda>s. case body c s of
     None \<Rightarrow> (diverge, s)
   | Some (Inl e, s') \<Rightarrow> (Done (Inl e), s')
   | Some (Inr (Inl c'), s') \<Rightarrow> (loopT body c', s')
   | Some (Inr (Inr x), s') \<Rightarrow> (Done (Inr x), s'))" by (subst (asm) loopT_unfold) simp
  have "ok u \<and> ext s' u \<and> ((\<exists>c. t = loopT body c) \<or> conforms ok ext Q \<infinity> t u)"
    if s': "ok s'" and t: "f s' = (t, u)" for s' t u
  proof (cases "body c s'")
    case None
    with t f refl [OF s'] s' conforms_diverge [of ok ext Q, OF refl] show ?thesis by auto
  next
    case (Some z)
    with t f body [OF s', of c "fst z" "snd z"] show ?thesis
      by (cases z) (auto split: sum.splits)
  qed
  with m show "\<exists>j. m = eSuc j \<and> (\<forall>s' t u. ok s' \<longrightarrow> ext s s' \<longrightarrow> f s' = (t, u) \<longrightarrow>
     ok u \<and> ext s' u \<and> ((j = \<infinity> \<and> (\<exists>c. t = loopT body c)) \<or> conforms ok ext Q j t u))"
    by (intro exI [of _ \<infinity>]) simp
qed (auto, subst (asm) loopT_unfold, simp)

section \<open>Many tasks\<close>

text \<open>
  Tasks over one state, in any order or with their sections in any order: \<open>ok\<close> is what they may rely
  on, \<open>ext\<close> how the state may change between two of them, \<open>pick\<close> the event loop.
\<close>

locale task_round =
  fixes ok :: "'s \<Rightarrow> bool" and ext :: "'s \<Rightarrow> 's \<Rightarrow> bool" and pick :: "'s event_loop"
  assumes ext_refl: "ok s \<Longrightarrow> ext s s"
    and ext_trans: "ok s \<Longrightarrow> ext s t \<Longrightarrow> ext t u \<Longrightarrow> ext s u"
    and pick_ok: "ok s \<Longrightarrow> ok (snd (pick n s)) \<and> ext s (snd (pick n s))"
begin

text \<open>\<open>E A\<close> is what holds besides when the tasks with the numbers \<open>A\<close> are done.\<close>

lemma all_tasks:
  assumes task: "\<And>i A s'. i < length xs \<Longrightarrow> i \<notin> A \<Longrightarrow> ok s' \<Longrightarrow> ext s s' \<Longrightarrow> E A s' \<Longrightarrow>
      \<exists>y s''. f (xs ! i) s' = Some (Inr y, s'') \<and> ok s'' \<and> ext s' s'' \<and> E (insert i A) s'' \<and> P (xs ! i) y s''"
    and stable: "\<And>x y s s'. ok s \<Longrightarrow> ext s s' \<Longrightarrow> P x y s \<Longrightarrow> P x y s'"
    and loop: "\<And>A s n. ok s \<Longrightarrow> E A s \<Longrightarrow> E A (snd (pick n s))"
    and start: "ok s" "E {} s"
  shows "\<exists>ys s'. ioall pick (map f xs) s = Some (Inr ys, s') \<and> ok s' \<and> ext s s' \<and> E {..<length xs} s'
     \<and> list_all2 (\<lambda>x y. P x y s') xs ys"
proof -
  define J where "J L t \<longleftrightarrow> ok t \<and> ext s t \<and> E (fst ` L) t \<and> (\<forall>(i, y) \<in> L. P (xs ! i) y t)" for L t
  have "\<exists>ys s'. ioall pick (map f xs) s = Some (Inr ys, s') \<and> length ys = length (map f xs)
     \<and> J ((\<lambda>i. (i, ys ! i)) ` {..<length (map f xs)}) s'"
  proof (rule ioall_rule)
    show "J L (snd (pick n t))" if J: "J L t" for L n t
    proof -
      from J have t: "ok t" "ext s t" "E (fst ` L) t" by (simp_all add: J_def)
      from pick_ok [OF t(1), of n] J loop [OF t(1,3), of n] ext_trans [OF start(1) t(2)] stable [OF t(1)]
      show ?thesis by (auto simp: J_def)
    qed
    show "\<exists>y t'. (map f xs ! i) t = Some (Inr y, t') \<and> J (insert (i, y) L) t'"
      if i: "i < length (map f xs)" "i \<notin> fst ` L" and J: "J L t" for i L t
    proof -
      from J have t: "ok t" "ext s t" "E (fst ` L) t" by (simp_all add: J_def)
      have i': "i < length xs" using i(1) by simp
      from task [OF i' i(2) t] obtain y t' where y: "f (xs ! i) t = Some (Inr y, t')" "ok t'" "ext t t'"
        "E (insert i (fst ` L)) t'" "P (xs ! i) y t'" by blast
      moreover have "ext s t'" by (rule ext_trans [OF start(1) t(2) y(3)])
      moreover have "\<forall>(i, y) \<in> L. P (xs ! i) y t'" using J stable [OF t(1) y(3)] by (auto simp: J_def)
      ultimately show ?thesis using i' by (auto simp: J_def)
    qed
    show "J {} s" using start ext_refl by (simp add: J_def)
  qed
  then obtain ys s' where ys: "ioall pick (map f xs) s = Some (Inr ys, s')" "length ys = length xs"
    and J: "J ((\<lambda>i. (i, ys ! i)) ` {..<length xs}) s'" by auto
  have "fst ` (\<lambda>i. (i, ys ! i)) ` {..<length xs} = {..<length xs}" by (simp add: image_image)
  with ys J show ?thesis by (auto simp: J_def list_all2_conv_all_nth)
qed

lemma conforms_alone:
  "conforms ok ext Q (enat n) t s \<Longrightarrow> ok s \<Longrightarrow> \<exists>r s'. alone t s = Some (r, s') \<and> ok s' \<and> ext s s' \<and> Q r s'"
proof (induction n arbitrary: t s)
  case 0
  then show ?case using ext_refl by (cases t) (auto simp: conforms_Await enat_eSuc_iff)
next
  case (Suc n)
  show ?case
  proof (cases t)
    case (Await f)
    obtain t' u where f: "f s = (t', u)" by (cases "f s")
    with Suc.prems ext_refl [OF Suc.prems(2)] Await have "ok u" "ext s u" "conforms ok ext Q (enat n) t' u"
      by (auto simp: conforms_Await enat_eSuc_iff)
    with Suc.IH [OF this(3,1)] f Await ext_trans [OF Suc.prems(2), of u] show ?thesis by auto
  qed (use Suc.prems ext_refl in auto)
qed

lemma conforms_stable:
  assumes "conforms ok ext Q n t s" "ok s" "ext s s'" "\<And>r. Q r s \<Longrightarrow> Q r s'"
  shows "conforms ok ext Q n t s'"
proof (cases t)
  case (Await f)
  with assms ext_trans [OF assms(2,3)] show ?thesis unfolding Await conforms_Await by blast
qed (use assms in simp)

lemma first_error_None: "first_error None ts = None \<longleftrightarrow> (\<forall>e. Done (Inl e) \<notin> set ts)"
  by (induction "None :: js_error option" ts rule: first_error.induct) auto

lemma first_error_Some: "first_error err ts = Some e \<Longrightarrow> err = Some e \<or> Done (Inl e) \<in> set ts"
  by (induction err ts rule: first_error.induct) auto

text \<open>
  Each task is promised to end within its budget in a result that stays good; so all of them end within
  the sum of the budgets, and the state is good for all the results, or for one rejection.
\<close>

definition all_conform :: "(nat \<Rightarrow> 'a res \<Rightarrow> 's \<Rightarrow> bool) \<Rightarrow> enat \<Rightarrow> js_error option \<Rightarrow> ('s, 'a) task list \<Rightarrow> 's \<Rightarrow> bool" where
  "all_conform Q n err ts s \<longleftrightarrow> ok s \<and>
     (\<exists>N. (\<forall>i < length ts. conforms ok ext (Q i) (N i) (ts ! i) s) \<and> sum N {..<length ts} \<le> n) \<and>
     (case err of Some e \<Rightarrow> \<exists>i < length ts. Q i (Inl e) s | None \<Rightarrow> \<forall>e. Done (Inl e) \<notin> set ts)"

lemma all_conform_step:
  assumes stable: "\<And>i r s s'. ok s \<Longrightarrow> ext s s' \<Longrightarrow> Q i r s \<Longrightarrow> Q i r s'"
    and ac: "all_conform Q n err ts s" and s': "ok s'" "ext s s'" and p: "unsettled ts \<noteq> []"
    and st: "step_all pick (err, ts) s' = ((err', ts'), u)"
  shows "ok u \<and> ext s' u \<and> length ts' = length ts \<and> (\<exists>m. n = eSuc m \<and> all_conform Q m err' ts' u)"
proof -
  obtain k s1 where k: "pick (length (unsettled ts)) s' = (k, s1)" by (cases "pick (length (unsettled ts)) s'")
  with pick_ok [OF s'(1)] have s1: "ok s1" "ext s' s1" by (metis snd_conv)+
  define i where "i = unsettled ts ! (k mod length (unsettled ts))"
  have "i \<in> set (unsettled ts)" unfolding i_def using p by (intro nth_mem) simp
  then have i: "i < length ts" "\<not> is_Done (ts ! i)" by (auto simp: unsettled_def)
  then obtain f where f: "ts ! i = Await f" by (cases "ts ! i") auto
  obtain t u' where t: "f s1 = (t, u')" by (cases "f s1")
  have st': "err' = first_error err [t]" "ts' = ts[i := t]" "u' = u"
    using st k t f by (simp_all add: step_all_def Let_def flip: i_def)
  from ac obtain N where s: "ok s" and N: "\<And>j. j < length ts \<Longrightarrow> conforms ok ext (Q j) (N j) (ts ! j) s"
    and le: "sum N {..<length ts} \<le> n"
    and err: "case err of Some e \<Rightarrow> \<exists>i < length ts. Q i (Inl e) s | None \<Rightarrow> \<forall>e. Done (Inl e) \<notin> set ts"
    by (auto simp: all_conform_def)
  have es1: "ext s s1" by (rule ext_trans [OF s s'(2) s1(2)])
  from N [OF i(1)] f s1(1) es1 t st'(3) obtain c where c: "N i = eSuc c"
    and u: "ok u" "ext s1 u" "conforms ok ext (Q i) c t u" by (auto simp: conforms_Await)
  have eu: "ext s u" by (rule ext_trans [OF s es1 u(2)])
  let ?N = "N(i := c)"
  have rest: "sum N {..<length ts} = N i + sum N ({..<length ts} - {i})"
    "sum ?N {..<length ts} = c + sum ?N ({..<length ts} - {i})"
    using i(1) by (simp_all add: sum.remove)
  then have "sum N {..<length ts} = eSuc (sum ?N {..<length ts})"
    using c sum.cong [of "{..<length ts} - {i}" "{..<length ts} - {i}" ?N N] by (simp add: iadd_Suc)
  with le obtain m where m: "n = eSuc m" "sum ?N {..<length ts} \<le> m" using eSuc_leE by metis
  have "conforms ok ext (Q j) (?N j) (ts' ! j) u" if "j < length ts" for j
    using conforms_stable [OF N [OF that] s eu stable [OF s eu]] u(3) that by (auto simp: st')
  moreover have "case err' of Some e \<Rightarrow> \<exists>i < length ts. Q i (Inl e) u | None \<Rightarrow> \<forall>e. Done (Inl e) \<notin> set ts'"
  proof (cases err)
    case None
    with err have none: "\<forall>e. Done (Inl e) \<notin> set ts" by simp
    show ?thesis
    proof (cases "first_error None [t]")
      case None
      then have "\<forall>e. Done (Inl e) \<noteq> t" by (auto simp: first_error_None)
      with none \<open>err = None\<close> None show ?thesis by (auto simp: st' dest!: set_update_subset_insert [THEN subsetD])
    next
      case (Some e)
      with first_error_Some [OF Some] have "t = Done (Inl e)" by simp
      with u(3) i(1) \<open>err = None\<close> Some show ?thesis by (auto simp: st')
    qed
  next
    case (Some e)
    with err stable [OF s eu] show ?thesis by (auto simp: st')
  qed
  moreover have len: "length ts' = length ts" by (simp add: st'(2))
  ultimately have "all_conform Q m err' ts' u"
    using u(1) m(2) unfolding all_conform_def len by (intro conjI exI [of _ ?N]) simp_all
  then show ?thesis using u(1) m(1) ext_trans [OF s'(1) s1(2) u(2)] st'(2) by simp
qed

lemma conforms_all_from:
  assumes stable: "\<And>i r s s'. ok s \<Longrightarrow> ext s s' \<Longrightarrow> Q i r s \<Longrightarrow> Q i r s'"
    and ac: "all_conform Q n err ts s"
  shows "conforms ok ext (\<lambda>r s. case r of
       Inl e \<Rightarrow> \<exists>i < length ts. Q i (Inl e) s
     | Inr ys \<Rightarrow> length ys = length ts \<and> (\<forall>i < length ts. Q i (Inr (ys ! i)) s)) n (all_from pick (err, ts)) s"
    (is "conforms ok ext ?Q n _ s")
proof -
  define X where "X n t s \<longleftrightarrow> (\<exists>err us. t = all_from pick (err, us) \<and> length us = length ts \<and> all_conform Q n err us s)"
    for n t s
  show ?thesis
  proof (rule conforms_coinduct [where X = X])
    show "X n (all_from pick (err, ts)) s" using ac by (auto simp: X_def)
  next
    fix n r s assume "X n (Done r) s"
    then obtain err us where t: "Done r = all_from pick (err, us)" and len: "length us = length ts" and ac: "all_conform Q n err us s"
      by (auto simp: X_def)
    from t have p: "unsettled us = []" by (metis all_from_unfold(2) task.distinct(1))
    with t have r: "r = (case err of Some e \<Rightarrow> Inl e | None \<Rightarrow> Inr (map (\<lambda>t. projr (outcome t)) us))"
      by (simp add: all_from_unfold)
    have "\<exists>x. us ! i = Done (Inr x) \<and> Q i (Inr x) s" if i: "i < length us" and None: "err = None" for i
    proof -
      from p i have "is_Done (us ! i)" by (auto simp: unsettled_def filter_empty_conv)
      then obtain q where q: "us ! i = Done q" by (cases "us ! i") auto
      with i have "Done q \<in> set us" by (metis nth_mem)
      with ac None obtain x where "q = Inr x" by (cases q) (auto simp: all_conform_def)
      moreover from ac i have "\<exists>N. conforms ok ext (Q i) N (us ! i) s" by (auto simp: all_conform_def)
      ultimately show ?thesis by (simp add: q)
    qed
    then show "?Q r s" using r len ac by (fastforce simp: all_conform_def split: option.splits)
  next
    fix n f s assume "X n (Await f) s"
    then obtain err us where t: "Await f = all_from pick (err, us)" and len: "length us = length ts" and ac: "all_conform Q n err us s"
      by (auto simp: X_def)
    from t have p: "unsettled us \<noteq> []" by (metis all_from_unfold(1) task.distinct(1))
    with t have f: "f = (\<lambda>s. case step_all pick (err, us) s of (p, s') \<Rightarrow> (all_from pick p, s'))"
      by (simp add: all_from_unfold)
    have st: "ok u \<and> ext s' u \<and> (\<exists>m. n = eSuc m \<and> X m t u)" if "ok s'" "ext s s'" "f s' = (t, u)" for s' t u
    proof -
      obtain err' us' v where v: "step_all pick (err, us) s' = ((err', us'), v)" by (metis prod.collapse)
      with that(3) f have t: "t = all_from pick (err', us')" "v = u" by simp_all
      have "ok v \<and> ext s' v \<and> length us' = length us \<and> (\<exists>m. n = eSuc m \<and> all_conform Q m err' us' v)"
        by (rule all_conform_step [OF _ ac that(1,2) p v]) (rule stable)
      with t len show ?thesis by (auto simp: X_def)
    qed
    from ac have "ok s" by (simp add: all_conform_def)
    from st [OF this ext_refl [OF this], of "fst (f s)" "snd (f s)"] obtain m where m: "n = eSuc m" by auto
    have "ok u \<and> ext s' u \<and> (X m t u \<or> conforms ok ext ?Q m t u)" if "ok s'" "ext s s'" "f s' = (t, u)" for s' t u
      using st [OF that] m by simp
    with m show "\<exists>m. n = eSuc m \<and> (\<forall>s' t u. ok s' \<longrightarrow> ext s s' \<longrightarrow> f s' = (t, u) \<longrightarrow> ok u \<and> ext s' u \<and>
        (X m t u \<or> conforms ok ext ?Q m t u))" by blast
  qed
qed

lemma conforms_allT:
  assumes "\<And>i r s s'. ok s \<Longrightarrow> ext s s' \<Longrightarrow> Q i r s \<Longrightarrow> Q i r s'"
    and ts: "\<And>i. i < length ts \<Longrightarrow> conforms ok ext (Q i) (N i) (ts ! i) s" and "ok s"
  shows "conforms ok ext (\<lambda>r s. case r of
       Inl e \<Rightarrow> \<exists>i < length ts. Q i (Inl e) s
     | Inr ys \<Rightarrow> length ys = length ts \<and> (\<forall>i < length ts. Q i (Inr (ys ! i)) s)) (sum N {..<length ts}) (allT pick ts) s"
  unfolding allT_def
proof (rule conforms_all_from)
  have "\<exists>i < length ts. Q i (Inl e) s" if "Done (Inl e) \<in> set ts" for e
    using that ts by (auto simp: in_set_conv_nth) (metis conforms_Done)
  then have "case first_error None ts of Some e \<Rightarrow> \<exists>i < length ts. Q i (Inl e) s | None \<Rightarrow> \<forall>e. Done (Inl e) \<notin> set ts"
    using first_error_None [of ts] first_error_Some [of None ts] by (auto split: option.split)
  with assms show "all_conform Q (sum N {..<length ts}) (first_error None ts) ts s" by (auto simp: all_conform_def)
qed (use assms in blast)

lemma conforms_all_yields:
  assumes "\<And>x y s s'. ok s \<Longrightarrow> ext s s' \<Longrightarrow> P x y s \<Longrightarrow> P x y s'" "ok s"
    and task: "\<And>x. x \<in> set xs \<Longrightarrow> conforms ok ext (yields (P x)) N (f x) s"
  shows "conforms ok ext (yields (\<lambda>ys s. list_all2 (\<lambda>x y. P x y s) xs ys)) (of_nat (length xs) * N) (allT pick (map f xs)) s"
proof -
  have "conforms ok ext (yields (P (xs ! i))) N (map f xs ! i) s" if "i < length (map f xs)" for i
    using that task by simp
  from conforms_allT [of "\<lambda>i. yields (P (xs ! i))", OF _ this \<open>ok s\<close>] assms(1)
  have "conforms ok ext (\<lambda>r s. case r of
       Inl e \<Rightarrow> \<exists>i < length (map f xs). yields (P (xs ! i)) (Inl e) s
     | Inr ys \<Rightarrow> length ys = length (map f xs) \<and> (\<forall>i < length (map f xs). yields (P (xs ! i)) (Inr (ys ! i)) s))
     (\<Sum>i < length (map f xs). N) (allT pick (map f xs)) s"
    by (blast intro: yields_mono)
  then show ?thesis
    by (rule conforms_weaken) (auto simp: yields_def list_all2_conv_all_nth split: sum.splits)
qed

lemma conforms_bothT:
  fixes a :: "('s, 'a) task" and b :: "('s, 'b) task"
  assumes "conforms ok ext Q n a s" "conforms ok ext R m b s" "ok s"
    and "\<And>r s s'. ok s \<Longrightarrow> ext s s' \<Longrightarrow> Q r s \<Longrightarrow> Q r s'" "\<And>r s s'. ok s \<Longrightarrow> ext s s' \<Longrightarrow> R r s \<Longrightarrow> R r s'"
  shows "conforms ok ext (\<lambda>r s. case r of Inl e \<Rightarrow> Q (Inl e) s \<or> R (Inl e) s
     | Inr (x, y) \<Rightarrow> Q (Inr x) s \<and> R (Inr y) s) (n + m) (bothT pick a b) s"
proof -
  let ?a = "bindT a (\<lambda>x. Done (Inr (Inl x)))" and ?b = "bindT b (\<lambda>y. Done (Inr (Inr y)))"
  define Z where "Z i r s \<longleftrightarrow> (if i = 0 then (case r of Inl e \<Rightarrow> Q (Inl e) s | Inr v \<Rightarrow> \<exists>x. v = Inl x \<and> Q (Inr x) s)
     else (case r of Inl e \<Rightarrow> R (Inl e) s | Inr v \<Rightarrow> \<exists>y. v = Inr y \<and> R (Inr y) s))" for i :: nat and r :: "('a + 'b) res" and s
  have "conforms ok ext (Z 0) (n + 0) ?a s"
    by (rule conforms_bindT, rule conforms_weaken [OF assms(1)]) (auto simp: Z_def split: sum.split)
  moreover have "conforms ok ext (Z 1) (m + 0) ?b s"
    by (rule conforms_bindT, rule conforms_weaken [OF assms(2)]) (auto simp: Z_def split: sum.split)
  ultimately have "conforms ok ext (Z i) (if i = 0 then n else m) ([?a, ?b] ! i) s" if "i < length [?a, ?b]" for i
    using that by (auto simp: less_Suc_eq)
  from conforms_allT [of Z, OF _ this \<open>ok s\<close>] have "conforms ok ext (\<lambda>r s. case r of
       Inl e \<Rightarrow> \<exists>i < length [?a, ?b]. Z i (Inl e) s
     | Inr ys \<Rightarrow> length ys = length [?a, ?b] \<and> (\<forall>i < length [?a, ?b]. Z i (Inr (ys ! i)) s))
     (\<Sum>i < length [?a, ?b]. if i = 0 then n else m) (allT pick [?a, ?b]) s"
    using assms(4,5) by (fastforce simp: Z_def split: sum.splits)
  then have "conforms ok ext (\<lambda>r s. case r of
       Inl e \<Rightarrow> Q (Inl e) s \<or> R (Inl e) s
     | Inr ys \<Rightarrow> Q (Inr (projl (ys ! 0))) s \<and> R (Inr (projr (ys ! 1))) s) (n + m) (allT pick [?a, ?b]) s"
    by (rule conforms_weaken)
      (auto simp: Z_def less_Suc_eq numeral_2_eq_2 lessThan_Suc ac_simps split: sum.splits if_splits)
  then have "conforms ok ext (\<lambda>r s. case r of Inl e \<Rightarrow> Q (Inl e) s \<or> R (Inl e) s
     | Inr (x, y) \<Rightarrow> Q (Inr x) s \<and> R (Inr y) s) (n + m + 0) (bothT pick a b) s"
    unfolding bothT_def by (intro conforms_bindT) (simp cong: sum.case_cong)
  then show ?thesis by simp
qed

end

end
