(* ===== verification/ApiChain.thy ===== *)
theory ApiChain
  imports ApiFacts Tasks
begin

text \<open>
  The client on a chain: a node that serves the blocks of one chain, each naming the hash of the one
  before it. \<open>fetchBlocks\<close> is two rounds of tasks over a heap that only grows, an instance of the locale
  \<open>task_round\<close>.
\<close>

section \<open>A chain and the node that serves it\<close>

text \<open>
  \<open>chain n\<close> is the reply of the indexer for round \<open>n\<close>, with its documented fields; \<open>hash n\<close> is the
  hash of that round, \<open>time n\<close> its time. The reply is a JSON tree that fits the call stack, and lodash
  renames no other key to one of the keys the client reads.
\<close>

record chain_spec =
  chain :: "int \<Rightarrow> jsobj"
  hash_of :: "int \<Rightarrow> string"
  time_of :: "int \<Rightarrow> int"
  txns_of :: "int \<Rightarrow> jsval list"

definition camelCase_ok :: "(string \<Rightarrow> string) \<Rightarrow> jsobj \<Rightarrow> bool" where
  "camelCase_ok cc ob \<longleftrightarrow>
     (\<forall>(k, k') \<in> {(''round'', ''round''), (''timestamp'', ''timestamp''), (''transactions'', ''transactions''),
        (''previous-block-hash'', ''previousBlockHash'')}.
      cc k = k' \<and> (\<forall>j. obj_has ob j \<longrightarrow> cc j = k' \<longrightarrow> j = k))"

definition reply_ok :: "'w deps \<Rightarrow> chain_spec \<Rightarrow> int \<Rightarrow> bool" where
  "reply_ok d C n \<longleftrightarrow> (let ob = chain C n in
     is_json (JObj ob) \<and> depth (JObj ob) \<le> callStack d \<and> camelCase_ok (lodash_camelCase d) ob \<and>
     \<not> obj_has ob ''constructor'' \<and>
     obj_get ob ''round'' = JNum n \<and>
     obj_get ob ''previous-block-hash'' = JStr (hash_of C (n - 1)) \<and>
     obj_get ob ''timestamp'' = JNum (time_of C n) \<and>
     obj_get ob ''transactions'' = JArr (txns_of C n))"

definition serves :: "'w deps \<Rightarrow> chain_spec \<Rightarrow> int \<Rightarrow> bool" where
  "serves d C lastRound \<longleftrightarrow> (\<forall>n. 0 \<le> n \<and> n \<le> lastRound \<longrightarrow>
     reply_ok d C n \<and> (\<forall>w. fst (lookupBlock_do d (JNum n) w) = Inr (JObj (chain C n))))"

text \<open>A block of the client is the block of round \<open>n\<close>.\<close>

definition block_of :: "'w deps \<Rightarrow> chain_spec \<Rightarrow> nat \<Rightarrow> int \<Rightarrow> jsobj \<Rightarrow> bool" where
  "block_of d C r n b \<longleftrightarrow>
     obj_get b ''round'' = JNum n \<and>
     obj_get b ''previousBlockHash'' = JStr (hash_of C (n - 1)) \<and>
     obj_get b ''timestamp'' = JNum (time_of C n) \<and>
     obj_get b ''transactions'' =
       JArr (map (\<lambda>tx. tx_object [] r (camel_tree (lodash_camelCase d) tx)) (txns_of C n))"

definition is_block :: "'w deps \<Rightarrow> chain_spec \<Rightarrow> 'w AlgorandApi \<Rightarrow> nat \<Rightarrow> int \<Rightarrow> bool" where
  "is_block d C s r n \<longleftrightarrow> r < length (heap s) \<and> block_of d C r n (deref (heap s) r)"

text \<open>The cache holds blocks of the chain; blocks stay, and a hash once right stays right.\<close>

definition chain_ok :: "'w deps \<Rightarrow> chain_spec \<Rightarrow> 'w AlgorandApi \<Rightarrow> bool" where
  "chain_ok d C s \<longleftrightarrow> (\<forall>r \<in> set (blockCache s). \<exists>n. is_block d C s r n)"

definition has_hash :: "chain_spec \<Rightarrow> 'w AlgorandApi \<Rightarrow> nat \<Rightarrow> int \<Rightarrow> bool" where
  "has_hash C s r n \<longleftrightarrow> obj_get (deref (heap s) r) ''hash'' = JStr (hash_of C n)"

definition extends :: "'w deps \<Rightarrow> chain_spec \<Rightarrow> 'w AlgorandApi \<Rightarrow> 'w AlgorandApi \<Rightarrow> bool" where
  "extends d C s s' \<longleftrightarrow> (\<forall>r n. is_block d C s r n \<longrightarrow>
     is_block d C s' r n \<and> (has_hash C s r n \<longrightarrow> has_hash C s' r n))"

lemma is_block_heap: "heap s' = heap s \<Longrightarrow> is_block d C s' = is_block d C s"
  by (simp add: is_block_def fun_eq_iff)

lemma settles_state [simp]:
  "heap (snd (settles d n s)) = heap s" "blockCache (snd (settles d n s)) = blockCache s"
  by (simp_all add: settles_def split: prod.splits)

interpretation round: task_round "chain_ok d C" "extends d C" "settles d" for d :: "'w deps" and C
  by unfold_locales (auto simp: extends_def chain_ok_def has_hash_def is_block_heap [OF settles_state(1)])

section \<open>One block\<close>

lemma is_json_elem: "is_json (JArr xs) \<Longrightarrow> x \<in> set xs \<Longrightarrow> is_json x"
  by (simp add: list_all_iff)

lemma spread_no_ref: "(\<And>r. v \<noteq> JRef r) \<Longrightarrow> spread_props H v = spread_props [] v"
  by (cases v) (simp_all only: spread_props.simps jsval.simps simp_thms, blast)

lemma camel_tree_no_ref: "is_json x \<Longrightarrow> camel_tree cc x \<noteq> JRef r"
  by (cases x) (simp_all only: camel_tree_simps jsval.simps simp_thms is_json.simps, simp split: if_splits)

lemma spread_camel_tree: "is_json x \<Longrightarrow> spread_props H (camel_tree cc x) = spread_props [] (camel_tree cc x)"
  by (rule spread_no_ref) (rule camel_tree_no_ref)

lemma tx_object_heap: "is_json x \<Longrightarrow> tx_object H r (camel_tree cc x) = tx_object [] r (camel_tree cc x)"
  by (simp add: tx_object_def spread_camel_tree [of x H])

definition chain_block :: "'w deps \<Rightarrow> chain_spec \<Rightarrow> nat \<Rightarrow> int \<Rightarrow> jsobj" where
  "chain_block d C r n = block_object [] (camel_tree (lodash_camelCase d) (JObj (chain C n)))
     (JArr (map (\<lambda>tx. tx_object [] r (camel_tree (lodash_camelCase d) tx)) (txns_of C n)))"

lemma reply_renamed:
  assumes "reply_ok d C n"
  shows "\<exists>ob. camel_tree (lodash_camelCase d) (JObj (chain C n)) = JObj ob
     \<and> obj_get ob ''round'' = JNum n
     \<and> obj_get ob ''previousBlockHash'' = JStr (hash_of C (n - 1))
     \<and> obj_get ob ''timestamp'' = JNum (time_of C n)
     \<and> obj_get ob ''transactions'' = JArr (map (camel_tree (lodash_camelCase d)) (txns_of C n))"
proof -
  let ?cc = "lodash_camelCase d" and ?ob = "chain C n"
  let ?new = "put_all (map (\<lambda>(k, u). (?cc k, camel_tree ?cc u)) (own_entries ?ob))"
  have eq: "camel_tree ?cc (JObj ?ob) = JObj ?new"
    using assms by (simp add: reply_ok_def Let_def)
  have get: "obj_get ?new k' = camel_tree ?cc (obj_get ?ob k)"
    if "(k, k') \<in> {(''round'', ''round''), (''timestamp'', ''timestamp''), (''transactions'', ''transactions''),
        (''previous-block-hash'', ''previousBlockHash'')}" and "obj_get ?ob k \<noteq> JUndef" for k k'
  proof -
    from that assms have cc: "?cc k = k'" and inj: "\<And>j. obj_has ?ob j \<Longrightarrow> ?cc j = ?cc k \<Longrightarrow> j = k"
      by (auto simp: reply_ok_def Let_def camelCase_ok_def)
    have has: "obj_has ?ob k" using that(2) obj_get_absent by blast
    show ?thesis using obj_get_rename [of ?ob ?cc k "camel_tree ?cc", OF inj has] cc by simp
  qed
  have "obj_get ?ob ''round'' = JNum n" "obj_get ?ob ''previous-block-hash'' = JStr (hash_of C (n - 1))"
    "obj_get ?ob ''timestamp'' = JNum (time_of C n)" "obj_get ?ob ''transactions'' = JArr (txns_of C n)"
    using assms by (simp_all add: reply_ok_def Let_def)
  then show ?thesis
    using eq get [of "''round''" "''round''"] get [of "''previous-block-hash''" "''previousBlockHash''"]
      get [of "''timestamp''" "''timestamp''"] get [of "''transactions''" "''transactions''"]
    by simp
qed

lemma chain_block_of: "reply_ok d C n \<Longrightarrow> block_of d C r n (chain_block d C r n)"
  by (drule reply_renamed) (auto simp: block_of_def chain_block_def block_object_get)

lemma construct_reply:
  assumes ok: "reply_ok d C n"
  shows "iobind (renameKeys d (JObj (chain C n))) constructBlock s = Some (Inr (length (heap s)),
    s\<lparr>heap := heap s @ [chain_block d C (length (heap s)) n]\<rparr>)"
proof -
  let ?cc = "lodash_camelCase d"
  have json: "is_json (JObj (chain C n))" "depth (JObj (chain C n)) \<le> callStack d"
    and arr: "obj_get (chain C n) ''transactions'' = JArr (txns_of C n)"
    using ok by (simp_all add: reply_ok_def Let_def)
  have js: "\<And>x. x \<in> set (txns_of C n) \<Longrightarrow> is_json x"
    using is_json_get [OF json(1), of "''transactions''"] arr by (auto intro: is_json_elem)
  obtain ob where ob: "camel_tree ?cc (JObj (chain C n)) = JObj ob"
    and txs: "obj_get ob ''transactions'' = JArr (map (camel_tree ?cc) (txns_of C n))"
    using reply_renamed [OF ok] by blast
  have ren: "renameKeys d (JObj (chain C n)) s = Some (Inr (JObj ob), s)"
    by (simp only: renameKeys_def camelCaseObjectKey_tree [OF json] ob)
  have "map (tx_object (heap s) (length (heap s))) (map (camel_tree ?cc) (txns_of C n))
      = map (\<lambda>tx. tx_object [] (length (heap s)) (camel_tree ?cc tx)) (txns_of C n)"
    using js tx_object_heap [of _ "heap s"] by simp
  then have "chain_block d C (length (heap s)) n = block_object (heap s) (JObj ob)
      (JArr (map (tx_object (heap s) (length (heap s))) (map (camel_tree ?cc) (txns_of C n))))"
    by (simp only: chain_block_def ob block_object_def spread_props.simps)
  with ren show ?thesis by (simp add: io_simps constructBlock_def txs Let_def)
qed

lemma getBlockByHeight_run:
  assumes S: "serves d C lastRound" and n: "0 \<le> n" "n \<le> lastRound"
  shows "getBlockByHeight d (JNum n) s = Some (Inr (length (heap s)),
    s\<lparr>heap := heap s @ [chain_block d C (length (heap s)) n], world := snd (lookupBlock_do d (JNum n) (world s))\<rparr>)"
proof -
  let ?w = "snd (lookupBlock_do d (JNum n) (world s))"
  from S n have ok: "reply_ok d C n" and "fst (lookupBlock_do d (JNum n) (world s)) = Inr (JObj (chain C n))"
    by (auto simp: serves_def)
  then have req: "request (lookupBlock_do d (JNum n)) s = Some (Inr (JObj (chain C n)), s\<lparr>world := ?w\<rparr>)"
    by (simp add: request_def split: prod.splits) (metis prod.collapse prod.inject)
  show ?thesis
    unfolding getBlockByHeight_def by (simp add: io_simps req construct_reply [OF ok])
qed

section \<open>Fetching\<close>

lemma extends_append:
  "heap s' = heap s @ bs \<Longrightarrow> extends d C s s'"
  by (auto simp: extends_def is_block_def has_hash_def)

lemma chain_ok_cong:
  "extends d C s s' \<Longrightarrow> chain_ok d C s \<Longrightarrow> set (blockCache s') \<subseteq> set (blockCache s) \<Longrightarrow> chain_ok d C s'"
  unfolding chain_ok_def extends_def by blast

lemma is_block_round: "is_block d C s r n \<Longrightarrow> has_round (heap s) (JNum m) r \<longleftrightarrow> n = m"
  by (simp add: is_block_def has_round_def block_of_def)

lemma getBlockByHeight_chain:
  assumes "serves d C lastRound" "0 \<le> n" "n \<le> lastRound" "chain_ok d C s"
  shows "\<exists>b s'. getBlockByHeight d (JNum n) s = Some (Inr b, s') \<and> chain_ok d C s' \<and> extends d C s s'
     \<and> is_block d C s' b n \<and> blockCache s' = blockCache s"
proof -
  let ?s' = "s\<lparr>heap := heap s @ [chain_block d C (length (heap s)) n], world := snd (lookupBlock_do d (JNum n) (world s))\<rparr>"
  have ext: "extends d C s ?s'" by (rule extends_append) simp
  from assms have "reply_ok d C n" by (simp add: serves_def)
  then have "is_block d C ?s' (length (heap s)) n" by (simp add: is_block_def chain_block_of)
  with ext chain_ok_cong [OF ext assms(4)] getBlockByHeight_run [OF assms(1-3), of s] show ?thesis by simp
qed

lemma blocksInCache_chain:
  "chain_ok d C s \<Longrightarrow> blocksInCache ns s = (founds, s') \<Longrightarrow> heap s' = heap s \<and> chain_ok d C s'
     \<and> list_all2 (\<lambda>n found. \<forall>b. found = Some b \<longrightarrow> is_block d C s b n) ns founds"
proof (induction ns arbitrary: s founds s')
  case (Cons n ns)
  obtain c t where c: "blockInCache n s = (c, t)" by (cases "blockInCache n s")
  then have h: "heap t = heap s" by (auto simp: blockInCache_def split: prod.splits)
  have t: "chain_ok d C t"
    using Cons.prems(1) cache.fetch_subset [OF c] by (auto simp: chain_ok_def is_block_heap [OF h])
  obtain cs u where u: "blocksInCache ns t = (cs, u)" by (cases "blocksInCache ns t")
  have "is_block d C s b n" if "c = Some b" for b
  proof -
    from c that have b: "b \<in> set (blockCache s)" "has_round (heap s) (JNum n) b"
      using cache.fetch_mem [of n s b t] cache.fetch_Some [of n s b t] by auto
    with Cons.prems(1) obtain m where m: "is_block d C s b m" by (auto simp: chain_ok_def)
    with b(2) have "m = n" by (simp add: is_block_round)
    with m show ?thesis by simp
  qed
  with Cons.IH [OF t u] Cons.prems(2) c u h show ?case by (auto simp: is_block_heap [OF h])
qed simp

lemma fetchOne_chain:
  assumes S: "serves d C lastRound" "0 \<le> n" "n \<le> lastRound" and s: "chain_ok d C s"
    and found: "\<And>b. found = Some b \<Longrightarrow> is_block d C s b n"
  shows "\<exists>b s'. fetchOne d (n, found) s = Some (Inr b, s') \<and> chain_ok d C s' \<and> extends d C s s' \<and> is_block d C s' b n
     \<and> blockCache s' = blockCache s"
  using getBlockByHeight_chain [OF S s] s found round.ext_refl [OF s]
  by (cases found) (auto simp: fetchOne_def ioret_def)

lemma getBlockHash_chain:
  assumes S: "serves d C lastRound" "0 \<le> n" "n + 1 \<le> lastRound" and s: "chain_ok d C s"
    and bs: "\<And>b. b \<in> set blocks \<Longrightarrow> \<exists>m. is_block d C s b m"
  shows "\<exists>s'. getBlockHash d (JNum n) blocks s = Some (Inr (JStr (hash_of C n)), s') \<and> chain_ok d C s'
     \<and> extends d C s s' \<and> (if \<exists>b \<in> set blocks. is_block d C s b (n + 1) then s' = s
         else \<exists>b. is_block d C s' b (n + 1) \<and> blockCache s' = blockCache s @ [b])"
proof (cases "find (has_round (heap s) (JNum (n + 1))) blocks")
  case (Some b)
  then have b: "b \<in> set blocks" "has_round (heap s) (JNum (n + 1)) b"
    by (auto simp: find_Some_iff)
  with bs obtain m where "is_block d C s b m" by blast
  with b have m: "is_block d C s b (n + 1)" by (simp add: is_block_round)
  then have "obj_get (deref (heap s) b) ''previousBlockHash'' = JStr (hash_of C n)"
    by (simp add: is_block_def block_of_def)
  with Some b m s show ?thesis
    by (auto simp: getBlockHash_def readBlock_def extends_def)
next
  case None
  then have no: "\<not> (\<exists>b \<in> set blocks. is_block d C s b (n + 1))"
    by (auto simp: find_None_iff is_block_round)
  from getBlockByHeight_chain [OF S(1) _ S(3) s] S(2) obtain b t where
    b: "getBlockByHeight d (JNum (n + 1)) s = Some (Inr b, t)" and t: "chain_ok d C t" "extends d C s t"
    "is_block d C t b (n + 1)" "blockCache t = blockCache s" by auto
  let ?u = "pushed b t"
  have h: "obj_get (deref (heap t) b) ''previousBlockHash'' = JStr (hash_of C n)"
    using t(3) by (simp add: is_block_def block_of_def)
  have ext: "extends d C t ?u" by (rule extends_append [of _ _ "[]"]) (simp add: pushed_def)
  have "chain_ok d C ?u" using t(1,3) by (auto simp: chain_ok_def pushed_def is_block_def)
  moreover have "extends d C s ?u" by (rule round.ext_trans [OF s t(2) ext])
  moreover have "is_block d C ?u b (n + 1)" "blockCache ?u = blockCache s @ [b]"
    using t(3,4) by (simp_all add: pushed_def is_block_def)
  moreover have "getBlockHash d (JNum n) blocks s = Some (Inr (JStr (hash_of C n)), ?u)"
    using None b h by (simp add: getBlockHash_def io_simps pushCache_pushed readBlock_def pushed_def)
  ultimately show ?thesis using no by auto
qed

lemma is_block_unique: "is_block d C s r n \<Longrightarrow> is_block d C s r m \<Longrightarrow> n = m"
  by (simp add: is_block_def block_of_def)

lemma deref_update: "deref (H[b := v]) r = (if r = b \<and> b < length H then v else deref H r)"
  by (auto simp: deref_def)

lemma writeHash_chain:
  assumes t: "chain_ok d C t" "is_block d C t b n"
  shows "\<exists>u. writeBlock b ''hash'' (JStr (hash_of C n)) t = Some (Inr (), u) \<and> chain_ok d C u \<and> extends d C t u
     \<and> is_block d C u b n \<and> has_hash C u b n \<and> blockCache u = blockCache t \<and> is_block d C u = is_block d C t"
proof -
  let ?u = "t\<lparr>heap := (heap t)[b := obj_put (deref (heap t) b) ''hash'' (JStr (hash_of C n))]\<rparr>"
  have lt: "b < length (heap t)" using t(2) by (simp add: is_block_def)
  then have same: "is_block d C ?u r m \<longleftrightarrow> is_block d C t r m" for r m
    by (auto simp: is_block_def block_of_def deref_update)
  have "has_hash C ?u r m" if "is_block d C t r m" "has_hash C t r m" for r m
    using that t(2) lt is_block_unique [of d C t b n m]
    by (cases "r = b") (auto simp: has_hash_def deref_update)
  with same have ext: "extends d C t ?u" by (auto simp: extends_def)
  have "chain_ok d C ?u" by (rule chain_ok_cong [OF ext t(1)]) simp
  moreover have "is_block d C ?u b n" "has_hash C ?u b n"
    using same t(2) lt by (simp_all add: has_hash_def deref_update)
  ultimately show ?thesis using ext same by (simp add: writeBlock_def fun_eq_iff)
qed

lemma setHash_chain:
  assumes S: "serves d C lastRound" "0 \<le> n" "n + 1 \<le> lastRound" and s: "chain_ok d C s"
    and b: "is_block d C s b n" and bs: "\<And>b. b \<in> set blocks \<Longrightarrow> \<exists>m. is_block d C s b m"
  shows "\<exists>s'. setHash d blocks b s = Some (Inr (formatBlockUtil b), s') \<and> chain_ok d C s' \<and> extends d C s s'
     \<and> is_block d C s' b n \<and> has_hash C s' b n
     \<and> (if \<exists>c \<in> set blocks. is_block d C s c (n + 1) then blockCache s' = blockCache s
         else \<exists>c. is_block d C s' c (n + 1) \<and> blockCache s' = blockCache s @ [c])"
proof -
  from getBlockHash_chain [OF S s bs] obtain t where
    t: "getBlockHash d (JNum n) blocks s = Some (Inr (JStr (hash_of C n)), t)" "chain_ok d C t" "extends d C s t"
    and cache: "if \<exists>b \<in> set blocks. is_block d C s b (n + 1) then t = s
         else \<exists>b. is_block d C t b (n + 1) \<and> blockCache t = blockCache s @ [b]" by blast
  have "is_block d C t b n" using b t(3) by (simp add: extends_def)
  from writeHash_chain [OF t(2) this] obtain u where
    w: "writeBlock b ''hash'' (JStr (hash_of C n)) t = Some (Inr (), u)" and u: "chain_ok d C u" "extends d C t u"
      "is_block d C u b n" "has_hash C u b n" "blockCache u = blockCache t" "is_block d C u = is_block d C t" by blast
  have "readBlock b ''round'' s = Some (Inr (JNum n), s)"
    using b by (simp add: readBlock_def is_block_def block_of_def)
  then have "setHash d blocks b s = Some (Inr (formatBlockUtil b), u)"
    using t(1) w by (simp add: setHash_def io_simps)
  moreover have "extends d C s u" by (rule round.ext_trans [OF s t(3) u(2)])
  ultimately show ?thesis using cache u by (auto split: if_splits)
qed

lemma fetch_phase:
  assumes S: "serves d C lastRound" and s: "chain_ok d C s"
    and ns: "\<forall>(n, found) \<in> set xs. 0 \<le> n \<and> n \<le> lastRound \<and> (\<forall>b. found = Some b \<longrightarrow> is_block d C s b n)"
  shows "\<exists>bs s'. ioall (settles d) (map (fetchOne d) xs) s = Some (Inr bs, s') \<and> chain_ok d C s' \<and> extends d C s s'
     \<and> blockCache s' = blockCache s \<and> list_all2 (\<lambda>x b. is_block d C s' b (fst x)) xs bs"
proof (rule round.all_tasks [where E = "\<lambda>A t. blockCache t = blockCache s"])
  fix i A t assume i: "i < length xs" and t: "chain_ok d C t" "extends d C s t" "blockCache t = blockCache s"
  obtain n found where x: "xs ! i = (n, found)" by (cases "xs ! i")
  with i have "(n, found) \<in> set xs" by (metis nth_mem)
  with ns have "0 \<le> n \<and> n \<le> lastRound \<and> (\<forall>b. found = Some b \<longrightarrow> is_block d C s b n)" by blast
  with t(2) fetchOne_chain [OF S, of n t found] t(1,3) x
  show "\<exists>b t'. fetchOne d (xs ! i) t = Some (Inr b, t') \<and> chain_ok d C t' \<and> extends d C t t'
      \<and> blockCache t' = blockCache s \<and> is_block d C t' b (fst (xs ! i))"
    by (auto simp: extends_def)
qed (simp_all add: s extends_def)

text \<open>The rounds of the blocks of a batch, as the state grows.\<close>

definition batch_of :: "'w deps \<Rightarrow> chain_spec \<Rightarrow> 'w AlgorandApi \<Rightarrow> nat list \<Rightarrow> int list \<Rightarrow> bool" where
  "batch_of d C s bs ns \<longleftrightarrow> list_all2 (is_block d C s) bs ns"

lemma batch_of_nth: "batch_of d C s bs ns \<Longrightarrow> i < length bs \<Longrightarrow> is_block d C s (bs ! i) (ns ! i)"
  by (simp add: batch_of_def list_all2_conv_all_nth)

lemma batch_of_mem: "batch_of d C s bs ns \<Longrightarrow> b \<in> set bs \<Longrightarrow> \<exists>n. is_block d C s b n"
  by (metis batch_of_nth in_set_conv_nth)

lemma batch_of_extends: "extends d C s t \<Longrightarrow> batch_of d C s bs ns \<Longrightarrow> batch_of d C t bs ns"
  unfolding batch_of_def by (erule list_all2_mono) (simp add: extends_def)

lemma hash_phase:
  assumes S: "serves d C lastRound" and s: "chain_ok d C s" and bs: "batch_of d C s bs ns"
    and ns: "\<forall>n \<in> set ns. 0 \<le> n \<and> n + 1 \<le> lastRound"
    and E: "E {} s" "\<And>A t n. E A t \<Longrightarrow> E A (snd (settles d n t))"
    and step: "\<And>i A t t'. i < length bs \<Longrightarrow> i \<notin> A \<Longrightarrow> E A t \<Longrightarrow> extends d C s t \<Longrightarrow> extends d C t t' \<Longrightarrow>
      (if \<exists>c \<in> set bs. is_block d C t c (ns ! i + 1) then blockCache t' = blockCache t
         else \<exists>c. is_block d C t' c (ns ! i + 1) \<and> blockCache t' = blockCache t @ [c]) \<Longrightarrow> E (insert i A) t'"
  shows "\<exists>ys s'. ioall (settles d) (map (setHash d bs) bs) s = Some (Inr ys, s') \<and> chain_ok d C s' \<and> extends d C s s'
     \<and> E {..<length bs} s'
     \<and> list_all2 (\<lambda>b y. y = formatBlockUtil b \<and> (\<exists>n. is_block d C s' b n \<and> has_hash C s' b n)) bs ys"
proof (rule round.all_tasks)
  fix i A t assume i: "i < length bs" "i \<notin> A" and t: "chain_ok d C t" "extends d C s t" and EA: "E A t"
  have all: "\<And>c. c \<in> set bs \<Longrightarrow> \<exists>m. is_block d C t c m"
    and b: "is_block d C t (bs ! i) (ns ! i)"
    using batch_of_extends [OF t(2) bs] i(1) batch_of_mem batch_of_nth by blast+
  have "length ns = length bs" using bs by (simp add: batch_of_def list_all2_lengthD)
  with i(1) ns have n: "0 \<le> ns ! i" "ns ! i + 1 \<le> lastRound" by (metis nth_mem)+
  from setHash_chain [OF S n t(1) b all] obtain t' where
    t': "setHash d bs (bs ! i) t = Some (Inr (formatBlockUtil (bs ! i)), t')" "chain_ok d C t'" "extends d C t t'"
      "is_block d C t' (bs ! i) (ns ! i)" "has_hash C t' (bs ! i) (ns ! i)"
    and c: "if \<exists>c \<in> set bs. is_block d C t c (ns ! i + 1) then blockCache t' = blockCache t
         else \<exists>c. is_block d C t' c (ns ! i + 1) \<and> blockCache t' = blockCache t @ [c]" by blast
  from step [OF i EA t(2) t'(3) c] t'
  show "\<exists>y t'. setHash d bs (bs ! i) t = Some (Inr y, t') \<and> chain_ok d C t' \<and> extends d C t t' \<and> E (insert i A) t'
      \<and> y = formatBlockUtil (bs ! i) \<and> (\<exists>n. is_block d C t' (bs ! i) n \<and> has_hash C t' (bs ! i) n)" by blast
next
  fix b y t t' assume "extends d C t t'"
    and "y = formatBlockUtil b \<and> (\<exists>n. is_block d C t b n \<and> has_hash C t b n)"
  then show "y = formatBlockUtil b \<and> (\<exists>n. is_block d C t' b n \<and> has_hash C t' b n)"
    unfolding extends_def by blast
qed (use s E in auto)

definition chain_header :: "chain_spec \<Rightarrow> int \<Rightarrow> Header" where
  "chain_header C n = \<lparr>blockHeight = JNum n, blockHash = JStr (hash_of C n),
     parentHash = JStr (hash_of C (n - 1)), timestamp = new_Date (JNum (time_of C n * 1000))\<rparr>"

lemma getHeader_chain:
  "is_block d C s b n \<Longrightarrow> has_hash C s b n \<Longrightarrow> getHeader (heap s) (formatBlockUtil b) = chain_header C n"
  by (simp add: getHeader_def formatBlockUtil_def algorandBlockToHeader_def chain_header_def
      is_block_def block_of_def has_hash_def)

text \<open>The first half of \<open>fetchBlocks\<close>: the blocks, from the cache or from the node.\<close>

lemma fetched_batch:
  assumes S: "serves d C lastRound" and ns: "\<forall>n \<in> set ns. 0 \<le> n \<and> n \<le> lastRound" and s: "chain_ok d C s"
    and f: "blocksInCache ns s = (founds, s1)"
  shows "\<exists>bs t. ioall (settles d) (map (fetchOne d) (zip ns founds)) s1 = Some (Inr bs, t) \<and> chain_ok d C t
     \<and> extends d C s t \<and> blockCache t = blockCache s1 \<and> batch_of d C t bs ns"
proof -
  from blocksInCache_chain [OF s f] have s1: "heap s1 = heap s" "chain_ok d C s1"
    and fs: "list_all2 (\<lambda>n found. \<forall>b. found = Some b \<longrightarrow> is_block d C s b n) ns founds"
    by blast+
  have "\<forall>(n, found) \<in> set (zip ns founds). 0 \<le> n \<and> n \<le> lastRound \<and> (\<forall>b. found = Some b \<longrightarrow> is_block d C s1 b n)"
    using fs ns unfolding is_block_heap [OF s1(1)] by (auto simp: list_all2_iff dest: set_zip_leftD)
  from fetch_phase [OF S s1(2) this] obtain bs t where
    bs: "ioall (settles d) (map (fetchOne d) (zip ns founds)) s1 = Some (Inr bs, t)" "chain_ok d C t"
      "extends d C s1 t" "blockCache t = blockCache s1"
    and all: "list_all2 (\<lambda>x b. is_block d C t b (fst x)) (zip ns founds) bs" by blast
  have "extends d C s t" using bs(3) s1(1) by (simp add: extends_def has_hash_def is_block_heap [OF s1(1)])
  moreover have "batch_of d C t bs ns"
    using all list_all2_lengthD [OF fs] by (simp add: batch_of_def list_all2_conv_all_nth)
  ultimately show ?thesis using bs by blast
qed

lemma fetchBlocks_halves:
  "blocksInCache ns s = (founds, s1) \<Longrightarrow>
   ioall (settles d) (map (fetchOne d) (zip ns founds)) s1 = Some (Inr bs, t) \<Longrightarrow>
   ioall (settles d) (map (setHash d bs) bs) t = Some (Inr ys, u) \<Longrightarrow> fetchBlocks d ns s = Some (Inr ys, u)"
  by (simp add: fetchBlocks_def io_simps)

lemma fetchBlocks_run:
  assumes S: "serves d C lastRound" and ns: "\<forall>n \<in> set ns. 0 \<le> n \<and> n < lastRound" and s: "chain_ok d C s"
  shows "\<exists>bs s'. fetchBlocks d ns s = Some (Inr bs, s') \<and> chain_ok d C s' \<and> extends d C s s'
     \<and> list_all2 (\<lambda>n b. is_block d C s' (ib_block b) n) ns bs
     \<and> map (getHeader (heap s')) bs = map (chain_header C) ns"
proof -
  obtain founds s1 where f: "blocksInCache ns s = (founds, s1)" by (cases "blocksInCache ns s")
  from ns have le: "\<forall>n \<in> set ns. 0 \<le> n \<and> n \<le> lastRound" "\<forall>n \<in> set ns. 0 \<le> n \<and> n + 1 \<le> lastRound" by auto
  from fetched_batch [OF S le(1) s f] obtain bs t where
    bs: "ioall (settles d) (map (fetchOne d) (zip ns founds)) s1 = Some (Inr bs, t)"
    and t: "chain_ok d C t" "extends d C s t" "batch_of d C t bs ns" by blast
  have "\<exists>ys u. ioall (settles d) (map (setHash d bs) bs) t = Some (Inr ys, u) \<and> chain_ok d C u \<and> extends d C t u
     \<and> True \<and> list_all2 (\<lambda>b y. y = formatBlockUtil b \<and> (\<exists>n. is_block d C u b n \<and> has_hash C u b n)) bs ys"
    by (rule hash_phase [OF S t(1,3) le(2), where E = "\<lambda>_ _. True"]) simp_all
  then obtain ys u where
    ys: "ioall (settles d) (map (setHash d bs) bs) t = Some (Inr ys, u)" and u: "chain_ok d C u" "extends d C t u"
    and hs: "list_all2 (\<lambda>b y. y = formatBlockUtil b \<and> (\<exists>n. is_block d C u b n \<and> has_hash C u b n)) bs ys" by blast
  have len: "length bs = length ns" "length ys = length ns"
    using t(3) hs by (simp_all add: batch_of_def list_all2_conv_all_nth)
  have each: "ys ! i = formatBlockUtil (bs ! i) \<and> is_block d C u (bs ! i) (ns ! i) \<and> has_hash C u (bs ! i) (ns ! i)"
    if "i < length ns" for i
  proof -
    have b: "is_block d C u (bs ! i) (ns ! i)"
      using batch_of_nth [OF batch_of_extends [OF u(2) t(3)]] that len by simp
    from hs that len obtain n where "ys ! i = formatBlockUtil (bs ! i)" "is_block d C u (bs ! i) n" "has_hash C u (bs ! i) n"
      by (auto simp: list_all2_conv_all_nth)
    with b show ?thesis using is_block_unique [OF b] by auto
  qed
  have "map (getHeader (heap u)) ys = map (chain_header C) ns"
  proof (rule nth_equalityI)
    fix i assume "i < length (map (getHeader (heap u)) ys)"
    then have i: "i < length ns" by (simp add: len)
    with each [OF i] getHeader_chain [of d C u "bs ! i" "ns ! i"] len
    show "map (getHeader (heap u)) ys ! i = map (chain_header C) ns ! i" by simp
  qed (simp add: len)
  moreover have "list_all2 (\<lambda>n b. is_block d C u (ib_block b) n) ns ys"
    by (rule list_all2_nthI) (simp_all add: each len formatBlockUtil_def)
  ultimately show ?thesis
    using fetchBlocks_halves [OF f bs ys] u round.ext_trans [OF s t(2) u(2)] by blast
qed

section \<open>What the cache holds\<close>

text \<open>
  The contract of the cache: the rounds of its blocks, with their number. A batch takes one block out for
  each number it asks for, if there is one, and puts the block after each of its rounds in, unless the
  batch has that block itself.
\<close>

definition caches :: "'w deps \<Rightarrow> chain_spec \<Rightarrow> 'w AlgorandApi \<Rightarrow> int multiset \<Rightarrow> bool" where
  "caches d C s R \<longleftrightarrow> (\<exists>rs. list_all2 (is_block d C s) (blockCache s) rs \<and> mset rs = R)"

definition cache_step :: "int multiset \<Rightarrow> int list \<Rightarrow> int multiset" where
  "cache_step R ns = (R - mset ns) + mset (map (\<lambda>n. n + 1) (filter (\<lambda>n. n + 1 \<notin> set ns) ns))"

lemma caches_chain_ok: "caches d C s R \<Longrightarrow> chain_ok d C s"
  by (fastforce simp: caches_def chain_ok_def list_all2_conv_all_nth in_set_conv_nth)

lemma caches_size: "caches d C s R \<Longrightarrow> length (blockCache s) = size R"
  by (auto simp: caches_def dest: list_all2_lengthD)

lemma caches_extends:
  "extends d C s s' \<Longrightarrow> blockCache s' = blockCache s \<Longrightarrow> caches d C s R \<Longrightarrow> caches d C s' R"
  unfolding caches_def extends_def by (metis (mono_tags, lifting) list_all2_mono)

lemma caches_push:
  "extends d C s s' \<Longrightarrow> blockCache s' = blockCache s @ [c] \<Longrightarrow> is_block d C s' c n \<Longrightarrow> caches d C s R \<Longrightarrow>
     caches d C s' (add_mset n R)"
proof -
  assume ext: "extends d C s s'" and c: "blockCache s' = blockCache s @ [c]" "is_block d C s' c n" and "caches d C s R"
  then obtain rs where rs: "list_all2 (is_block d C s) (blockCache s) rs" "mset rs = R" by (auto simp: caches_def)
  have "list_all2 (is_block d C s') (blockCache s) rs"
    by (rule list_all2_mono [OF rs(1)]) (use ext in \<open>simp add: extends_def\<close>)
  with c rs(2) have "list_all2 (is_block d C s') (blockCache s') (rs @ [n])" "mset (rs @ [n]) = add_mset n R"
    by (simp_all add: list_all2_appendI)
  then show ?thesis unfolding caches_def by blast
qed

lemma take_first_rounds:
  "list_all2 (is_block d C s) bs rs \<Longrightarrow>
     list_all2 (is_block d C s) (snd (take_first (has_round (heap s) (JNum n)) bs)) (remove1 n rs)"
proof (induction rule: list_all2_induct)
  case (Cons b bs m rs)
  then show ?case by (auto simp: is_block_round split: prod.split)
qed simp

lemma caches_take: "caches d C s R \<Longrightarrow> caches d C (snd (blockInCache n s)) (R - {#n#})"
proof -
  assume "caches d C s R"
  then obtain rs where rs: "list_all2 (is_block d C s) (blockCache s) rs" "mset rs = R" by (auto simp: caches_def)
  obtain c t where c: "blockInCache n s = (c, t)" by (cases "blockInCache n s")
  then have t: "heap t = heap s" "blockCache t = snd (take_first (has_round (heap s) (JNum n)) (blockCache s))"
    by (auto simp: blockInCache_def split: prod.splits)
  from take_first_rounds [OF rs(1), of n] have "list_all2 (is_block d C t) (blockCache t) (remove1 n rs)"
    by (simp add: t is_block_heap [OF t(1)])
  with rs(2) c show ?thesis unfolding caches_def by (intro exI [of _ "remove1 n rs"]) simp
qed

lemma caches_take_all: "caches d C s R \<Longrightarrow> caches d C (snd (blocksInCache ns s)) (R - mset ns)"
proof (induction ns arbitrary: s R)
  case (Cons n ns)
  from Cons.IH [OF caches_take [OF Cons.prems, of n]] show ?case by (simp add: case_prod_beta')
qed simp

lemma fetchBlocks_caches:
  assumes S: "serves d C lastRound" and ns: "\<forall>n \<in> set ns. 0 \<le> n \<and> n < lastRound" and s: "caches d C s R"
  shows "\<exists>ys s'. fetchBlocks d ns s = Some (Inr ys, s') \<and> caches d C s' (cache_step R ns)"
proof -
  obtain founds s1 where f: "blocksInCache ns s = (founds, s1)" by (cases "blocksInCache ns s")
  have ok: "chain_ok d C s" by (rule caches_chain_ok [OF s])
  from ns have le: "\<forall>n \<in> set ns. 0 \<le> n \<and> n \<le> lastRound" "\<forall>n \<in> set ns. 0 \<le> n \<and> n + 1 \<le> lastRound" by auto
  from fetched_batch [OF S le(1) ok f] obtain bs t where
    bs: "ioall (settles d) (map (fetchOne d) (zip ns founds)) s1 = Some (Inr bs, t)"
    and t: "chain_ok d C t" "extends d C s t" "blockCache t = blockCache s1" "batch_of d C t bs ns" by blast
  have len: "length bs = length ns" using t(4) by (simp add: batch_of_def list_all2_lengthD)
  let ?R = "R - mset ns"
  have "heap s1 = heap s" using blocksInCache_chain [OF ok f] by blast
  with t(2) have "extends d C s1 t" by (simp add: extends_def has_hash_def is_block_heap [OF \<open>heap s1 = heap s\<close>])
  with caches_take_all [OF s, of ns] f t(3) have R: "caches d C t ?R" by (simp add: caches_extends)
  define put where "put A = {i \<in> A. ns ! i + 1 \<notin> set ns}" for A
  define E where "E A u \<longleftrightarrow> finite A \<and> caches d C u (?R + image_mset (\<lambda>i. ns ! i + 1) (mset_set (put A)))" for A u
  have "\<exists>ys u. ioall (settles d) (map (setHash d bs) bs) t = Some (Inr ys, u) \<and> chain_ok d C u \<and> extends d C t u
     \<and> E {..<length bs} u
     \<and> list_all2 (\<lambda>b y. y = formatBlockUtil b \<and> (\<exists>n. is_block d C u b n \<and> has_hash C u b n)) bs ys"
  proof (rule hash_phase [OF S t(1,4) le(2)])
    show "E {} t" using R by (simp add: E_def put_def)
    show "E A (snd (settles d n u))" if "E A u" for A u n
      using that by (simp add: E_def caches_def is_block_heap [OF settles_state(1)])
    fix i A u u' assume i: "i < length bs" "i \<notin> A" and EA: "E A u" and ext: "extends d C t u" "extends d C u u'"
      and cache: "if \<exists>c \<in> set bs. is_block d C u c (ns ! i + 1) then blockCache u' = blockCache u
         else \<exists>c. is_block d C u' c (ns ! i + 1) \<and> blockCache u' = blockCache u @ [c]"
    have batch: "batch_of d C u bs ns" by (rule batch_of_extends [OF ext(1) t(4)])
    have has: "(\<exists>c \<in> set bs. is_block d C u c m) \<longleftrightarrow> m \<in> set ns" for m
      using batch_of_nth [OF batch] len is_block_unique by (metis in_set_conv_nth)
    show "E (insert i A) u'"
    proof (cases "ns ! i + 1 \<in> set ns")
      case True
      then have "put (insert i A) = put A" by (auto simp: put_def)
      with EA cache has True caches_extends [OF ext(2)] show ?thesis by (simp add: E_def)
    next
      case False
      then have "put (insert i A) = insert i (put A)" "i \<notin> put A" using i by (auto simp: put_def)
      with EA cache has False caches_push [OF ext(2)] show ?thesis by (auto simp: E_def put_def)
    qed
  qed
  then obtain ys u where ys: "ioall (settles d) (map (setHash d bs) bs) t = Some (Inr ys, u)" and u: "E {..<length bs} u"
    by blast
  have "image_mset (\<lambda>i. ns ! i + 1) (mset_set (put {..<length bs})) = mset (map (\<lambda>n. n + 1) (filter (\<lambda>n. n + 1 \<notin> set ns) ns))"
  proof -
    have "put {..<length bs} = set (filter (\<lambda>i. ns ! i + 1 \<notin> set ns) [0..<length ns])"
      by (auto simp: put_def len)
    then have "mset_set (put {..<length bs}) = mset (filter (\<lambda>i. ns ! i + 1 \<notin> set ns) [0..<length ns])"
      by (simp only: mset_set_set distinct_filter distinct_upt)
    then have "image_mset (\<lambda>i. ns ! i + 1) (mset_set (put {..<length bs}))
        = mset (map (\<lambda>i. ns ! i + 1) (filter (\<lambda>i. ns ! i + 1 \<notin> set ns) [0..<length ns]))" by (simp only: mset_map)
    moreover have "filter (\<lambda>n. n + 1 \<notin> set ns) ns = map ((!) ns) (filter (\<lambda>i. ns ! i + 1 \<notin> set ns) [0..<length ns])"
      by (subst (2) map_nth [symmetric]) (simp add: filter_map comp_def del: map_nth)
    ultimately show ?thesis by (simp only: map_map comp_def)
  qed
  with u have "caches d C u (cache_step R ns)" by (simp add: E_def cache_step_def)
  with fetchBlocks_halves [OF f bs ys] show ?thesis by blast
qed

text \<open>Consecutive batches leave the block the next one starts with.\<close>

lemma cache_step_batch:
  assumes "a < b" "R \<subseteq># {#a#}"
  shows "cache_step R [a..b - 1] = {#b#}"
proof -
  have ab: "[a..b - 1] = [a..b - 2] @ [b - 1]" using upto_rec2 [of a "b - 1"] assms(1) by simp
  have "filter (\<lambda>n. n + 1 \<notin> set [a..b - 1]) [a..b - 2] = []" using assms(1) by (auto simp: filter_empty_conv)
  then have "filter (\<lambda>n. n + 1 \<notin> set [a..b - 1]) [a..b - 1] = [b - 1]" by (subst (2) ab) simp
  moreover have "R - mset [a..b - 1] = {#}"
  proof -
    have "{#a#} \<subseteq># mset [a..b - 1]" using assms(1) by simp
    with assms(2) have "R \<subseteq># mset [a..b - 1]" by (rule subset_mset.order_trans)
    then show ?thesis by (simp add: Diff_eq_empty_iff_mset)
  qed
  ultimately show ?thesis by (simp add: cache_step_def)
qed

lemma caches_lone:
  "R \<subseteq># {#a#} \<Longrightarrow> caches d C s R \<Longrightarrow> blockCache s = [] \<or> (\<exists>r. blockCache s = [r] \<and> is_block d C s r a)"
proof -
  assume "R \<subseteq># {#a#}" "caches d C s R"
  then obtain rs where rs: "list_all2 (is_block d C s) (blockCache s) rs" "mset rs \<subseteq># {#a#}" by (auto simp: caches_def)
  then have "size (mset rs) \<le> 1" by (metis size_mset_mono size_single)
  with rs show ?thesis by (cases rs) (auto simp: list_all2_Cons2)
qed

text \<open>The indexing of a chain: batches of consecutive rounds, each starting where the last one ended.\<close>

inductive indexing :: "'w deps \<Rightarrow> int \<Rightarrow> int \<Rightarrow> 'w AlgorandApi \<Rightarrow> bool" for d lastRound where
  start: "0 \<le> a \<Longrightarrow> indexing d lastRound a (new_AlgorandApi w)"
| batch: "indexing d lastRound a s \<Longrightarrow> a < b \<Longrightarrow> b \<le> lastRound \<Longrightarrow>
    fetchBlocks d [a..b - 1] s = Some (r, s') \<Longrightarrow> indexing d lastRound b s'"

lemma indexing_caches:
  assumes "indexing d lastRound a s" "serves d C lastRound"
  shows "0 \<le> a \<and> (\<exists>R. R \<subseteq># {#a#} \<and> caches d C s R)"
  using assms
proof (induction rule: indexing.induct)
  case (start a w)
  have "caches d C (new_AlgorandApi w) {#}" by (simp add: caches_def new_AlgorandApi_def)
  with start show ?case by (intro conjI exI [of _ "{#}"]) simp_all
next
  case (batch a s b r s')
  then obtain R where R: "0 \<le> a" "R \<subseteq># {#a#}" "caches d C s R" by blast
  with batch fetchBlocks_caches [of d C lastRound "[a..b - 1]" s R] have "caches d C s' (cache_step R [a..b - 1])" by auto
  with R batch.hyps(2) show ?case by (auto simp: cache_step_batch)
qed

section \<open>What the services above rely on\<close>

text \<open>
  A source of blocks: while it is ready, asking for heights it has gives one block per height, in that
  order, with the header of its height, and leaves it ready.
\<close>

locale block_source =
  fixes fetch :: "int list \<Rightarrow> ('s, IBlock list) io"
    and ready :: "'s \<Rightarrow> bool"
    and has :: "int \<Rightarrow> bool"
    and read_header :: "'s \<Rightarrow> IBlock \<Rightarrow> Header"
    and header_at :: "int \<Rightarrow> Header"
  assumes fetch_headers: "ready s \<Longrightarrow> \<forall>n \<in> set ns. has n \<Longrightarrow>
    \<exists>bs s'. fetch ns s = Some (Inr bs, s') \<and> ready s' \<and> map (read_header s') bs = map header_at ns"
begin

lemma fetch_one:
  assumes "ready s" "has n"
  shows "\<exists>b s'. fetch [n] s = Some (Inr [b], s') \<and> ready s' \<and> read_header s' b = header_at n"
  using fetch_headers [OF assms(1), of "[n]"] assms(2) by (auto simp: map_eq_Cons_conv)

lemma fetch_length:
  "ready s \<Longrightarrow> \<forall>n \<in> set ns. has n \<Longrightarrow> \<exists>bs s'. fetch ns s = Some (Inr bs, s') \<and> length bs = length ns"
  by (drule (1) fetch_headers) (metis length_map)

end

interpretation client: block_source "fetchBlocks d" "\<lambda>s. serves d C lastRound \<and> chain_ok d C s"
    "\<lambda>n. 0 \<le> n \<and> n < lastRound" "\<lambda>s. getHeader (heap s)" "chain_header C"
  for d :: "'w deps" and C lastRound
  by unfold_locales (use fetchBlocks_run in blast)

end
