(* ===== verification/ApiProps.thy ===== *)
theory ApiProps
  imports ApiChain
begin

text \<open>
  What the methods of the client promise, on a chain and off it, and a small node on which each
  promise is seen to apply.
\<close>

section \<open>A node for the examples\<close>

text \<open>
  The world is the number of requests and waits so far. The node has the rounds 0 to 100, its health
  is the round of one request per round, and the transactions of a round come as two pages of one. The
  task that was started last settles first.
\<close>

definition upper :: "char \<Rightarrow> char" where
  "upper c = (if (97::nat) \<le> of_char c \<and> of_char c \<le> (122::nat) then char_of (of_char c - (32::nat)) else c)"

fun camel_ref :: "string \<Rightarrow> string" where
  "camel_ref [] = []"
| "camel_ref (c # s) = (if c = CHR ''-'' then (case s of [] \<Rightarrow> [] | e # t \<Rightarrow> upper e # camel_ref t)
     else c # camel_ref s)"

definition demo_hash :: "int \<Rightarrow> string" where
  "demo_hash n = ''H'' @ show_int n"

definition demo_tx :: "string \<Rightarrow> jsval" where
  "demo_tx i = JObj [(''id'', JStr i), (''group'', JStr ''g1''), (''tx-type'', JStr ''pay'')]"

definition demo_block :: "int \<Rightarrow> jsobj" where
  "demo_block n = [(''round'', JNum n), (''previous-block-hash'', JStr (demo_hash (n - 1))),
     (''timestamp'', JNum (1600000000 + 3 * n)), (''genesis-id'', JStr ''mainnet-v1.0''),
     (''genesis-hash'', JStr ''wGHE''), (''transactions'', JArr [demo_tx ''T1'', demo_tx ''T2''])]"

definition demo_header :: "int \<Rightarrow> jsobj" where
  "demo_header n = [(''round'', JNum n), (''previous-block-hash'', JStr (demo_hash (n - 1))),
     (''timestamp'', JNum (1600000000 + 3 * n))]"

definition demo_page :: "jsval \<Rightarrow> jsval" where
  "demo_page tok = (if tok = JUndef then JObj [(''next-token'', JStr ''p2''), (''transactions'', JArr [demo_tx ''T1''])]
     else if tok = JStr ''p2'' then JObj [(''next-token'', JStr ''p3''), (''transactions'', JArr [demo_tx ''T2''])]
     else JObj [(''transactions'', JArr [])])"

definition demo_deps :: "nat deps" where
  "demo_deps = \<lparr>
     lookupBlock_do = (\<lambda>n w. (case n of
         JNum r \<Rightarrow> if 0 \<le> r \<and> r \<le> 100 then Inr (JObj (demo_block r)) else Inl (Error ''no block found for round'')
       | _ \<Rightarrow> Inl (Error ''bad round''), w + 1)),
     lookupBlock_headerOnly_do = (\<lambda>n w. (case n of
         JNum r \<Rightarrow> Inr (JObj (demo_header r)) | _ \<Rightarrow> Inl (Error ''bad round''), w + 1)),
     searchForTransactions_do = (\<lambda>h limit tok w. (Inr (demo_page tok), w + 1)),
     makeHealthCheck_do = (\<lambda>w. (Inr (JObj [(''round'', JNum (int w + 97))]), w + 1)),
     delay_do = (\<lambda>n w. w + 1),
     next_settled = (\<lambda>n w. (n - 1, w)),
     lodash_camelCase = camel_ref,
     lodash_omit = (\<lambda>ob ks. filter (\<lambda>(k, v). k \<notin> set ks) (own_entries ob)),
     callStack = 100\<rparr>"

lemma demo_deps_simps [simp]:
  "lodash_camelCase demo_deps = camel_ref" "callStack demo_deps = 100"
  "delay_do demo_deps n w = w + 1" "next_settled demo_deps pending w = (pending - 1, w)"
  "lookupBlock_do demo_deps (JNum r) w =
     (if 0 \<le> r \<and> r \<le> 100 then Inr (JObj (demo_block r)) else Inl (Error ''no block found for round''), w + 1)"
  "lookupBlock_headerOnly_do demo_deps (JNum r) w = (Inr (JObj (demo_header r)), w + 1)"
  "searchForTransactions_do demo_deps h limit tok w = (Inr (demo_page tok), w + 1)"
  "makeHealthCheck_do demo_deps w = (Inr (JObj [(''round'', JNum (int w + 97))]), w + 1)"
  by (simp_all add: demo_deps_def)

definition demo_chain :: chain_spec where
  "demo_chain = \<lparr>chain = demo_block, hash_of = demo_hash, time_of = \<lambda>n. 1600000000 + 3 * n,
     txns_of = \<lambda>n. [demo_tx ''T1'', demo_tx ''T2'']\<rparr>"

lemma camel_ref_keys [simp]:
  "camel_ref ''round'' = ''round''" "camel_ref ''timestamp'' = ''timestamp''"
  "camel_ref ''transactions'' = ''transactions''" "camel_ref ''genesis-id'' = ''genesisId''"
  "camel_ref ''genesis-hash'' = ''genesisHash''"
  "camel_ref ''previous-block-hash'' = ''previousBlockHash''"
  by code_simp+

declare camel_ref.simps [simp del]

lemma demo_serves: "serves demo_deps demo_chain 100"
  by (auto simp: serves_def reply_ok_def Let_def demo_chain_def demo_block_def demo_tx_def camelCase_ok_def)

section \<open>Every block the client has built\<close>

lemma demo_config: "indexer_config (\<lambda>_. Inr ''443'') ''https://node'' (JObj []) = Inr \<lparr>ix_token = JStr [],
    ix_server = ''https://node'', ix_port = ''443'', ix_headers = JUndef\<rparr>"
  by (simp add: indexer_config_def js_default_def)

lemma demo_reach: "api_reach demo_deps ((new_AlgorandApi 2)\<lparr>api_genesisHash := JStr ''wGHE'',
    api_chain := JStr ''mainnet-v1.0'', heap := [chain_block demo_deps demo_chain 0 5]\<rparr>)"
proof -
  let ?s = "(new_AlgorandApi (1::nat))\<lparr>api_genesisHash := JStr ''wGHE'', api_chain := JStr ''mainnet-v1.0''\<rparr>"
  have "create (\<lambda>_. demo_deps) (\<lambda>_. Inr ''443'') ''https://node'' (JObj []) 0 = Inr ?s"
    by (simp add: create_def demo_config readGenesis_def demo_block_def js_default_def new_AlgorandApi_def)
  with demo_config have "api_reach demo_deps ?s" by (rule created [OF _ refl])
  moreover have "getBlockByHeight demo_deps (JNum 5) ?s = Some (Inr 0,
      ?s\<lparr>heap := [chain_block demo_deps demo_chain 0 5], world := 2\<rparr>)"
    using getBlockByHeight_run [OF demo_serves, of 5 ?s] by (simp add: new_AlgorandApi_def)
  ultimately have "api_reach demo_deps (?s\<lparr>heap := [chain_block demo_deps demo_chain 0 5], world := 2\<rparr>)"
    by (rule by_height)
  then show ?thesis by (simp add: new_AlgorandApi_def)
qed

text \<open>
  Whatever the node answers and however the calls go, every block the client has built keeps its
  own methods, answers about groups from its own transactions, and is the block each of its
  transactions refers to; and every block of the cache is a block of the client.
\<close>

lemma reachable_blocks_wf:
  "api_reach d s \<Longrightarrow> (\<forall>i < length (heap s). block_wf i (heap s ! i)) \<and> (\<forall>b \<in> set (blockCache s). b < length (heap s))"
  by (drule api_reach_wf) (simp add: api_wf_def)

lemma reachable_blocks_demo: "block_wf 0 (chain_block demo_deps demo_chain 0 5)"
  using reachable_blocks_wf [OF demo_reach] by (simp add: new_AlgorandApi_def)

text \<open>
  C21. \<open>getTransactionsByGroup\<close> of a block the client built: exactly its transactions of that group,
  every one of them referring back to that very block.
\<close>

theorem getTransactionsByGroup_of_block:
  assumes "api_reach d s" "i < length (heap s)"
    and "obj_get (heap s ! i) ''getTransactionsByGroup'' = JFun (GetTransactionsByGroup v)"
  shows "(tx \<in> set (getTransactionsByGroup v g) \<longleftrightarrow>
      (\<exists>txs. obj_get (heap s ! i) ''transactions'' = JArr txs \<and> tx \<in> set txs
         \<and> obj_get (own_props [] tx) ''group'' = JStr g))
    \<and> (tx \<in> set (getTransactionsByGroup v g) \<longrightarrow> obj_get (own_props [] tx) ''block'' = JRef i)"
proof -
  have "block_wf i (heap s ! i)" using api_reach_wf [OF assms(1)] assms(2) by (simp add: api_wf_def)
  from block_wf_group [OF this assms(3)] show ?thesis by blast
qed

theorem getTransactionsByGroup_of_block_witness:
  "\<exists>v tx. obj_get (chain_block demo_deps demo_chain 0 5) ''getTransactionsByGroup'' = JFun (GetTransactionsByGroup v)
     \<and> tx \<in> set (getTransactionsByGroup v ''g1'') \<and> obj_get (own_props [] tx) ''block'' = JRef 0"
proof -
  let ?tx = "tx_object [] 0 (camel_tree camel_ref (demo_tx ''T1''))"
  let ?v = "JArr [?tx, tx_object [] 0 (camel_tree camel_ref (demo_tx ''T2''))]"
  have g: "obj_get (chain_block demo_deps demo_chain 0 5) ''getTransactionsByGroup'' = JFun (GetTransactionsByGroup ?v)"
    by (simp add: chain_block_def block_object_get demo_chain_def del: camel_tree_simps)
  have "obj_get (own_props [] ?tx) ''group'' = JStr ''g1''" by code_simp
  then have m: "?tx \<in> set (getTransactionsByGroup ?v ''g1'')" by simp
  let ?s = "(new_AlgorandApi (2::nat))\<lparr>api_genesisHash := JStr ''wGHE'',
    api_chain := JStr ''mainnet-v1.0'', heap := [chain_block demo_deps demo_chain 0 5]\<rparr>"
  have "0 < length (heap ?s)" "obj_get (heap ?s ! 0) ''getTransactionsByGroup'' = JFun (GetTransactionsByGroup ?v)"
    using g by simp_all
  from getTransactionsByGroup_of_block [OF demo_reach this, of ?tx "''g1''"] m
  have "obj_get (own_props [] ?tx) ''block'' = JRef 0" by blast
  with g m show ?thesis by blast
qed

text \<open>
  C20. A block put into the cache is the one taken for its round, and the cache is then as it was before,
  unless blocks of that round are there already: the oldest of them is taken, and the new one is kept. Asked
  for often enough, the cache hands out every block of the round, in the order they were put in and each of
  them once, the new one last, and keeps the blocks of other rounds in their order.
\<close>

theorem cache_roundtrip:
  assumes "has_round (heap s) (JNum n) b" "pushCache b s = Some (Inr (), t)"
  shows "blockInCache n t = (case blockInCache n s of
      (None, u) \<Rightarrow> (Some b, s) | (Some c, u) \<Rightarrow> (Some c, u\<lparr>blockCache := blockCache u @ [b]\<rparr>))
    \<and> blocksInCache (replicate (Suc (length (cached_at n s))) n) t = (map Some (cached_at n s @ [b]),
        s\<lparr>blockCache := filter (\<lambda>c. \<not> has_round (heap s) (JNum n) c) (blockCache s)\<rparr>)"
proof
  have t: "t = pushed b s" using assms(2) by (simp add: pushCache_pushed)
  show "blockInCache n t = (case blockInCache n s of
      (None, u) \<Rightarrow> (Some b, s) | (Some c, u) \<Rightarrow> (Some c, u\<lparr>blockCache := blockCache u @ [b]\<rparr>))"
    unfolding t blockInCache_pushed [OF assms(1)] pushed_def [symmetric]
    by (auto dest: cache.fetch_None split: prod.splits option.splits)
  have "length (cached_at n t) = Suc (length (cached_at n s))" by (simp add: t cached_at_pushed [OF assms(1)])
  with blocksInCache_round [of n t] assms(1) show "blocksInCache (replicate (Suc (length (cached_at n s))) n) t
      = (map Some (cached_at n s @ [b]), s\<lparr>blockCache := filter (\<lambda>c. \<not> has_round (heap s) (JNum n) c) (blockCache s)\<rparr>)"
    by (simp add: t cached_at_pushed [OF assms(1)] del: replicate_Suc blocksInCache.simps) (simp add: pushed_def)
qed

text \<open>With another block of the round in the cache, and without.\<close>

theorem cache_roundtrip_witness:
  "blockInCache 5 ((new_AlgorandApi (0::nat))\<lparr>heap := [demo_block 5, demo_block 7, demo_block 5], blockCache := [0, 1, 2]\<rparr>)
     = (Some 0, (new_AlgorandApi 0)\<lparr>heap := [demo_block 5, demo_block 7, demo_block 5], blockCache := [1, 2]\<rparr>)
   \<and> blocksInCache [5, 5] ((new_AlgorandApi (0::nat))\<lparr>heap := [demo_block 5, demo_block 7, demo_block 5], blockCache := [0, 1, 2]\<rparr>)
     = ([Some 0, Some 2], (new_AlgorandApi 0)\<lparr>heap := [demo_block 5, demo_block 7, demo_block 5], blockCache := [1]\<rparr>)
   \<and> blockInCache 5 ((new_AlgorandApi (0::nat))\<lparr>heap := [demo_block 5], blockCache := [0]\<rparr>)
     = (Some 0, (new_AlgorandApi 0)\<lparr>heap := [demo_block 5]\<rparr>)"
proof -
  let ?s = "(new_AlgorandApi (0::nat))\<lparr>heap := [demo_block 5, demo_block 7, demo_block 5], blockCache := [0, 1]\<rparr>"
  have at: "cached_at 5 ?s = [0]" and "blockInCache 5 ?s = (Some 0, ?s\<lparr>blockCache := [1]\<rparr>)"
    by (simp_all add: cached_at_def blockInCache_def has_round_def deref_def demo_block_def new_AlgorandApi_def)
  with cache_roundtrip [of ?s 5 2] show ?thesis
    using cache_roundtrip [of "(new_AlgorandApi (0::nat))\<lparr>heap := [demo_block 5]\<rparr>" 5 0]
    by (simp add: pushCache_def new_AlgorandApi_def has_round_def deref_def demo_block_def blockInCache_def cached_at_def
        del: blocksInCache.simps)
qed

section \<open>Blocks of a chain\<close>

text \<open>
  C1. On a chain the node serves, \<open>fetchBlocks\<close> returns one block per number asked, in that order, for
  any cache of blocks of the chain and whatever order the event loop settles the requests in: block \<open>i\<close> is the block of its round, its header names the round,
  the hash of the round (which no reply for that round holds: it comes from the next block), the hash
  of the round before and the time in milliseconds, and its transactions are the renamed transactions
  of the reply, each referring back to the block.
\<close>

theorem fetchBlocks_chain:
  assumes "serves d C lastRound" "\<forall>n \<in> set ns. 0 \<le> n \<and> n < lastRound" "chain_ok d C s"
  shows "\<exists>bs s'. fetchBlocks d ns s = Some (Inr bs, s') \<and> chain_ok d C s'
     \<and> map (getHeader (heap s')) bs = map (chain_header C) ns
     \<and> list_all2 (\<lambda>n b. is_block d C s' (ib_block b) n) ns bs"
  using fetchBlocks_run [OF assms] by blast

theorem fetchBlocks_chain_witness:
  "\<exists>bs s'. fetchBlocks demo_deps [7, 3, 3] (new_AlgorandApi 0) = Some (Inr bs, s')
     \<and> map (getHeader (heap s')) bs = map (chain_header demo_chain) [7, 3, 3]"
  using fetchBlocks_chain [OF demo_serves, of "[7, 3, 3]" "new_AlgorandApi 0"]
  by (auto simp: chain_ok_def new_AlgorandApi_def)

text \<open>
  C7. While a chain is indexed in consecutive batches, whatever their sizes, the cache holds at most
  one block, and that block is the one the next batch starts with: nothing piles up, and the block
  fetched for its parent hash is not fetched again.
\<close>

theorem indexing_cache:
  assumes "indexing d lastRound a s" "serves d C lastRound"
  shows "length (blockCache s) \<le> 1 \<and> (\<forall>b \<in> set (blockCache s). is_block d C s b a
     \<and> blockInCache a s = (Some b, s\<lparr>blockCache := []\<rparr>))"
proof -
  from indexing_caches [OF assms] obtain R where "R \<subseteq># {#a#}" "caches d C s R" by blast
  from caches_lone [OF this] show ?thesis by (auto simp: blockInCache_def is_block_round)
qed

theorem indexing_cache_witness:
  "\<exists>s. indexing demo_deps 100 8 s \<and> length (blockCache s) \<le> 1"
proof -
  obtain r s where "fetchBlocks demo_deps [5..8 - 1] (new_AlgorandApi 0) = Some (r, s)"
    using fetchBlocks_run [OF demo_serves, of "[5..8 - 1]" "new_AlgorandApi 0"]
    by (auto simp: chain_ok_def new_AlgorandApi_def)
  moreover have "indexing demo_deps 100 5 (new_AlgorandApi 0)" by (rule indexing.start) simp
  ultimately have "indexing demo_deps 100 8 s"
    using indexing.batch [of demo_deps 100 5 "new_AlgorandApi 0" 8 r s] by simp
  with indexing_cache [OF this demo_serves] show ?thesis by blast
qed

text \<open>Batches fetched one after the other.\<close>

fun fetch_all :: "'w deps \<Rightarrow> int list list \<Rightarrow> ('w, unit) api" where
  "fetch_all d [] = ioret ()"
| "fetch_all d (ns # nss) = iobind (fetchBlocks d ns) (\<lambda>_. fetch_all d nss)"

lemma fetch_all_caches:
  assumes "serves d C lastRound" "\<forall>ns \<in> set nss. \<forall>n \<in> set ns. 0 \<le> n \<and> n < lastRound" "caches d C s R"
  shows "\<exists>s'. fetch_all d nss s = Some (Inr (), s') \<and> caches d C s' (foldl cache_step R nss)"
  using assms
proof (induction nss arbitrary: s R)
  case Nil
  then show ?case by (simp add: ioret_def)
next
  case (Cons ns nss)
  then obtain ys t where t: "fetchBlocks d ns s = Some (Inr ys, t)" "caches d C t (cache_step R ns)"
    using fetchBlocks_caches [OF Cons.prems(1), of ns s R] by auto
  with Cons.IH [OF Cons.prems(1) _ t(2)] Cons.prems(2) show ?case by (simp add: io_simps)
qed

text \<open>
  C6. The cache as a bag of rounds: on a chain, whatever batches of rounds are fetched one after the other, the
  cache holds the blocks \<open>cache_step\<close> says, batch by batch: a batch takes out one block per number it asks
  for, and leaves the block after each of its rounds, for its parent hash, unless that block is in the batch.
\<close>

theorem cache_contract:
  assumes "serves d C lastRound" "\<forall>ns \<in> set nss. \<forall>n \<in> set ns. 0 \<le> n \<and> n < lastRound" "caches d C s R"
  shows "\<exists>s'. fetch_all d nss s = Some (Inr (), s') \<and> caches d C s' (foldl cache_step R nss)"
  using assms by (rule fetch_all_caches)

lemma new_caches: "caches d C (new_AlgorandApi w) {#}"
  by (simp add: caches_def new_AlgorandApi_def)

theorem cache_contract_witness:
  "\<exists>s'. fetch_all demo_deps [[3, 5], [4], [6, 7]] (new_AlgorandApi 0) = Some (Inr (), s')
     \<and> caches demo_deps demo_chain s' {#8, 5#}"
  using cache_contract [OF demo_serves, of "[[3, 5], [4], [6, 7]]", OF _ new_caches, of 0]
  by (simp add: cache_step_def del: fetch_all.simps)

lemma sparse_steps:
  assumes "\<forall>n \<in> set (concat nss). n + 1 \<notin> set (concat nss)" "set_mset R \<inter> set (concat nss) = {}"
  shows "foldl cache_step R nss = R + mset (map (\<lambda>n. n + 1) (concat nss))"
  using assms
proof (induction nss arbitrary: R)
  case (Cons ns nss)
  have "R - mset ns = R"
  proof (rule multiset_eqI)
    fix x show "count (R - mset ns) x = count R x"
    proof (cases "x \<in> set ns")
      case True
      with Cons.prems(2) have "x \<notin># R" by auto
      then show ?thesis by (simp add: not_in_iff)
    next
      case False
      then show ?thesis by (simp add: not_in_iff [of x "mset ns", THEN iffD1])
    qed
  qed
  moreover have "filter (\<lambda>n. n + 1 \<notin> set ns) ns = ns" using Cons.prems(1) by (auto simp: filter_id_conv)
  ultimately have "cache_step R ns = R + mset (map (\<lambda>n. n + 1) ns)" by (simp add: cache_step_def)
  moreover have "foldl cache_step (R + mset (map (\<lambda>n. n + 1) ns)) nss = (R + mset (map (\<lambda>n. n + 1) ns)) + mset (map (\<lambda>n. n + 1) (concat nss))"
    by (rule Cons.IH) (use Cons.prems in auto)
  ultimately show ?case by (simp add: ac_simps)
qed simp

text \<open>
  C8. The cache has no bound. When no two of the rounds fetched follow each other, which is how rounds come
  from a dictionary, the block fetched for the parent hash of each of them is never asked for: after any
  batches of such rounds the cache holds one block for every round fetched so far, and drops none.
\<close>

theorem sparse_rounds_stay_cached:
  assumes "serves d C lastRound" "\<forall>n \<in> set (concat nss). 0 \<le> n \<and> n < lastRound \<and> n + 1 \<notin> set (concat nss)"
  shows "\<exists>s'. fetch_all d nss (new_AlgorandApi w) = Some (Inr (), s') \<and> length (blockCache s') = length (concat nss)"
proof -
  have "\<forall>ns \<in> set nss. \<forall>n \<in> set ns. 0 \<le> n \<and> n < lastRound" using assms(2) by auto
  from fetch_all_caches [OF assms(1) this new_caches] obtain s' where
    s': "fetch_all d nss (new_AlgorandApi w) = Some (Inr (), s')" "caches d C s' (foldl cache_step {#} nss)" by blast
  have "foldl cache_step {#} nss = {#} + mset (map (\<lambda>n. n + 1) (concat nss))"
    by (rule sparse_steps) (use assms(2) in auto)
  with caches_size [OF s'(2)] s'(1) show ?thesis by auto
qed

theorem sparse_rounds_stay_cached_witness:
  "\<exists>s'. fetch_all demo_deps [[3], [5, 9], [20]] (new_AlgorandApi 0) = Some (Inr (), s') \<and> length (blockCache s') = 4"
  using sparse_rounds_stay_cached [OF demo_serves, of "[[3], [5, 9], [20]]" 0]
  by (simp add: numeral_eq_Suc del: fetch_all.simps)

text \<open>
  \<open>getBlockByHeight\<close> of a round the node serves: one request, a new block of that round, and neither
  the cache nor any block there was is touched.
\<close>

lemma getBlockByHeight_block:
  assumes "serves d C lastRound" "0 \<le> n" "n \<le> lastRound"
  shows "\<exists>s'. getBlockByHeight d (JNum n) s = Some (Inr (length (heap s)), s')
     \<and> block_of d C (length (heap s)) n (deref (heap s') (length (heap s)))
     \<and> take (length (heap s)) (heap s') = heap s \<and> blockCache s' = blockCache s
     \<and> world s' = snd (lookupBlock_do d (JNum n) (world s))"
  using assms by (simp add: getBlockByHeight_run [OF assms] chain_block_of serves_def)

lemma getBlockByHeight_demo:
  "\<exists>s'. getBlockByHeight demo_deps (JNum 5) (new_AlgorandApi 0) = Some (Inr 0, s') \<and> world s' = 1"
  using getBlockByHeight_block [OF demo_serves, of 5 "new_AlgorandApi 0"]
  by (auto simp: new_AlgorandApi_def)

section \<open>The hash of the last round\<close>

text \<open>The world after \<open>k\<close> waits of the loop, each with its health check.\<close>

fun after_waits :: "'w deps \<Rightarrow> nat \<Rightarrow> 'w \<Rightarrow> 'w" where
  "after_waits d 0 w = w"
| "after_waits d (Suc k) w = after_waits d k (snd (makeHealthCheck_do d (delay_do d 1 w)))"

text \<open>The node says it is at round \<open>m\<close> when asked now.\<close>

definition healthy :: "'w deps \<Rightarrow> int \<Rightarrow> 'w \<Rightarrow> bool" where
  "healthy d m w \<longleftrightarrow> (\<exists>ob. fst (makeHealthCheck_do d w) = Inr (JObj ob) \<and> obj_get ob ''round'' = JNum m)"

lemma healthRound_healthy:
  "healthy d m (world s) \<Longrightarrow> healthRound d s = Some (Inr (JNum m), s\<lparr>world := snd (makeHealthCheck_do d (world s))\<rparr>)"
  by (cases "makeHealthCheck_do d (world s)") (auto simp: healthy_def healthRound_def request_def iobind_def)

lemma waitForRound_settles:
  assumes "\<And>j. j \<le> k \<Longrightarrow> healthy d (c j) (delay_do d 1 (after_waits d j (world s)))" and "target \<le> c k" and "m < target"
  shows "\<exists>j \<le> k. target \<le> c j \<and> (\<forall>i < j. c i < target) \<and> waitForRound d (JNum m) (JNum target) s
     = Some (Inr (), s\<lparr>world := after_waits d (Suc j) (world s)\<rparr>)"
  using assms
proof (induction k arbitrary: m c s)
  case 0
  then have "healthy d (c 0) (world (s\<lparr>world := delay_do d 1 (world s)\<rparr>))" by simp
  from healthRound_healthy [OF this] 0 show ?case
    by (subst waitForRound.simps, simp, subst waitForRound.simps, simp)
next
  case (Suc k)
  let ?t = "s\<lparr>world := delay_do d 1 (world s)\<rparr>"
  let ?u = "?t\<lparr>world := snd (makeHealthCheck_do d (delay_do d 1 (world s)))\<rparr>"
  have "healthy d (c 0) (world ?t)" using Suc.prems(1) [of 0] by simp
  from healthRound_healthy [OF this] have h: "healthRound d ?t = Some (Inr (JNum (c 0)), ?u)" by simp
  then have first: "waitForRound d (JNum m) (JNum target) s = waitForRound d (JNum (c 0)) (JNum target) ?u"
    using Suc.prems(3) by (subst waitForRound.simps) simp
  show ?case
  proof (cases "target \<le> c 0")
    case True
    then have "waitForRound d (JNum (c 0)) (JNum target) ?u = Some (Inr (), ?u)"
      by (subst waitForRound.simps) simp
    with first True show ?thesis by (intro exI [of _ 0]) simp
  next
    case False
    have "\<exists>j \<le> k. target \<le> c (Suc j) \<and> (\<forall>i < j. c (Suc i) < target) \<and> waitForRound d (JNum (c 0)) (JNum target) ?u
        = Some (Inr (), ?u\<lparr>world := after_waits d (Suc j) (world ?u)\<rparr>)"
    proof (rule Suc.IH)
      fix j assume "j \<le> k"
      then show "healthy d (c (Suc j)) (delay_do d 1 (after_waits d j (world ?u)))"
        using Suc.prems(1) [of "Suc j"] by simp
    qed (use Suc.prems(2) False in auto)
    then obtain j where "j \<le> k" "target \<le> c (Suc j)" "\<forall>i < j. c (Suc i) < target"
      "waitForRound d (JNum (c 0)) (JNum target) ?u = Some (Inr (), ?u\<lparr>world := after_waits d (Suc j) (world ?u)\<rparr>)" by blast
    with first False show ?thesis
      by (intro exI [of _ "Suc j"]) (auto simp: less_Suc_eq_0_disj)
  qed
qed

text \<open>
  C16. When no block of the batch follows round \<open>n\<close> and the node has no round \<open>n + 1\<close> yet, \<open>getBlockHash\<close>
  waits a second and asks the node's health, again and again until the node says it is at round \<open>n + 1\<close>,
  and stops at the first answer that does; then it throws. After the failed request and its health check
  these waits and health checks are all it does: the block that is there now is not asked for.
\<close>

theorem getBlockHash_waits_then_throws:
  assumes "\<forall>b \<in> set blocks. \<not> has_round (heap s) (JNum (n + 1)) b"
    and "getBlockByHeight d (JNum (n + 1)) s = Some (Inl e, t)"
    and "healthy d m (world t)" "m < n + 1"
    and "\<forall>j \<le> k. healthy d (c j) (delay_do d 1 (after_waits d j (snd (makeHealthCheck_do d (world t)))))"
    and "n + 1 \<le> c k"
  shows "\<exists>j \<le> k. n + 1 \<le> c j \<and> (\<forall>i < j. c i < n + 1)
     \<and> getBlockHash d (JNum n) blocks s = Some (Inl (Error (unable_message (JNum n))),
         t\<lparr>world := after_waits d (Suc j) (snd (makeHealthCheck_do d (world t)))\<rparr>)"
proof -
  let ?u = "t\<lparr>world := snd (makeHealthCheck_do d (world t))\<rparr>"
  have "find (has_round (heap s) (JNum (n + 1))) blocks = None"
    using assms(1) by (simp add: find_None_iff)
  moreover have "healthRound d t = Some (Inr (JNum m), ?u)" by (rule healthRound_healthy [OF assms(3)])
  moreover obtain j where "j \<le> k" "n + 1 \<le> c j" "\<forall>i < j. c i < n + 1" "waitForRound d (JNum m) (JNum (n + 1)) ?u
      = Some (Inr (), ?u\<lparr>world := after_waits d (Suc j) (world ?u)\<rparr>)"
    using waitForRound_settles [of k d c ?u "n + 1" m] assms(4-6) by auto
  ultimately show ?thesis using assms(2,4)
    by (intro exI [of _ j]) (simp add: getBlockHash_def iobind_def iocatch_def iothrow_def)
qed

lemma demo_missing:
  "getBlockByHeight demo_deps (JNum 101) s = Some (Inl (Error ''no block found for round''), s\<lparr>world := world s + 1\<rparr>)"
proof -
  have "\<not> js_includes ''no block found for round'' max_transactions_message" by code_simp
  then show ?thesis
    by (simp add: getBlockByHeight_def iocatch_def iobind_def request_def iothrow_def)
qed

text \<open>The node is at round 98, and after two waits at round 102: six requests and waits.\<close>

theorem getBlockHash_waits_then_throws_witness:
  "getBlockHash demo_deps (JNum 100) [] (new_AlgorandApi 0)
     = Some (Inl (Error (unable_message (JNum 100))), (new_AlgorandApi 0)\<lparr>world := 6\<rparr>)"
proof -
  let ?t = "(new_AlgorandApi (0::nat))\<lparr>world := 1\<rparr>" and ?c = "\<lambda>j. 100 + 2 * int j"
  have waits: "after_waits demo_deps j w = w + 2 * j" for j w
    by (induction j arbitrary: w) simp_all
  have "\<exists>j \<le> 1. 100 + 1 \<le> ?c j \<and> (\<forall>i < j. ?c i < 100 + 1) \<and> getBlockHash demo_deps (JNum 100) [] (new_AlgorandApi (0::nat))
      = Some (Inl (Error (unable_message (JNum 100))),
          ?t\<lparr>world := after_waits demo_deps (Suc j) (snd (makeHealthCheck_do demo_deps (world ?t)))\<rparr>)"
  proof (rule getBlockHash_waits_then_throws [where m = 98])
    show "getBlockByHeight demo_deps (JNum (100 + 1)) (new_AlgorandApi 0) = Some (Inl (Error ''no block found for round''), ?t)"
      using demo_missing [of "new_AlgorandApi 0"] by (simp add: new_AlgorandApi_def)
  qed (simp_all add: healthy_def waits del: after_waits.simps)
  then obtain j where j: "j \<le> 1" "100 + 1 \<le> ?c j" and run: "getBlockHash demo_deps (JNum 100) [] (new_AlgorandApi (0::nat))
      = Some (Inl (Error (unable_message (JNum 100))), ?t\<lparr>world := 2 + 2 * Suc j\<rparr>)"
    by (auto simp: waits simp del: after_waits.simps)
  from j have "j = 1" by simp
  with run show ?thesis by (simp add: numeral_eq_Suc)
qed

section \<open>Pages of transactions\<close>

text \<open>
  The pages of a round as the node hands them out from a token on: the first reply without
  transactions is the last.
\<close>

inductive pages :: "'w deps \<Rightarrow> jsval \<Rightarrow> int \<Rightarrow> jsval \<Rightarrow> 'w \<Rightarrow> jsval list list \<Rightarrow> 'w \<Rightarrow> bool" for d h limit where
  empty_page: "searchForTransactions_do d h limit (if truthy tok then tok else JUndef) w = (Inr (JObj ob), w') \<Longrightarrow>
    obj_get ob ''transactions'' = JArr [] \<Longrightarrow> pages d h limit tok w [] w'"
| next_page: "searchForTransactions_do d h limit (if truthy tok then tok else JUndef) w = (Inr (JObj ob), w') \<Longrightarrow>
    obj_get ob ''transactions'' = JArr xs \<Longrightarrow> xs \<noteq> [] \<Longrightarrow>
    pages d h limit (obj_get ob ''next-token'') w' xss w'' \<Longrightarrow> pages d h limit tok w (xs # xss) w''"

lemma paginatedTransactions_run:
  assumes "pages d h (paginationLimit s) tok (world s) xss w'"
  shows "paginatedTransactions d h tok s = Some (Inr (JArr (concat xss)), s\<lparr>world := w'\<rparr>)"
proof -
  have "paginatedTransactions d h tok t = Some (Inr (JArr (concat xss)), t\<lparr>world := w'\<rparr>)"
    if "pages d h limit tok w xss w'" "paginationLimit t = limit" "world t = w"
    for t :: "'a AlgorandApi" and limit tok w xss w'
    using that
  proof (induction arbitrary: t rule: pages.induct)
    case (empty_page tok w ob w')
    then show ?case by (subst paginatedTransactions.simps) simp
  next
    case (next_page tok w ob w' xs xss w'')
    then have "paginatedTransactions d h (obj_get ob ''next-token'') (t\<lparr>world := w'\<rparr>)
        = Some (Inr (JArr (concat xss)), t\<lparr>world := w''\<rparr>)" by simp
    with next_page show ?case by (subst paginatedTransactions.simps) simp
  qed
  with assms show ?thesis by simp
qed

text \<open>The node answers every request for a page with a list of transactions.\<close>

definition lists_pages :: "'w deps \<Rightarrow> jsval \<Rightarrow> int \<Rightarrow> bool" where
  "lists_pages d h limit \<longleftrightarrow> (\<forall>tok w. \<exists>ob xs w'. searchForTransactions_do d h limit tok w = (Inr (JObj ob), w')
     \<and> obj_get ob ''transactions'' = JArr xs)"

lemma paginatedTransactions_settled:
  "paginatedTransactions d h tok s = Some y \<Longrightarrow> lists_pages d h (paginationLimit s) \<Longrightarrow>
   \<exists>xss w'. pages d h (paginationLimit s) tok (world s) xss w' \<and> y = (Inr (JArr (concat xss)), s\<lparr>world := w'\<rparr>)"
proof (induction rule: paginated_induct)
  case (page f d h tok s y)
  from page.prems obtain ob xs w where reply: "obj_get ob ''transactions'' = JArr xs"
    "searchForTransactions_do d h (paginationLimit s) (if truthy tok then tok else JUndef) (world s) = (Inr (JObj ob), w)"
    unfolding lists_pages_def by metis
  note step = page(2) [unfolded page_step_list [OF reply(2,1)]]
  show ?case
  proof (cases "xs = []")
    case True
    with step have "y = (Inr (JArr (concat [])), s\<lparr>world := w\<rparr>)" by simp
    with empty_page [OF reply(2)] reply(1) True show ?thesis by blast
  next
    case False
    with step obtain r t where next_call: "f d h (obj_get ob ''next-token'') (s\<lparr>world := w\<rparr>) = Some (r, t)"
      and y: "y = (bindR r (js_concat (JArr xs)), t)"
      by (auto simp: bind_eq_Some_conv)
    from page.IH [OF next_call] page.prems obtain xss w' where
      "pages d h (paginationLimit s) (obj_get ob ''next-token'') w xss w'" "r = Inr (JArr (concat xss))" "t = s\<lparr>world := w'\<rparr>"
      by auto
    with next_page [OF reply(2,1) False] y show ?thesis
      by (intro exI [of _ "xs # xss"] exI [of _ w']) simp
  qed
qed

text \<open>
  C14. The transactions of a round are those of all its pages, in the order of the pages, each request
  with the token of the reply before it; and the call settles exactly when the pages of the node end.
\<close>

theorem paginatedTransactions_pages:
  assumes "lists_pages d h (paginationLimit s)"
  shows "paginatedTransactions d h JUndef s = Some (r, s') \<longleftrightarrow>
    (\<exists>xss w'. pages d h (paginationLimit s) JUndef (world s) xss w' \<and> r = Inr (JArr (concat xss)) \<and> s' = s\<lparr>world := w'\<rparr>)"
  using paginatedTransactions_settled [OF _ assms, of JUndef "(r, s')"]
    paginatedTransactions_run [of d h s JUndef] by auto

lemma demo_pages: "pages demo_deps h limit JUndef w [[demo_tx ''T1''], [demo_tx ''T2'']] (w + 3)"
proof -
  have "pages demo_deps h limit (JStr ''p3'') (w + 2) [] (w + 3)"
    by (rule empty_page) (auto simp: demo_page_def)
  then have "pages demo_deps h limit (JStr ''p2'') (w + 1) [[demo_tx ''T2'']] (w + 3)"
    by (intro next_page [where w' = "w + 2"]) (auto simp: demo_page_def)
  then have "pages demo_deps h limit (obj_get [(''next-token'', JStr ''p2''), (''transactions'', JArr [demo_tx ''T1''])]
      ''next-token'') (w + 1) [[demo_tx ''T2'']] (w + 3)" by simp
  then show ?thesis by (rule next_page [rotated 3]) (simp_all add: demo_page_def)
qed

lemma demo_lists: "lists_pages demo_deps (JNum 5) limit"
  by (auto simp: lists_pages_def demo_page_def)

theorem paginatedTransactions_pages_witness:
  "paginatedTransactions demo_deps (JNum 5) JUndef (new_AlgorandApi 0)
     = Some (Inr (JArr [demo_tx ''T1'', demo_tx ''T2'']), (new_AlgorandApi 0)\<lparr>world := 3\<rparr>)"
proof -
  have "pages demo_deps (JNum 5) (paginationLimit (new_AlgorandApi (0::nat))) JUndef (world (new_AlgorandApi 0))
      [[demo_tx ''T1''], [demo_tx ''T2'']] 3"
    using demo_pages [of "JNum 5" _ 0] by (simp add: new_AlgorandApi_def)
  then show ?thesis by (subst paginatedTransactions_pages [OF demo_lists]) fastforce
qed

definition tokenless :: "'w deps \<Rightarrow> jsval \<Rightarrow> int \<Rightarrow> bool" where
  "tokenless d h limit \<longleftrightarrow> (\<forall>w. \<exists>ob xs. fst (searchForTransactions_do d h limit JUndef w) = Inr (JObj ob)
     \<and> obj_get ob ''transactions'' = JArr xs \<and> xs \<noteq> [] \<and> \<not> truthy (obj_get ob ''next-token''))"

text \<open>
  C17. A node that answers a request without a token with transactions and no token for the next page
  is asked the same again and again: the call never settles.
\<close>

theorem paginatedTransactions_never_settles:
  assumes "tokenless d h (paginationLimit s)" and "\<not> truthy tok"
  shows "paginatedTransactions d h tok s = None"
proof -
  have "\<not> truthy tok \<Longrightarrow> tokenless d h (paginationLimit s) \<Longrightarrow> False"
    if "paginatedTransactions d h tok s = Some y" for d :: "'a deps" and h tok s y
    using that
  proof (induction rule: paginated_induct)
    case (page f d h tok s y)
    have tok: "(if truthy tok then tok else JUndef) = JUndef" using page.prems(1) by simp
    from page.prems(2) obtain ob xs w where reply: "obj_get ob ''transactions'' = JArr xs" "xs \<noteq> []" "\<not> truthy (obj_get ob ''next-token'')"
      "searchForTransactions_do d h (paginationLimit s) (if truthy tok then tok else JUndef) (world s) = (Inr (JObj ob), w)"
      unfolding tokenless_def tok by (metis prod.collapse)
    with page(2) obtain z where "f d h (obj_get ob ''next-token'') (s\<lparr>world := w\<rparr>) = Some z"
      unfolding page_step_list [OF reply(4,1)] by (auto simp: bind_eq_Some_conv)
    from page.IH [OF this] reply(3) page.prems show False by simp
  qed
  with assms show ?thesis by (cases "paginatedTransactions d h tok s") auto
qed

definition stuck_deps :: "nat deps" where
  "stuck_deps = demo_deps\<lparr>searchForTransactions_do :=
     (\<lambda>h limit tok w. (Inr (JObj [(''transactions'', JArr [demo_tx ''T1''])]), w + 1))\<rparr>"

theorem paginatedTransactions_never_settles_witness:
  "paginatedTransactions stuck_deps (JNum 5) JUndef (new_AlgorandApi 0) = None"
  by (rule paginatedTransactions_never_settles) (simp_all add: tokenless_def stuck_deps_def)

section \<open>Blocks over the limit\<close>

text \<open>
  A header the client can rename: a JSON tree that fits the stack, none of whose keys, and neither of
  the two methods of a block, becomes one of the keys the client reads.
\<close>

definition header_ok :: "'w deps \<Rightarrow> jsobj \<Rightarrow> bool" where
  "header_ok d hdr \<longleftrightarrow> is_json (JObj hdr) \<and> depth (JObj hdr) \<le> callStack d \<and> 2 \<le> callStack d
     \<and> \<not> obj_has hdr ''constructor''
     \<and> camelCase_ok (lodash_camelCase d)
          ([(''toJSON'', JNull), (''getTransactionsByGroup'', JNull), (''transactions'', JNull)] @ hdr)"

lemma getHeaderOnly_run:
  assumes "lookupBlock_headerOnly_do d h (world s) = (Inr (JObj hdr), w)"
    and "map_transactions (heap s) (length (heap s)) (obj_get hdr ''transactions'') = Inr txs"
  shows "getHeaderOnly d h s = Some (Inr (length (heap s)),
    s\<lparr>world := w, heap := heap s @ [block_object [] (JObj hdr) txs]\<rparr>)"
  using assms by (simp add: getHeaderOnly_def iocatch_def iobind_def request_def constructBlock_def
      Let_def block_object_def)

lemma block_object_entries:
  assumes "is_json (JObj hdr)" "(k, u) \<in> set (own_entries (block_object [] (JObj hdr) txs))"
  shows "obj_get (block_object [] (JObj hdr) txs) k = u
    \<and> (k = ''transactions'' \<and> u = txs \<or> (\<exists>f. u = JFun f) \<or> (is_json u \<and> depth u < depth (JObj hdr)))"
proof -
  let ?b = "block_object [] (JObj hdr) txs"
  have m: "map_of ?b k = Some u" using assms(2)
    by (metis distinct_own_entries map_of_is_SomeI map_of_own_entries)
  then have u: "obj_get ?b k = u" and has: "obj_has ?b k" by (simp_all add: obj_get_def obj_has_def)
  have "is_json (obj_get hdr k) \<and> depth (obj_get hdr k) < depth (JObj hdr)" if "obj_has hdr k"
  proof -
    from that have "(k, obj_get hdr k) \<in> set (own_entries hdr)"
      by (metis map_of_SomeD map_of_own_entries obj_get_def obj_has_def option.case_eq_if option.exhaust_sel)
    then show ?thesis using is_json_own_entries [OF assms(1)] depth_field by blast
  qed
  moreover consider "k = ''transactions''" | "k = ''toJSON''" | "k = ''getTransactionsByGroup''"
    | "k \<notin> {''transactions'', ''toJSON'', ''getTransactionsByGroup''}" "obj_has hdr k"
    using has by (auto simp: block_object_has)
  then have "k = ''transactions'' \<and> u = txs \<or> (\<exists>f. u = JFun f) \<or> (obj_has hdr k \<and> u = obj_get hdr k)"
    by cases (simp_all add: block_object_get flip: u)
  ultimately show ?thesis using u by metis
qed

lemma renamed_entry:
  assumes "is_json u" "depth u < depth (JObj hdr)" "depth (JObj hdr) \<le> Suc n"
  shows "camelCaseObjectKey cc H n u = Inr (camel_tree cc u)"
  using assms camelCaseObjectKey_tree [of u n cc H] by simp

lemma renamed_fun: "0 < n \<Longrightarrow> camelCaseObjectKey cc H n (JFun f) = Inr (JFun f)"
  by (cases n) simp_all

text \<open>
  A node that answers the same whenever it is asked for the header and the pages of a round: the header
  and the pages are there whichever of the two requests is answered first.
\<close>

definition over_limit_node :: "'w deps \<Rightarrow> jsval \<Rightarrow> int \<Rightarrow> jsobj \<Rightarrow> jsval list list \<Rightarrow> bool" where
  "over_limit_node d h limit hdr xss \<longleftrightarrow> header_ok d hdr
     \<and> (\<forall>w. fst (lookupBlock_headerOnly_do d h w) = Inr (JObj hdr))
     \<and> (\<forall>w. \<exists>w'. pages d h limit JUndef w xss w')"

text \<open>
  The world after the header and all the pages were asked for, each request once and in its turn; the event
  loop decides which of the two is answered first.
\<close>

definition header_and_pages_asked :: "'w deps \<Rightarrow> jsval \<Rightarrow> int \<Rightarrow> jsval list list \<Rightarrow> 'w \<Rightarrow> 'w \<Rightarrow> bool" where
  "header_and_pages_asked d h limit xss w w' \<longleftrightarrow> (case next_settled d 2 w of (k, w1) \<Rightarrow>
     if even k then pages d h limit JUndef (snd (lookupBlock_headerOnly_do d h w1)) xss w'
     else \<exists>w2. pages d h limit JUndef w1 xss w2 \<and> w' = snd (lookupBlock_headerOnly_do d h w2))"

lemma header_and_pages:
  assumes "over_limit_node d h (paginationLimit s) hdr xss"
    and "map_transactions (heap s) (length (heap s)) (obj_get hdr ''transactions'') = Inr txs"
  shows "\<exists>w. header_and_pages_asked d h (paginationLimit s) xss (world s) w
     \<and> ioboth (settles d) (getHeaderOnly d h) (paginatedTransactions d h JUndef) s
     = Some (Inr (length (heap s), JArr (concat xss)), s\<lparr>world := w, heap := heap s @ [block_object [] (JObj hdr) txs]\<rparr>)"
proof -
  obtain k w1 where nxt: "next_settled d 2 (world s) = (k, w1)" by (cases "next_settled d 2 (world s)")
  then have k: "settles d 2 s = (k, s\<lparr>world := w1\<rparr>)" by (simp add: settles_def)
  have hdr: "getHeaderOnly d h t = Some (Inr (length (heap s)),
      t\<lparr>world := snd (lookupBlock_headerOnly_do d h (world t)), heap := heap s @ [block_object [] (JObj hdr) txs]\<rparr>)"
    if "heap t = heap s" for t :: "'a AlgorandApi"
    using getHeaderOnly_run [of d h t hdr "snd (lookupBlock_headerOnly_do d h (world t))" txs] assms that
    by (metis over_limit_node_def prod.collapse)
  have pg: "\<exists>w'. pages d h (paginationLimit s) JUndef (world t) xss w'
      \<and> paginatedTransactions d h JUndef t = Some (Inr (JArr (concat xss)), t\<lparr>world := w'\<rparr>)"
    if "paginationLimit t = paginationLimit s" for t :: "'a AlgorandApi"
    using paginatedTransactions_run [of d h t JUndef xss] assms(1) that by (metis over_limit_node_def)
  show ?thesis
  proof (cases "even k")
    case True
    let ?t = "s\<lparr>world := snd (lookupBlock_headerOnly_do d h w1), heap := heap s @ [block_object [] (JObj hdr) txs]\<rparr>"
    have h: "getHeaderOnly d h (s\<lparr>world := w1\<rparr>) = Some (Inr (length (heap s)), ?t)"
      using hdr [of "s\<lparr>world := w1\<rparr>"] by simp
    obtain w3 where p: "pages d h (paginationLimit s) JUndef (snd (lookupBlock_headerOnly_do d h w1)) xss w3"
      "paginatedTransactions d h JUndef ?t = Some (Inr (JArr (concat xss)), ?t\<lparr>world := w3\<rparr>)"
      using pg [of ?t] by auto
    have "?t\<lparr>world := w3\<rparr> = s\<lparr>world := w3, heap := heap s @ [block_object [] (JObj hdr) txs]\<rparr>" by simp
    with True k h p nxt show ?thesis unfolding ioboth_def header_and_pages_asked_def by (intro exI [of _ w3]) simp
  next
    case False
    obtain w2 where p: "pages d h (paginationLimit s) JUndef w1 xss w2"
      "paginatedTransactions d h JUndef (s\<lparr>world := w1\<rparr>) = Some (Inr (JArr (concat xss)), s\<lparr>world := w2\<rparr>)"
      using pg [of "s\<lparr>world := w1\<rparr>"] by auto
    have "getHeaderOnly d h (s\<lparr>world := w2\<rparr>) = Some (Inr (length (heap s)),
        s\<lparr>world := snd (lookupBlock_headerOnly_do d h w2), heap := heap s @ [block_object [] (JObj hdr) txs]\<rparr>)"
      using hdr [of "s\<lparr>world := w2\<rparr>"] by simp
    with False k p nxt show ?thesis by (auto simp: ioboth_def header_and_pages_asked_def)
  qed
qed

text \<open>An iteration over keys one of which throws \<open>e\<close> while the others succeed throws \<open>e\<close>.\<close>

lemma foldR_one_throws:
  assumes "\<And>z. f z x = Inl e" "\<And>y z. y \<in> set xs \<Longrightarrow> y \<noteq> x \<Longrightarrow> \<exists>z'. f z y = Inr z'" "x \<in> set xs"
  shows "foldR f xs z = Inl e"
  using assms(2,3)
proof (induction xs arbitrary: z)
  case (Cons y xs)
  then show ?case using assms(1)
  proof (cases "y = x")
    case False
    with Cons.prems(1) [of y z] obtain z' where "f z y = Inr z'" by auto
    with False Cons show ?thesis by simp
  qed simp
qed simp

lemma rename_header_throws:
  assumes "header_ok d hdr" "deref H r = block_object [] (JObj hdr) JUndef"
  shows "camelCaseObjectKey (lodash_camelCase d) H (callStack d) (JRef r)
     = Inl (TypeError ''Cannot read properties of undefined (reading 'constructor')'')"
proof -
  let ?b = "block_object [] (JObj hdr) JUndef" and ?cc = "lodash_camelCase d"
  from assms(1) obtain n where n: "callStack d = Suc n" "0 < n" by (cases "callStack d") (auto simp: header_ok_def)
  have has: "obj_has ?b k \<longleftrightarrow> k \<in> {''transactions'', ''toJSON'', ''getTransactionsByGroup''} \<or> obj_has hdr k" for k
    by (simp add: block_object_has)
  let ?f = "\<lambda>result key. bindR (camelCaseObjectKey ?cc H n (obj_get ?b key))
      (\<lambda>v. Inr (obj_put (spread_into [] result) (?cc key) v))"
  have "foldR ?f (own_keys ?b) [] = Inl (TypeError ''Cannot read properties of undefined (reading 'constructor')'')"
  proof (rule foldR_one_throws [where x = "''transactions''"])
    show "?f z ''transactions'' = Inl (TypeError ''Cannot read properties of undefined (reading 'constructor')'')" for z
      using n(2) by (cases n) (simp_all add: block_object_get)
    show "\<exists>z'. ?f z k = Inr z'" if k: "k \<in> set (own_keys ?b)" "k \<noteq> ''transactions''" for k z
    proof -
      from k(1) obtain u where "(k, u) \<in> set (own_entries ?b)" by (auto simp: own_keys_def)
      from block_object_entries [OF _ this] assms(1) k(2)
      have "obj_get ?b k = u" "(\<exists>g. u = JFun g) \<or> (is_json u \<and> depth u < depth (JObj hdr))"
        by (auto simp: header_ok_def)
      then show ?thesis
        using n assms(1) renamed_fun [OF n(2)] renamed_entry [of u hdr n ?cc H] by (auto simp: header_ok_def)
    qed
  qed (simp add: set_own_keys has)
  with assms n show ?thesis by (simp add: has header_ok_def rename_keys_def)
qed

text \<open>
  C18. On a node that answers the same throughout, a block over the transaction limit whose header-only
  reply has no \<open>transactions\<close> cannot be fetched: its header and all its pages are asked for, and then the
  renaming of the header's keys fails on the undefined \<open>transactions\<close> the client itself put there. What
  remains of the call is the block it built of the header; the cache and the other blocks are as before.
\<close>

theorem getBlockByHeight_over_limit_throws:
  assumes "lookupBlock_do d h (world s) = (Inl e, w1)" "js_includes (emessage e) max_transactions_message"
    and "over_limit_node d h (paginationLimit s) hdr xss" "\<not> obj_has hdr ''transactions''"
  shows "\<exists>w. header_and_pages_asked d h (paginationLimit s) xss w1 w \<and> getBlockByHeight d h s
    = Some (Inl (TypeError ''Cannot read properties of undefined (reading 'constructor')''),
        s\<lparr>world := w, heap := heap s @ [block_object [] (JObj hdr) JUndef]\<rparr>)"
proof -
  obtain w where asked: "header_and_pages_asked d h (paginationLimit s) xss w1 w" and both: "ioboth (settles d) (getHeaderOnly d h) (paginatedTransactions d h JUndef) (s\<lparr>world := w1\<rparr>)
     = Some (Inr (length (heap s), JArr (concat xss)), s\<lparr>world := w, heap := heap s @ [block_object [] (JObj hdr) JUndef]\<rparr>)"
    using header_and_pages [of d h "s\<lparr>world := w1\<rparr>" hdr xss JUndef] assms(3,4) by (auto simp: obj_get_absent)
  have "header_ok d hdr" using assms(3) by (simp add: over_limit_node_def)
  from rename_header_throws [OF this, of "heap s @ [block_object [] (JObj hdr) JUndef]" "length (heap s)"]
  have "renameKeys d (JRef (length (heap s))) (s\<lparr>world := w, heap := heap s @ [block_object [] (JObj hdr) JUndef]\<rparr>)
      = Some (Inl (TypeError ''Cannot read properties of undefined (reading 'constructor')''),
          s\<lparr>world := w, heap := heap s @ [block_object [] (JObj hdr) JUndef]\<rparr>)"
    by (simp add: renameKeys_def)
  with both assms(1,2) asked show ?thesis
    by (intro exI [of _ w]) (simp add: getBlockByHeight_def combinePaginateBlock_def iocatch_def iobind_def request_def iothrow_def)
qed

definition limit_deps :: "nat deps" where
  "limit_deps = demo_deps\<lparr>lookupBlock_do := (\<lambda>n w. (Inl (Error max_transactions_message), w + 1))\<rparr>"

lemma demo_header_ok: "header_ok demo_deps (demo_header 5)"
proof -
  have "camel_ref ''toJSON'' = ''toJSON''" "camel_ref ''getTransactionsByGroup'' = ''getTransactionsByGroup''"
    by code_simp+
  then show ?thesis by (auto simp: header_ok_def demo_header_def camelCase_ok_def)
qed

lemma limit_includes: "js_includes max_transactions_message max_transactions_message"
  by code_simp

lemma limit_pages: "pages limit_deps h limit JUndef w [[demo_tx ''T1''], [demo_tx ''T2'']] (w + 3)"
proof -
  have "pages limit_deps h limit tok w xss w'" if "pages demo_deps h limit tok w xss w'" for tok w xss w'
    using that by induction (auto simp: limit_deps_def intro: pages.intros)
  then show ?thesis using demo_pages by blast
qed

lemma limit_node: "over_limit_node limit_deps (JNum 5) limit (demo_header 5) [[demo_tx ''T1''], [demo_tx ''T2'']]"
  using limit_pages [of "JNum 5"] demo_header_ok
  by (auto simp: over_limit_node_def header_ok_def limit_deps_def)

lemma limit_asked:
  assumes "header_and_pages_asked limit_deps (JNum 5) limit [[demo_tx ''T1''], [demo_tx ''T2'']] w w'"
  shows "w' = w + 4"
proof -
  let ?xss = "[[demo_tx ''T1''], [demo_tx ''T2'']]"
  have ends: "w2 = w + 3" if "pages limit_deps (JNum 5) limit JUndef w ?xss w2" for w2
  proof -
    let ?s = "(new_AlgorandApi w)\<lparr>paginationLimit := limit\<rparr>"
    have "paginatedTransactions limit_deps (JNum 5) JUndef ?s = Some (Inr (JArr (concat ?xss)), ?s\<lparr>world := w2\<rparr>)"
      by (rule paginatedTransactions_run) (use that in \<open>simp add: new_AlgorandApi_def\<close>)
    moreover have "paginatedTransactions limit_deps (JNum 5) JUndef ?s = Some (Inr (JArr (concat ?xss)), ?s\<lparr>world := w + 3\<rparr>)"
      by (rule paginatedTransactions_run) (use limit_pages in \<open>simp add: new_AlgorandApi_def\<close>)
    ultimately have "?s\<lparr>world := w2\<rparr> = ?s\<lparr>world := w + 3\<rparr>" by simp
    from arg_cong [OF this, of world] show ?thesis by simp
  qed
  have "next_settled limit_deps 2 w = (1, w)" "snd (lookupBlock_headerOnly_do limit_deps (JNum 5) w2) = w2 + 1" for w2
    by (simp_all add: limit_deps_def)
  with assms show ?thesis by (auto simp: header_and_pages_asked_def dest: ends)
qed

text \<open>The block, the header and three pages are asked for: five requests.\<close>

theorem getBlockByHeight_over_limit_throws_witness:
  "getBlockByHeight limit_deps (JNum 5) (new_AlgorandApi 0)
    = Some (Inl (TypeError ''Cannot read properties of undefined (reading 'constructor')''),
        (new_AlgorandApi 0)\<lparr>world := 5, heap := [block_object [] (JObj (demo_header 5)) JUndef]\<rparr>)"
proof -
  have "lookupBlock_do limit_deps (JNum 5) (world (new_AlgorandApi 0)) = (Inl (Error max_transactions_message), 1)"
    by (simp add: limit_deps_def new_AlgorandApi_def)
  from getBlockByHeight_over_limit_throws [OF this _ limit_node] limit_includes show ?thesis
    by (auto simp: demo_header_def new_AlgorandApi_def dest: limit_asked)
qed

text \<open>What a block of the client is renamed to: the functions and the empty list stay as they are.\<close>

lemma rename_header_block:
  assumes "header_ok d hdr" "deref H r = block_object [] (JObj hdr) (JArr [])"
  shows "camelCaseObjectKey (lodash_camelCase d) H (callStack d) (JRef r)
     = Inr (JObj (put_all (map (\<lambda>(k, u). (lodash_camelCase d k, camel_tree (lodash_camelCase d) u))
         (own_entries (block_object [] (JObj hdr) (JArr []))))))"
proof -
  let ?b = "block_object [] (JObj hdr) (JArr [])" and ?cc = "lodash_camelCase d"
  from assms(1) obtain n where n: "callStack d = Suc n" "0 < n" by (cases "callStack d") (auto simp: header_ok_def)
  have "camelCaseObjectKey ?cc H n (obj_get ?b k) = Inr (camel_tree ?cc u)"
    if "(k, u) \<in> set (own_entries ?b)" for k u
  proof -
    have "camelCaseObjectKey ?cc H n (JArr []) = Inr (JArr [])" using n(2) by (cases n) simp_all
    moreover have "obj_get ?b k = u \<and> (k = ''transactions'' \<and> u = JArr [] \<or> (\<exists>f. u = JFun f)
        \<or> (is_json u \<and> depth u < depth (JObj hdr)))"
      by (rule block_object_entries [OF _ that]) (use assms(1) in \<open>simp add: header_ok_def\<close>)
    ultimately show ?thesis
      using n(1) assms(1) renamed_fun [OF n(2)] renamed_entry [of u hdr n ?cc H]
      by (auto simp: header_ok_def)
  qed
  with rename_keys_Inr have
    "rename_keys ?cc (camelCaseObjectKey ?cc H n) ?b
      = Inr (JObj (put_all (map (\<lambda>(k, u). (?cc k, camel_tree ?cc u)) (own_entries ?b))))" by blast
  moreover have "\<not> obj_has ?b ''constructor''"
    using assms(1) by (simp add: block_object_has header_ok_def)
  ultimately show ?thesis using assms(2) n(1) by simp
qed

lemma renamed_header_get:
  assumes "header_ok d hdr" and b: "b = block_object [] (JObj hdr) (JArr [])"
    and k: "(k, k') \<in> {(''round'', ''round''), (''timestamp'', ''timestamp''), (''transactions'', ''transactions''),
        (''previous-block-hash'', ''previousBlockHash'')}" and has: "obj_has b k"
  shows "obj_get (put_all (map (\<lambda>(k, u). (lodash_camelCase d k, camel_tree (lodash_camelCase d) u))
      (own_entries b))) k' = camel_tree (lodash_camelCase d) (obj_get b k)"
proof -
  let ?cc = "lodash_camelCase d"
  have ok: "camelCase_ok ?cc ([(''toJSON'', JNull), (''getTransactionsByGroup'', JNull), (''transactions'', JNull)] @ hdr)"
    using assms(1) by (simp add: header_ok_def)
  then have cc: "?cc k = k'" using k by (auto simp: camelCase_ok_def)
  have "j = k" if "obj_has b j" "?cc j = ?cc k" for j
  proof -
    have "obj_has ([(''toJSON'', JNull), (''getTransactionsByGroup'', JNull), (''transactions'', JNull)] @ hdr) j"
      using that(1) by (auto simp: b block_object_has)
    then show ?thesis using bspec [OF ok [unfolded camelCase_ok_def] k] cc that(2) by blast
  qed
  from obj_get_rename [of b ?cc k "camel_tree ?cc", OF this has] cc show ?thesis by simp
qed

text \<open>
  C15. On a node that answers the same throughout, a block over the transaction limit whose header-only
  reply has an empty list of transactions is put together from the header and all its pages: the round and the previous hash of
  the header, the renamed transactions of the pages in their order, each referring to the new block.
\<close>

theorem getBlockByHeight_over_limit:
  assumes "lookupBlock_do d h (world s) = (Inl e, w1)" "js_includes (emessage e) max_transactions_message"
    and "over_limit_node d h (paginationLimit s) hdr xss"
    and "obj_get hdr ''transactions'' = JArr []" "obj_get hdr ''round'' = JNum n"
    and "obj_get hdr ''previous-block-hash'' = JStr p"
    and "\<forall>tx \<in> set (concat xss). is_json tx" "depth (JArr (concat xss)) \<le> callStack d"
  shows "\<exists>b s'. getBlockByHeight d h s = Some (Inr b, s')
     \<and> obj_get (deref (heap s') b) ''round'' = JNum n
     \<and> obj_get (deref (heap s') b) ''previousBlockHash'' = JStr p
     \<and> obj_get (deref (heap s') b) ''transactions''
         = JArr (map (\<lambda>tx. tx_object [] b (camel_tree (lodash_camelCase d) tx)) (concat xss))"
proof -
  let ?cc = "lodash_camelCase d" and ?r = "length (heap s)"
  let ?b = "block_object [] (JObj hdr) (JArr [])"
  obtain w where both: "ioboth (settles d) (getHeaderOnly d h) (paginatedTransactions d h JUndef) (s\<lparr>world := w1\<rparr>)
     = Some (Inr (?r, JArr (concat xss)), s\<lparr>world := w, heap := heap s @ [?b]\<rparr>)"
    using header_and_pages [of d h "s\<lparr>world := w1\<rparr>" hdr xss "JArr []"] assms(3,4) by auto
  have ok: "header_ok d hdr" using assms(3) by (simp add: over_limit_node_def)
  let ?v = "s\<lparr>world := w, heap := heap s @ [?b]\<rparr>"
  let ?hd = "put_all (map (\<lambda>(k, u). (?cc k, camel_tree ?cc u)) (own_entries ?b))"
  let ?txs = "map (camel_tree ?cc) (concat xss)"
  let ?new = "obj_put (spread_into [] (own_entries ?hd)) ''transactions'' (JArr ?txs)"
  let ?all = "JArr (map (tx_object (heap s @ [?b]) (Suc ?r)) ?txs)"
  have r1: "renameKeys d (JRef ?r) ?v = Some (Inr (JObj ?hd), ?v)"
    using rename_header_block [OF ok, of "heap s @ [?b]" ?r] by (simp add: renameKeys_def)
  have r2: "renameKeys d (JArr (concat xss)) ?v = Some (Inr (JArr ?txs), ?v)"
    using camelCaseObjectKey_tree [OF _ assms(8), of ?cc "heap ?v"] assms(7)
    by (simp add: renameKeys_def list_all_iff)
  define B where "B = block_object (heap ?v) (JObj ?new) ?all"
  have c: "constructBlock (JObj ?new) ?v = Some (Inr (Suc ?r), ?v\<lparr>heap := (heap s @ [?b]) @ [B]\<rparr>)"
    by (simp add: constructBlock_def Let_def B_def)
  have "obj_has hdr ''round''" "obj_has hdr ''previous-block-hash''"
    using assms(5,6) obj_get_absent by force+
  then have "obj_get ?hd ''round'' = JNum n" "obj_get ?hd ''previousBlockHash'' = JStr p"
    using renamed_header_get [OF ok refl, of "''round''" "''round''"]
      renamed_header_get [OF ok refl, of "''previous-block-hash''" "''previousBlockHash''"] assms(5,6)
    by (simp_all add: block_object_get block_object_has)
  then have get: "obj_get B ''round'' = JNum n" "obj_get B ''previousBlockHash'' = JStr p"
    by (auto simp: B_def block_object_get simp del: obj_get_spread)
  have "?all = JArr (map (\<lambda>tx. tx_object [] (Suc ?r) (camel_tree ?cc tx)) (concat xss))"
    using assms(7) tx_object_heap [of _ "heap s @ [?b]"] by simp
  then have txs: "obj_get B ''transactions''
      = JArr (map (\<lambda>tx. tx_object [] (Suc ?r) (camel_tree ?cc tx)) (concat xss))"
    by (simp only: B_def block_object_get simp_thms if_True)
  have run: "getBlockByHeight d h s = Some (Inr (Suc ?r), ?v\<lparr>heap := (heap s @ [?b]) @ [B]\<rparr>)"
    using both r1 r2 c assms(1,2)
    by (simp add: getBlockByHeight_def combinePaginateBlock_def iocatch_def iobind_def request_def)
  have at: "deref (heap s @ [?b, B]) (Suc ?r) = B"
    using deref_last [of "heap s @ [?b]" B] by simp
  show ?thesis
    by (intro exI [of _ "Suc ?r"] exI conjI, rule run) (simp_all add: at get txs)
qed

definition empty_header_deps :: "nat deps" where
  "empty_header_deps = limit_deps\<lparr>lookupBlock_headerOnly_do := (\<lambda>n w. (Inr (JObj (demo_header 5 @ [(''transactions'', JArr [])])), w + 1))\<rparr>"

theorem getBlockByHeight_over_limit_witness:
  "\<exists>b s'. getBlockByHeight empty_header_deps (JNum 5) (new_AlgorandApi 0) = Some (Inr b, s')
     \<and> obj_get (deref (heap s') b) ''transactions''
       = JArr (map (\<lambda>tx. tx_object [] b (camel_tree camel_ref tx)) [demo_tx ''T1'', demo_tx ''T2''])"
proof -
  have hdr: "header_ok empty_header_deps (demo_header 5 @ [(''transactions'', JArr [])])"
    using demo_header_ok
    by (auto simp: header_ok_def empty_header_deps_def limit_deps_def demo_header_def camelCase_ok_def)
  have "pages empty_header_deps h limit tok w xss w'" if "pages limit_deps h limit tok w xss w'" for h limit tok w xss w'
    using that by induction (auto simp: empty_header_deps_def intro: pages.intros)
  then have "pages empty_header_deps (JNum 5) limit JUndef w [[demo_tx ''T1''], [demo_tx ''T2'']] (w + 3)" for limit w
    using limit_pages by blast
  with hdr have "over_limit_node empty_header_deps (JNum 5) limit (demo_header 5 @ [(''transactions'', JArr [])])
      [[demo_tx ''T1''], [demo_tx ''T2'']]" for limit
    unfolding over_limit_node_def by (auto simp: empty_header_deps_def)
  note node = this [of "paginationLimit (new_AlgorandApi (0::nat))"]
  have "\<exists>b s'. getBlockByHeight empty_header_deps (JNum 5) (new_AlgorandApi (0::nat)) = Some (Inr b, s')
     \<and> obj_get (deref (heap s') b) ''round'' = JNum 5
     \<and> obj_get (deref (heap s') b) ''previousBlockHash'' = JStr (demo_hash 4)
     \<and> obj_get (deref (heap s') b) ''transactions''
         = JArr (map (\<lambda>tx. tx_object [] b (camel_tree (lodash_camelCase empty_header_deps) tx))
             (concat [[demo_tx ''T1''], [demo_tx ''T2'']]))"
  proof (rule getBlockByHeight_over_limit [OF _ _ node])
    show "lookupBlock_do empty_header_deps (JNum 5) (world (new_AlgorandApi 0)) = (Inl (Error max_transactions_message), 1)"
      by (simp_all add: empty_header_deps_def limit_deps_def new_AlgorandApi_def)
  qed (simp_all add: limit_includes empty_header_deps_def limit_deps_def demo_header_def demo_tx_def)
  then show ?thesis by (auto simp: empty_header_deps_def limit_deps_def)
qed

end
