(* ===== verification/ApiSafe.thy ===== *)
theory ApiSafe
  imports ApiProps
begin

text \<open>
  The blocks of the client as project code sees them: \<open>JSON.stringify\<close> of a block and of its
  transactions, which refer back to it, the safe API, and the identity of the chain.
\<close>

section \<open>The order of the properties of a block\<close>

lemma obj_put_new: "\<not> obj_has ob k \<Longrightarrow> obj_put ob k v = ob @ [(k, v)]"
  by (induction ob) (auto simp: obj_put_def)

lemma obj_put_old: "obj_has xs k \<Longrightarrow> obj_put (xs @ ys) k v = obj_put xs k v @ ys"
  by (induction xs) (auto simp: obj_put_def)

lemma obj_put_keys: "obj_has ob k \<Longrightarrow> map fst (obj_put ob k v) = map fst ob"
  by (induction ob) (auto simp: obj_put_def)

lemma spread_into_Nil: "spread_into [] ob = own_entries ob"
proof -
  have "fold (\<lambda>(k, v) a. obj_put a k v) es z = z @ es"
    if "distinct (map fst (z @ es))" for es and z :: jsobj
    using that
  proof (induction es arbitrary: z)
    case (Cons e es)
    obtain k v where e: "e = (k, v)" by (cases e)
    with Cons.prems have "\<not> obj_has z k" by (auto simp: obj_has_keys)
    then have "obj_put z k v = z @ [(k, v)]" by (rule obj_put_new)
    with Cons e show ?case by simp
  qed simp
  from this [of "[]" "own_entries ob"] show ?thesis
    by (simp add: spread_into_def distinct_own_entries)
qed

lemma map_fst_insort: "map fst (insort_key (\<lambda>x. f (fst x)) x ys) = insort_key f (fst x) (map fst ys)"
  by (induction ys) auto

lemma map_fst_sort: "map fst (sort_key (\<lambda>x. f (fst x)) xs) = sort_key f (map fst xs)"
  by (induction xs) (simp_all add: map_fst_insort)

lemma keys_own_entries:
  "distinct (map fst ob) \<Longrightarrow> map fst (own_entries ob)
     = sort_key digits_val (filter is_index (map fst ob)) @ filter (\<lambda>k. \<not> is_index k) (map fst ob)"
  by (simp add: own_entries_def distinct_clearjunk_id map_fst_sort filter_map comp_def case_prod_beta')

lemma alist_of_keys: "distinct (map fst xs) \<Longrightarrow> map (\<lambda>k. (k, the (map_of xs k))) (map fst xs) = xs"
  by (auto intro!: map_idI)

lemma own_entries_of_keys: "distinct (map fst ob) \<Longrightarrow> map fst (own_entries ob) = map fst ob \<Longrightarrow> own_entries ob = ob"
  using alist_of_keys [of ob] alist_of_keys [OF distinct_own_entries, of ob]
  by (simp add: map_of_own_entries)

lemma own_entries_same_keys:
  assumes "distinct (map fst a)" "map fst b = map fst a" "own_entries a = a"
  shows "own_entries b = b"
proof (rule own_entries_of_keys)
  show "distinct (map fst b)" using assms by simp
  then show "map fst (own_entries b) = map fst b"
    using keys_own_entries [of a] keys_own_entries [of b] assms by simp
qed

lemma filter_own_entries:
  "distinct (map fst ob) \<Longrightarrow> filter (\<lambda>(k, v). P k) (own_entries ob) = own_entries (filter (\<lambda>(k, v). P k) ob)"
proof -
  assume d: "distinct (map fst ob)"
  then have "distinct (map fst (filter (\<lambda>(k, v). P k) ob))" by (simp add: distinct_map_filter)
  with d show ?thesis
    by (simp add: own_entries_def distinct_clearjunk_id filter_sort conj_commute case_prod_beta')
qed

section \<open>\<open>JSON.stringify\<close>\<close>

text \<open>lodash's \<open>omit\<close> of plain keys copies the other own properties, in their order.\<close>

definition omit_ok :: "'w deps \<Rightarrow> bool" where
  "omit_ok d \<longleftrightarrow> (\<forall>ob ks. lodash_omit d ob ks = filter (\<lambda>(k, v). k \<notin> set ks) (own_entries ob))"

text \<open>A reply the serialiser can print: a JSON tree in JavaScript's order with an array of transactions,
  none of whose keys is one the client adds.\<close>

definition printable_tx :: "jsval \<Rightarrow> bool" where
  "printable_tx tx \<longleftrightarrow> (\<exists>ob. tx = JObj ob \<and> is_json tx \<and> ordered_json tx
     \<and> \<not> obj_has ob ''block'' \<and> \<not> obj_has ob ''toJSON'')"

definition printable :: "jsobj \<Rightarrow> jsval list \<Rightarrow> bool" where
  "printable ob txs \<longleftrightarrow> is_json (JObj ob) \<and> ordered_json (JObj ob)
     \<and> \<not> obj_has ob ''getTransactionsByGroup'' \<and> \<not> obj_has ob ''toJSON''
     \<and> obj_get ob ''transactions'' = JArr txs \<and> (\<forall>tx \<in> set txs. printable_tx tx)"

lemma json_ser_toJSON:
  "apply_toJSON tj H v = w \<Longrightarrow> apply_toJSON tj H w = w \<Longrightarrow> json_ser tj H n seen v = json_ser tj H n seen w"
  by (cases n) simp_all

lemma omit_new:
  assumes "omit_ok d" "own_entries ob = ob" "distinct (map fst ob)" "\<not> obj_has ob k" "\<not> obj_has ob k'" "k \<noteq> k'"
  shows "lodash_omit d (ob @ [(k, v), (k', v')]) [k, k'] = ob"
proof -
  have d: "distinct (map fst (ob @ [(k, v), (k', v')]))"
    using assms(3-6) by (auto simp: obj_has_keys)
  have "filter (\<lambda>(j, u). j \<notin> {k, k'}) ob = ob"
    using assms(4,5) by (force simp: filter_id_conv obj_has_keys)
  with filter_own_entries [OF d, of "\<lambda>j. j \<notin> {k, k'}"] assms(1,2) show ?thesis
    by (simp add: omit_ok_def)
qed

lemma distinct_keys_json: "is_json (JObj ob) \<Longrightarrow> distinct (map fst ob)"
  by simp

lemma tx_object_toJSON:
  assumes "omit_ok d" "printable_tx tx"
  shows "apply_toJSON (run_toJSON d) H (tx_object [] r tx) = tx"
proof -
  from assms(2) obtain ob where ob: "tx = JObj ob" "is_json (JObj ob)" "own_entries ob = ob"
    "\<not> obj_has ob ''block''" "\<not> obj_has ob ''toJSON''" by (auto simp: printable_tx_def)
  then have "tx_object [] r tx = JObj (ob @ [(''block'', JRef r), (''toJSON'', JFun TxToJSON)])"
    by (simp add: tx_object_def spread_into_Nil obj_put_new obj_has_append)
  moreover have "obj_get (ob @ [(''block'', JRef r), (''toJSON'', JFun TxToJSON)]) ''toJSON'' = JFun TxToJSON"
    using ob(5) by (simp add: obj_get_append)
  ultimately show ?thesis
    using omit_new [OF assms(1) ob(3) distinct_keys_json [OF ob(2)] ob(4,5), of "JRef r" "JFun TxToJSON"] ob(1)
    by (simp add: apply_toJSON_def)
qed

lemma json_ser_tx:
  assumes "omit_ok d" "printable_tx tx" "depth tx \<le> n"
  shows "json_ser (run_toJSON d) H n seen (tx_object [] r tx) = Inr (Some (json_text tx))"
proof -
  have tx: "is_json tx" "ordered_json tx" using assms(2) by (auto simp: printable_tx_def)
  have "json_ser (run_toJSON d) H n seen (tx_object [] r tx) = json_ser (run_toJSON d) H n seen tx"
    by (rule json_ser_toJSON) (simp_all add: tx_object_toJSON [OF assms(1,2)] apply_toJSON_json tx)
  then show ?thesis using json_ser_tree [OF tx assms(3)] by simp
qed

lemma block_object_toJSON:
  assumes "omit_ok d" "printable ob txs" and X: "X = JArr (map (tx_object [] r) txs)"
  shows "run_toJSON d BlockToJSON (block_object [] (JObj ob) X) = JObj (obj_put ob ''transactions'' X)"
proof -
  let ?f = "JFun (GetTransactionsByGroup X)" and ?ob = "obj_put ob ''transactions'' X"
  have ob: "distinct (map fst ob)" "own_entries ob = ob" "\<not> obj_has ob ''getTransactionsByGroup''"
    "\<not> obj_has ob ''toJSON''" and "obj_get ob ''transactions'' = JArr txs"
    using assms(2) by (simp_all add: printable_def)
  then have has: "obj_has ob ''transactions''" by (metis jsval.distinct(11) obj_get_absent)
  have B: "block_object [] (JObj ob) X
      = ?ob @ [(''getTransactionsByGroup'', ?f), (''toJSON'', JFun BlockToJSON)]"
    using ob has by (simp add: block_object_def spread_into_Nil obj_put_new obj_put_old obj_has_append)
  have "own_entries ?ob = ?ob" "distinct (map fst ?ob)"
    using own_entries_same_keys [OF ob(1) obj_put_keys [OF has] ob(2)] ob(1) obj_put_keys [OF has] by simp_all
  from omit_new [OF assms(1) this, of "''getTransactionsByGroup''" "''toJSON''" ?f "JFun BlockToJSON"] ob(3,4)
  show ?thesis by (simp add: B)
qed

text \<open>
  C12. \<open>JSON.stringify\<close> of a block the client built never meets the cycle between a block and its
  transactions, whatever the depth of the call stack is beyond the reply's: it gives the very text of
  the reply the block was built from.
\<close>

theorem stringify_block:
  assumes "omit_ok d" "printable ob txs" "depth (JObj ob) \<le> callStack d"
    and "deref H r = block_object [] (JObj ob) (JArr (map (tx_object [] r) txs))"
  shows "JSON_stringify d H (JRef r) = Inr (Some (json_text (JObj ob)))"
proof -
  let ?X = "JArr (map (tx_object [] r) txs)" and ?tj = "run_toJSON d"
  let ?ob = "obj_put ob ''transactions'' ?X"
  have ob: "is_json (JObj ob)" "distinct (map fst ob)" "own_entries ob = ob" "list_all (\<lambda>(k, v). ordered_json v) ob"
    "obj_get ob ''transactions'' = JArr txs"
    and txs: "\<forall>tx \<in> set txs. printable_tx tx" using assms(2) by (simp_all add: printable_def)
  then have has: "obj_has ob ''transactions''" by (metis jsval.distinct(11) obj_get_absent)
  have own: "own_entries ?ob = ?ob"
    using own_entries_same_keys [OF ob(2) obj_put_keys [OF has] ob(3)] .
  obtain n where n: "callStack d = Suc n" using assms(3) by (cases "callStack d") auto
  have toJ: "apply_toJSON ?tj H (JRef r) = JObj ?ob"
    using block_object_toJSON [OF assms(1,2) refl, of r] by (simp add: apply_toJSON_def assms(4) block_object_get)
  have field: "json_ser ?tj H n [] (obj_get ?ob k) = Inr (Some (json_text u))" if "(k, u) \<in> set ob" for k u
  proof -
    have u: "obj_get ob k = u" using that ob(2) by (simp add: obj_get_def)
    have json: "is_json u" "ordered_json u" using ob(1,4) that by (auto simp: list_all_iff)
    have dep: "depth u \<le> n" using depth_field [OF that] assms(3) n by simp
    show ?thesis
    proof (cases "k = ''transactions''")
      case False
      then show ?thesis using json_ser_tree [OF json dep] u by simp
    next
      case True
      with u ob(5) have ut: "u = JArr txs" by simp
      obtain m where m: "n = Suc m" using dep ut by (cases n) auto
      have "depth tx \<le> m" if "tx \<in> set txs" for tx
        using depth_elem [OF that] dep ut m by simp
      then have "mapR (json_ser ?tj H m []) (map (tx_object [] r) txs) = Inr (map (\<lambda>tx. Some (json_text tx)) txs)"
        using txs json_ser_tx [OF assms(1)] by (simp add: mapR_Inr_iff list_all2_conv_all_nth)
      with True m ut show ?thesis
        by (simp add: apply_toJSON_def json_elements_def comp_def)
    qed
  qed
  have keys: "map fst ?ob = map fst ob" by (rule obj_put_keys [OF has])
  have "mapR (\<lambda>(k, u). bindR (json_ser ?tj H n [] u) (\<lambda>t. Inr (k, t))) ?ob
      = Inr (map (\<lambda>(k, u). (k, Some (json_text u))) ob)"
    unfolding mapR_Inr_iff
  proof (rule list_all2_nthI)
    show "length ?ob = length (map (\<lambda>(k, u). (k, Some (json_text u))) ob)" using keys by (metis length_map)
    fix i assume i: "i < length ?ob"
    obtain k v where kv: "?ob ! i = (k, v)" by (cases "?ob ! i")
    have l: "length ?ob = length ob" using keys by (metis length_map)
    obtain k' u where ku: "ob ! i = (k', u)" by (cases "ob ! i")
    have "k' = k" using keys kv ku i l by (metis fst_conv nth_map)
    moreover have "v = obj_get ?ob k"
      using kv i keys ob(2) by (metis map_of_eq_Some_iff nth_mem obj_get_def option.simps(5))
    moreover have "(k', u) \<in> set ob" using ku i l by (metis nth_mem)
    ultimately show "(case ?ob ! i of (k, u) \<Rightarrow> bindR (json_ser ?tj H n [] u) (\<lambda>t. Inr (k, t)))
        = Inr (map (\<lambda>(k, u). (k, Some (json_text u))) ob ! i)"
      using field [of k u] kv ku i l by simp
  qed
  moreover have "json_members (map (\<lambda>(k, u). (k, Some (json_text u))) ob) = json_text (JObj ob)"
    by (simp add: json_members_def List.map_filter_def comp_def case_prod_beta')
  ultimately show ?thesis
    unfolding JSON_stringify_def n using toJ own by simp
qed

definition demo_reply :: jsobj where
  "demo_reply = [(''round'', JNum 5), (''transactions'', JArr [JObj [(''id'', JStr ''T1'')]])]"

lemma demo_omit_ok: "omit_ok demo_deps"
  by (simp add: omit_ok_def demo_deps_def)

theorem stringify_block_witness:
  "JSON_stringify demo_deps [block_object [] (JObj demo_reply) (JArr [tx_object [] 0 (JObj [(''id'', JStr ''T1'')])])] (JRef 0)
     = Inr (Some (json_text (JObj demo_reply)))"
proof -
  have i: "own_entries demo_reply = demo_reply" "own_entries [(''id'', JStr ''T1'')] = [(''id'', JStr ''T1'')]"
    by code_simp+
  have "printable demo_reply [JObj [(''id'', JStr ''T1'')]]"
    using i by (simp add: printable_def printable_tx_def) (simp add: demo_reply_def i(2))
  from stringify_block [OF demo_omit_ok this] show ?thesis
    by (simp add: demo_reply_def deref_def)
qed

section \<open>The safe API\<close>

lemma safe_getBlock_run:
  assumes "serves d C lastRound" "0 \<le> n" "n \<le> lastRound"
  shows "safe_getBlock d (getSafeApi (JNum n)) s =
      Some (if n = 0 then Inl (Error ''ERROR: failed to get block from safe api service.'')
            else Inr (length (heap s)),
        s\<lparr>heap := heap s @ [chain_block d C (length (heap s)) n], world := snd (lookupBlock_do d (JNum n) (world s))\<rparr>)"
proof -
  have "obj_get (chain_block d C (length (heap s)) n) ''round'' = JNum n"
    using chain_block_of [of d C n "length (heap s)"] assms by (simp add: serves_def block_of_def)
  with getBlockByHeight_run [OF assms, of s] show ?thesis
    by (auto simp: safe_getBlock_def getSafeApi_def iocatch_def iobind_def readBlock_def iothrow_def ioret_def)
qed

text \<open>
  C26. The block handed to project code is the block of its height, for every height of the chain but
  0: the round 0 counts as missing, so a project at the genesis block gets the error instead.
\<close>

theorem safe_getBlock_chain:
  assumes "serves d C lastRound" "0 \<le> n" "n \<le> lastRound"
  shows "\<exists>s'. safe_getBlock d (getSafeApi (JNum n)) s =
      Some (if n = 0 then Inl (Error ''ERROR: failed to get block from safe api service.'')
            else Inr (length (heap s)), s')
    \<and> block_of d C (length (heap s)) n (deref (heap s') (length (heap s)))"
  using assms by (simp add: safe_getBlock_run [OF assms] chain_block_of serves_def)

theorem safe_getBlock_chain_witness:
  "\<exists>s'. safe_getBlock demo_deps (getSafeApi (JNum 0)) (new_AlgorandApi 0)
     = Some (Inl (Error ''ERROR: failed to get block from safe api service.''), s')"
  using safe_getBlock_chain [OF demo_serves, of 0 "new_AlgorandApi 0"] by auto

text \<open>
  Whatever fails below, the safe API rejects with its own two errors and no other, and the
  transactions it hands out are an array of the block just fetched, or there are none to hand out.
\<close>

lemma safe_api_errors:
  "(safe_getBlock d this s = Some (Inl e, s') \<longrightarrow> e = Error ''ERROR: failed to get block from safe api service.'')
   \<and> (safe_getTxns d this s = Some (Inl e, s') \<longrightarrow> e = Error ''ERROR: failed to get transactions from safe api service.'')"
  by (auto simp: safe_getBlock_def safe_getTxns_def iocatch_def iobind_def iothrow_def
      split: option.splits prod.splits sum.splits)

lemma safe_api_errors_demo:
  "\<exists>e s'. safe_getBlock demo_deps (getSafeApi (JNum 101)) (new_AlgorandApi 0) = Some (Inl e, s')
     \<and> e = Error ''ERROR: failed to get block from safe api service.''"
proof -
  obtain e s' where "safe_getBlock demo_deps (getSafeApi (JNum 101)) (new_AlgorandApi (0::nat)) = Some (Inl e, s')"
    using demo_missing [of "new_AlgorandApi 0"]
    by (auto simp: safe_getBlock_def getSafeApi_def iocatch_def iobind_def iothrow_def)
  with safe_api_errors [of demo_deps "getSafeApi (JNum 101)" "new_AlgorandApi 0" e s'] show ?thesis by blast
qed

section \<open>The chain of an endpoint\<close>

text \<open>
  A client is the client of the chain its endpoint's first block names: \<open>getChainId\<close> and
  \<open>getGenesisHash\<close> answer with that block's ids, and for a block without an id they fail when asked,
  not when the client is made.
\<close>

lemma create_ids:
  assumes "indexer_config url_port endpoint config = Inr c"
    and "lookupBlock_do (Indexer c) (JNum 1) w = (Inr (JObj b), w')"
  shows "\<exists>s. create Indexer url_port endpoint config w = Inr s \<and> heap s = [] \<and> blockCache s = [] \<and> paginationLimit s = 10000 \<and> world s = w'
    \<and> getGenesisHash s = (if truthy (obj_get b ''genesis-hash'') then Inr (obj_get b ''genesis-hash'')
        else Inl (AssertionError ''genesisHash not initialized''))
    \<and> getChainId s = (if truthy (obj_get b ''genesis-id'') then Inr (obj_get b ''genesis-id'')
        else Inl (AssertionError ''chain not initialized''))"
  using assms by (auto simp: create_def readGenesis_def new_AlgorandApi_def getGenesisHash_def getChainId_def js_default_def)

lemma create_ids_demo:
  "\<exists>s. create (\<lambda>_. demo_deps) (\<lambda>_. Inr ''443'') ''https://node'' (JObj []) 0 = Inr s
     \<and> getGenesisHash s = Inr (JStr ''wGHE'') \<and> getChainId s = Inr (JStr ''mainnet-v1.0'')"
  using create_ids [OF demo_config, of "\<lambda>_. demo_deps" 0 "demo_block 1" 1] by (auto simp: demo_block_def)

text \<open>
  The configuration of the indexer: the token of the headers, or an empty one, and the port of the
  endpoint. An endpoint that is no URL makes no client, and no request is sent.
\<close>

lemma indexer_config_value:
  "url_port endpoint = Inr port \<Longrightarrow> indexer_config url_port endpoint (JObj [(''headers'', JObj hs)])
     = Inr \<lparr>ix_token = js_default (obj_get hs ''X-Indexer-API-Token'') (JStr []), ix_server = endpoint,
         ix_port = port, ix_headers = JObj hs\<rparr>"
  by (simp add: indexer_config_def Let_def)

lemma create_bad_url:
  "url_port endpoint = Inl e \<Longrightarrow> create Indexer url_port endpoint (JObj cfg) w = Inl e"
  by (simp add: create_def indexer_config_def Let_def)

end
