(* ===== verification/Connection.thy ===== *)
theory Connection
  imports ApiSafe
begin

text \<open>
  A connection to one endpoint, \<^verbatim>\<open>packages/node/src/algorand/api.connection.ts\<close>, and the
  service over the connections, \<^verbatim>\<open>packages/node/src/algorand/api.service.algorand.ts\<close>: how
  an error of the endpoint is classified, and which endpoints a project accepts. node-core's
  \<open>ApiConnectionError\<close> and \<open>MetadataMismatchError\<close> are their constructor arguments, and its
  \<open>createConnections\<close> is a parameter.
\<close>

section \<open>Errors of an endpoint\<close>

datatype ApiErrorType = TimeoutType | ConnectionType | RateLimitType | DefaultType

record ApiConnectionError =
  ce_name :: string
  ce_message :: string
  ce_errorType :: ApiErrorType

definition handleRateLimitError :: "js_error \<Rightarrow> ApiConnectionError" where
  "handleRateLimitError e = \<lparr>ce_name = ''RateLimit'', ce_message = emessage e, ce_errorType = RateLimitType\<rparr>"

definition handleTimeoutError :: "js_error \<Rightarrow> ApiConnectionError" where
  "handleTimeoutError e = \<lparr>ce_name = ''TimeoutError'', ce_message = emessage e, ce_errorType = TimeoutType\<rparr>"

definition handleDisconnectionError :: "js_error \<Rightarrow> ApiConnectionError" where
  "handleDisconnectionError e = \<lparr>ce_name = ''ConnectionError'', ce_message = emessage e, ce_errorType = ConnectionType\<rparr>"

definition oversized_message :: string where
  "oversized_message = ''Oversized RPC node response. This issue is related to the network''
     @ [CHR 0x27] @ ''s RPC nodes configuration, not your application. You may report it to the network''
     @ [CHR 0x27] @ ''s maintainers or try a different RPC node.'' @ [CHR 0x0A, CHR 0x0A]"

definition handleLargeResponseError :: "js_error \<Rightarrow> ApiConnectionError" where
  "handleLargeResponseError e = \<lparr>ce_name = ''RpcInternalError'',
     ce_message = oversized_message @ emessage e, ce_errorType = DefaultType\<rparr>"

definition handleError :: "js_error \<Rightarrow> ApiConnectionError" where
  "handleError e =
     (if js_includes (emessage e) ''Socket connection timeout'' then handleTimeoutError e
      else if js_startsWith (emessage e) ''disconnected from '' then handleDisconnectionError e
      else if js_startsWith (emessage e) ''Rate Limited at endpoint'' \<or> estatus e = Some 429
      then handleRateLimitError e
      else if js_includes (emessage e) ''Exceeded max limit of'' then handleLargeResponseError e
      else \<lparr>ce_name = ename e, ce_message = emessage e, ce_errorType = DefaultType\<rparr>)"

section \<open>A connection\<close>

record NetworkMetadataPayload =
  nm_chain :: jsval
  nm_genesisHash :: jsval
  nm_specName :: string

text \<open>The connection owns its client and fetches batches with the function it was made with.\<close>

record 'w AlgorandApiConnection =
  unsafeApi :: "'w AlgorandApi"
  networkMeta :: NetworkMetadataPayload

type_synonym 'w FetchFunc = "int list \<Rightarrow> ('w, IBlock list) api"

definition new_AlgorandApiConnection :: "'w AlgorandApi \<Rightarrow> 'w AlgorandApiConnection res" where
  "new_AlgorandApiConnection s =
     bindR (getChainId s) (\<lambda>chain. bindR (getGenesisHash s) (\<lambda>genesisHash.
       Inr \<lparr>unsafeApi = s, networkMeta =
         \<lparr>nm_chain = chain, nm_genesisHash = genesisHash, nm_specName = ''algorand''\<rparr>\<rparr>))"

definition connection_create :: "(indexer_config \<Rightarrow> 'w deps) \<Rightarrow> (string \<Rightarrow> string res) \<Rightarrow> string \<Rightarrow> jsval \<Rightarrow> 'w
    \<Rightarrow> 'w AlgorandApiConnection res" where
  "connection_create Indexer url_port endpoint config w =
     bindR (create Indexer url_port endpoint config w) new_AlgorandApiConnection"

definition connection_fetchBlocks :: "'w FetchFunc \<Rightarrow> int list \<Rightarrow> 'w AlgorandApiConnection
    \<Rightarrow> (IBlock list res \<times> 'w AlgorandApiConnection) option" where
  "connection_fetchBlocks fetchBlocksBatches heights c =
     map_option (\<lambda>(r, s). (r, c\<lparr>unsafeApi := s\<rparr>)) (fetchBlocksBatches heights (unsafeApi c))"

definition safeApi :: "'w AlgorandApiConnection \<Rightarrow> jsval \<Rightarrow> SafeAPIService" where
  "safeApi c height = getSafeApi height"

definition apiConnect :: "'w AlgorandApiConnection \<Rightarrow> (unit res \<times> 'w AlgorandApiConnection) option" where
  "apiConnect = ioret ()"

definition apiDisconnect :: "'w AlgorandApiConnection \<Rightarrow> (unit res \<times> 'w AlgorandApiConnection) option" where
  "apiDisconnect = ioret ()"

section \<open>The service\<close>

definition fetchBlockBatches :: "'w deps \<Rightarrow> 'w FetchFunc" where
  "fetchBlockBatches d blocks = fetchBlocks d blocks"

datatype MetadataMismatchError = MetadataMismatchError string string jsval

definition assertChainId :: "string \<Rightarrow> 'w AlgorandApiConnection \<Rightarrow> MetadataMismatchError + unit" where
  "assertChainId chainId c =
     (if \<not> strict_eq (JStr chainId) (nm_genesisHash (networkMeta c))
      then Inl (MetadataMismatchError ''ChainId'' chainId (nm_genesisHash (networkMeta c)))
      else Inr ())"

text \<open>\<open>init\<close>: node-core's \<open>createConnections\<close> is told how to make a connection, and a failure of it ends
  the process.\<close>

datatype init_result = ApiService | ExitWithError string

definition init :: "((string \<Rightarrow> jsval \<Rightarrow> 'w \<Rightarrow> 'w AlgorandApiConnection res) \<Rightarrow> 'e + unit)
    \<Rightarrow> (indexer_config \<Rightarrow> 'w deps) \<Rightarrow> (string \<Rightarrow> string res) \<Rightarrow> init_result" where
  "init createConnections Indexer url_port = (case createConnections (connection_create Indexer url_port) of
     Inl e \<Rightarrow> ExitWithError ''Failed to init api''
   | Inr _ \<Rightarrow> ApiService)"

section \<open>Properties\<close>

lemma js_includes_append: "js_includes (p @ s) s"
  using js_includes_iff [of "p @ s" s] by (metis append_Nil2)

text \<open>
  C27. The classification of an endpoint's error: a timeout is a timeout whatever else the message or
  the status say; a rate limit is one only when it is neither a timeout nor a disconnection; every
  other error keeps its name, but for an oversized response. No classification loses the message.
\<close>

theorem handleError_classifies:
  "(ce_errorType (handleError e) = TimeoutType \<longleftrightarrow> js_includes (emessage e) ''Socket connection timeout'') \<and>
   (ce_errorType (handleError e) = ConnectionType \<longleftrightarrow>
      js_startsWith (emessage e) ''disconnected from '' \<and> \<not> js_includes (emessage e) ''Socket connection timeout'') \<and>
   (ce_errorType (handleError e) = RateLimitType \<longleftrightarrow>
      (js_startsWith (emessage e) ''Rate Limited at endpoint'' \<or> estatus e = Some 429)
      \<and> \<not> js_includes (emessage e) ''Socket connection timeout'' \<and> \<not> js_startsWith (emessage e) ''disconnected from '') \<and>
   (ce_errorType (handleError e) = DefaultType \<and> ce_name (handleError e) \<noteq> ename e \<longrightarrow>
      ce_name (handleError e) = ''RpcInternalError'' \<and> js_includes (emessage e) ''Exceeded max limit of'') \<and>
   js_includes (ce_message (handleError e)) (emessage e) \<and>
   (ce_errorType (handleError e) \<noteq> DefaultType \<longrightarrow> ce_message (handleError e) = emessage e)"
  using js_includes_append [of "[]" "emessage e"] js_includes_append [of oversized_message "emessage e"]
  by (simp add: handleError_def handleTimeoutError_def handleDisconnectionError_def handleRateLimitError_def
      handleLargeResponseError_def)

theorem handleError_classifies_witness:
  "ce_errorType (handleError ((Error ''Exceeded max limit of 10'')\<lparr>estatus := Some 429\<rparr>)) = RateLimitType"
  using handleError_classifies [of "(Error ''Exceeded max limit of 10'')\<lparr>estatus := Some 429\<rparr>"]
  by (simp add: Error_def)

text \<open>
  C28. A project accepts an endpoint exactly when the first block of the endpoint's chain names a
  genesis id and the genesis hash the project names as its chain id; an endpoint whose block has no
  genesis id makes no connection at all.
\<close>

theorem endpoint_accepted:
  assumes "indexer_config url_port endpoint config = Inr ix"
    and "lookupBlock_do (Indexer ix) (JNum 1) w = (Inr (JObj b), w')"
  shows "(\<exists>c. connection_create Indexer url_port endpoint config w = Inr c \<and> assertChainId chainId c = Inr ()) \<longleftrightarrow>
      truthy (obj_get b ''genesis-id'') \<and> chainId \<noteq> [] \<and> obj_get b ''genesis-hash'' = JStr chainId"
  using assms
  by (cases "obj_get b ''genesis-hash''") (auto simp: connection_create_def create_def readGenesis_def new_AlgorandApi_def
      new_AlgorandApiConnection_def getChainId_def getGenesisHash_def js_default_def assertChainId_def bindR_Inr_iff)

theorem endpoint_accepted_witness:
  "(\<exists>c. connection_create (\<lambda>_. demo_deps) (\<lambda>_. Inr ''443'') ''https://node'' (JObj []) 0 = Inr c
      \<and> assertChainId ''wGHE'' c = Inr ())
   \<and> \<not> (\<exists>c. connection_create (\<lambda>_. demo_deps) (\<lambda>_. Inr ''443'') ''https://node'' (JObj []) 0 = Inr c
      \<and> assertChainId ''SGO1'' c = Inr ())"
  using endpoint_accepted [OF demo_config, of "\<lambda>_. demo_deps" 0 "demo_block 1" 1 "''wGHE''"]
    endpoint_accepted [OF demo_config, of "\<lambda>_. demo_deps" 0 "demo_block 1" 1 "''SGO1''"]
  by (simp add: demo_block_def)

end
