(* ===== verification/Filters.thy ===== *)
theory Filters
  imports BlockUtils
begin

text \<open>
  The filters of \<^verbatim>\<open>packages/node/src/algorand/utils.algorand.ts\<close> that decide which
  handler sees which block and transaction. Parameters of the model: \<open>TT\<close>, the text of each member of
  algosdk's \<open>TransactionType\<close> the code names; \<open>lget\<close>, lodash's \<open>get\<close> on an object; \<open>fbt\<close>, node-core's
  \<open>filterBlockTimestamp\<close>.
\<close>

section \<open>The paths a filter key reads\<close>

datatype TransactionType = Pay | Keyreg | Acfg | Axfer | Afrz | Appl

type_synonym lodash_get = "jsobj \<Rightarrow> string option \<Rightarrow> jsval"

text \<open>The object literal of the source, in its order.\<close>

definition mappingFilterTransaction ::
  "(TransactionType \<Rightarrow> string) \<Rightarrow> (string \<times> (string \<times> string) list) list" where
  "mappingFilterTransaction TT = [
     (TT Pay, [
        (''sender'', ''sender''),
        (''receiver'', ''paymentTransaction.receiver'')]),
     (TT Keyreg, [
        (''nonParticipant'', ''keyregTransaction.nonParticipation''),
        (''sender'', ''sender'')]),
     (TT Acfg, [
        (''assetId'', ''assetConfigTransaction.assetId''),
        (''sender'', ''sender'')]),
     (TT Axfer, [
        (''assetId'', ''assetTransferTransaction.assetId''),
        (''sender'', ''sender''),
        (''receiver'', ''assetTransferTransaction.receiver'')]),
     (TT Afrz, [
        (''assetId'', ''assetFreezeTransaction.assetId''),
        (''newFreezeStatus'', ''assetFreezeTransaction.newFreezeStatus''),
        (''address'', ''sender'')]),
     (TT Appl, [
        (''applicationId'', ''applicationTransaction.applicationId''),
        (''applicationArgs'', ''applicationTransaction.applicationArgs''),
        (''sender'', ''sender'')])]"

text \<open>Reading a property of an object literal: the last one written under that name.\<close>

definition literal_get :: "(string \<times> 'a) list \<Rightarrow> string \<Rightarrow> 'a option" where
  "literal_get ps k = map_of (rev ps) k"

section \<open>Blocks\<close>

definition filterBlockModulo :: "jsobj \<Rightarrow> jsval \<Rightarrow> bool" where
  "filterBlockModulo block f = (let modulo = obj_get (own_props [] f) ''modulo'' in
     if \<not> truthy modulo then True
     else strict_eq (js_mod (obj_get block ''round'') modulo) (JNum 0))"

definition filterBlock :: "(jsval \<Rightarrow> jsval \<Rightarrow> bool) \<Rightarrow> jsobj \<Rightarrow> jsval \<Rightarrow> bool" where
  "filterBlock fbt block f =
     (if \<not> truthy f then True
      else if \<not> filterBlockModulo block f then False
      else if \<not> fbt (obj_get block ''timestamp'') f then False
      else True)"

section \<open>Transactions\<close>

text \<open>\<open>data[i]\<close> for an index: \<open>undefined\<close> and \<open>null\<close> have no properties to read.\<close>

fun js_index :: "jsval \<Rightarrow> nat \<Rightarrow> jsval res" where
  "js_index JUndef i = Inl (TypeError (''Cannot read properties of undefined (reading '' @ [CHR 0x27] @ show_nat i @ [CHR 0x27] @ '')''))"
| "js_index JNull i = Inl (TypeError (''Cannot read properties of null (reading '' @ [CHR 0x27] @ show_nat i @ [CHR 0x27] @ '')''))"
| "js_index (JArr xs) i = Inr (if i < length xs then xs ! i else JUndef)"
| "js_index (JStr s) i = Inr (if i < length s then JStr [s ! i] else JUndef)"
| "js_index (JObj ob) i = Inr (obj_get ob (show_nat i))"
| "js_index _ i = Inr JUndef"

fun args_loop :: "jsval list \<Rightarrow> nat \<Rightarrow> jsval \<Rightarrow> bool res" where
  "args_loop [] i data = Inr True"
| "args_loop (valFilter # fs) i data = bindR (js_index data i) (\<lambda>valData.
     if strict_eq valFilter JNull then args_loop fs (Suc i) data
     else if \<not> strict_eq valFilter valData then Inr False
     else args_loop fs (Suc i) data)"

fun txComparator :: "jsval \<Rightarrow> jsval \<Rightarrow> bool res" where
  "txComparator (JArr fs) data = args_loop fs 0 data"
| "txComparator f data = Inr (strict_eq f data)"

text \<open>The loop over the keys of the filter that are not \<open>txType\<close>.\<close>

fun keys_loop :: "(TransactionType \<Rightarrow> string) \<Rightarrow> lodash_get \<Rightarrow> jsobj \<Rightarrow> (string \<times> jsval) list \<Rightarrow> bool res" where
  "keys_loop TT lget txn [] = Inr True"
| "keys_loop TT lget txn ((key, v) # rest) =
     (case literal_get (mappingFilterTransaction TT) (js_to_string (obj_get txn ''txType'')) of
        None \<Rightarrow> keys_loop TT lget txn rest
      | Some paths \<Rightarrow>
          if v = JUndef then keys_loop TT lget txn rest
          else bindR (txComparator v (lget txn (literal_get paths key))) (\<lambda>ok.
            if ok then keys_loop TT lget txn rest else Inr False))"

definition filterTransaction ::
  "(TransactionType \<Rightarrow> string) \<Rightarrow> lodash_get \<Rightarrow> jsobj \<Rightarrow> jsval \<Rightarrow> bool res" where
  "filterTransaction TT lget txn f =
     (if \<not> truthy f then Inr True
      else let entries = own_entries (own_props [] f);
               txType = obj_get (own_props [] f) ''txType'';
               filterByKey = filter (\<lambda>(k, v). k \<noteq> ''txType'') entries
        in if truthy txType \<and> \<not> strict_eq (obj_get txn ''txType'') txType then Inr False
           else keys_loop TT lget txn filterByKey)"

section \<open>What the parameters are relied on for\<close>

text \<open>
  lodash's \<open>get\<close>, as documented: a key without path characters is a property; \<open>a.b\<close> is the property
  \<open>b\<close> of the property \<open>a\<close>, unless the object has a property of that whole name, and \<open>undefined\<close> when
  \<open>a\<close> is missing; a missing path names the property \<open>undefined\<close>.
\<close>

definition path_key :: "string \<Rightarrow> bool" where
  "path_key k \<longleftrightarrow> k \<noteq> [] \<and> list_all (\<lambda>c. c \<notin> {CHR ''.'', CHR ''['', CHR '']''}) k"

definition lodash_get_contract :: "lodash_get \<Rightarrow> bool" where
  "lodash_get_contract lget \<longleftrightarrow>
     (\<forall>ob. lget ob None = obj_get ob ''undefined'') \<and>
     (\<forall>ob k. path_key k \<longrightarrow> lget ob (Some k) = obj_get ob k) \<and>
     (\<forall>ob j k. path_key j \<longrightarrow> path_key k \<longrightarrow> \<not> obj_has ob (j @ CHR ''.'' # k)
        \<longrightarrow> (obj_get ob j = JUndef \<or> (\<exists>ps. obj_get ob j = JObj ps))
        \<longrightarrow> lget ob (Some (j @ CHR ''.'' # k)) = obj_get (own_props [] (obj_get ob j)) k)"

text \<open>A function that keeps this contract, for the concrete instances.\<close>

fun get_ref :: lodash_get where
  "get_ref ob None = obj_get ob ''undefined''"
| "get_ref ob (Some p) = (if obj_has ob p then obj_get ob p
     else case dropWhile (\<lambda>c. c \<noteq> CHR ''.'') p of
       [] \<Rightarrow> JUndef
     | d # k \<Rightarrow> obj_get (own_props [] (obj_get ob (takeWhile (\<lambda>c. c \<noteq> CHR ''.'') p))) k)"

lemma path_key_no_dot: "path_key k \<Longrightarrow> takeWhile (\<lambda>c. c \<noteq> CHR ''.'') (k @ CHR ''.'' # s) = k
    \<and> dropWhile (\<lambda>c. c \<noteq> CHR ''.'') (k @ CHR ''.'' # s) = CHR ''.'' # s
    \<and> dropWhile (\<lambda>c. c \<noteq> CHR ''.'') k = []"
  by (auto simp: path_key_def list_all_iff takeWhile_append dropWhile_append)

lemma get_ref_contract: "lodash_get_contract get_ref"
  unfolding lodash_get_contract_def
proof (intro conjI allI impI)
  fix ob k assume "path_key k"
  then have "dropWhile (\<lambda>c. c \<noteq> CHR ''.'') k = []" using path_key_no_dot by blast
  then show "get_ref ob (Some k) = obj_get ob k"
    by (cases "obj_has ob k") (simp_all add: obj_get_absent del: dropWhile_eq_Nil_conv)
next
  fix ob j k assume "path_key j" "path_key k" "\<not> obj_has ob (j @ CHR ''.'' # k)"
  then show "get_ref ob (Some (j @ CHR ''.'' # k)) = obj_get (own_props [] (obj_get ob j)) k"
    using path_key_no_dot [of j k] by simp
qed simp

text \<open>The texts of algosdk's transaction types are distinct.\<close>

definition algosdk_TT :: "TransactionType \<Rightarrow> string" where
  "algosdk_TT ty = (case ty of Pay \<Rightarrow> ''pay'' | Keyreg \<Rightarrow> ''keyreg'' | Acfg \<Rightarrow> ''acfg''
     | Axfer \<Rightarrow> ''axfer'' | Afrz \<Rightarrow> ''afrz'' | Appl \<Rightarrow> ''appl'')"

lemma inj_algosdk_TT: "inj algosdk_TT"
  by (rule injI, rename_tac a b, case_tac a; case_tac b) (simp_all add: algosdk_TT_def)

section \<open>What the filters decide\<close>

lemma filterBlockModulo_int:
  "obj_get block ''round'' = JNum r \<Longrightarrow> obj_get fo ''modulo'' = JNum m \<Longrightarrow>
   filterBlockModulo block (JObj fo) \<longleftrightarrow> m = 0 \<or> m dvd r"
  by (auto simp: filterBlockModulo_def js_mod_def trunc_mod_0_iff)

lemma filterBlockModulo_absent:
  "obj_get fo ''modulo'' = JUndef \<Longrightarrow> filterBlockModulo block (JObj fo)"
  by (simp add: filterBlockModulo_def)

text \<open>\<open>data[i]\<close> of an array that is read past its end is \<open>undefined\<close>.\<close>

definition nth_or_undef :: "jsval list \<Rightarrow> nat \<Rightarrow> jsval" where
  "nth_or_undef xs i = (if i < length xs then xs ! i else JUndef)"

lemma args_loop_array:
  "args_loop fs i (JArr ds) =
     Inr (\<forall>j < length fs. fs ! j = JNull \<or> strict_eq (fs ! j) (nth_or_undef ds (i + j)))"
proof (induction fs arbitrary: i)
  case (Cons f fs)
  have split: "(\<forall>j < length (f # fs). P j) \<longleftrightarrow> P 0 \<and> (\<forall>j < length fs. P (Suc j))" for P
    by (auto simp: less_Suc_eq_0_disj)
  show ?case
    using Cons.IH [of "Suc i"] unfolding split by (auto simp: nth_or_undef_def)
qed simp

lemma args_loop_missing: "args_loop (f # fs) i JUndef = Inl (TypeError
    (''Cannot read properties of undefined (reading '' @ [CHR 0x27] @ show_nat i @ [CHR 0x27] @ '')''))"
  by simp

text \<open>The key loop answers yes exactly when every key that is set passes its comparison.\<close>

definition key_passes :: "(TransactionType \<Rightarrow> string) \<Rightarrow> lodash_get \<Rightarrow> jsobj \<Rightarrow> string \<Rightarrow> jsval \<Rightarrow> bool" where
  "key_passes TT lget txn key v =
     (case literal_get (mappingFilterTransaction TT) (js_to_string (obj_get txn ''txType'')) of
        None \<Rightarrow> True
      | Some paths \<Rightarrow> v = JUndef \<or> txComparator v (lget txn (literal_get paths key)) = Inr True)"

lemma keys_loop_True_iff:
  "keys_loop TT lget txn es = Inr True \<longleftrightarrow> (\<forall>(k, v) \<in> set es. key_passes TT lget txn k v)"
proof (induction es)
  case (Cons e es)
  obtain k v where e: "e = (k, v)" by (cases e)
  show ?case
  proof (cases "literal_get (mappingFilterTransaction TT) (js_to_string (obj_get txn ''txType''))")
    case (Some paths)
    then show ?thesis using Cons.IH e
      by (cases "txComparator v (lget txn (literal_get paths k))") (auto simp: key_passes_def)
  qed (use Cons.IH e in \<open>auto simp: key_passes_def\<close>)
qed simp

lemma keys_loop_cases:
  assumes "\<And>k v. (k, v) \<in> set es \<Longrightarrow> \<exists>b. txComparator v (lget txn (literal_get paths k)) = Inr b"
    and "literal_get (mappingFilterTransaction TT) (js_to_string (obj_get txn ''txType'')) = Some paths"
  shows "keys_loop TT lget txn es = Inr (\<forall>(k, v) \<in> set es. key_passes TT lget txn k v)"
  using assms(1)
proof (induction es)
  case (Cons e es)
  obtain k v where e: "e = (k, v)" by (cases e)
  with Cons.prems obtain b where "txComparator v (lget txn (literal_get paths k)) = Inr b" by fastforce
  with Cons e assms(2) show ?case by (cases b) (auto simp: key_passes_def)
qed simp

lemma set_own_entries_get:
  "(k, v) \<in> set (own_entries ob) \<longleftrightarrow> map_of ob k = Some v"
  by (metis distinct_own_entries map_of_eq_Some_iff map_of_own_entries)

lemma filter_entries_ball:
  "(\<forall>(k, v) \<in> set (filter (\<lambda>(k, v). k \<noteq> t) (own_entries ob)). P k v)
     \<longleftrightarrow> (\<forall>k. k \<noteq> t \<longrightarrow> obj_has ob k \<longrightarrow> P k (obj_get ob k))"
proof -
  have "(\<forall>(k, v) \<in> set (filter (\<lambda>(k, v). k \<noteq> t) (own_entries ob)). P k v)
      \<longleftrightarrow> (\<forall>k v. k \<noteq> t \<longrightarrow> map_of ob k = Some v \<longrightarrow> P k v)"
    by (auto simp: set_own_entries_get)
  also have "\<dots> \<longleftrightarrow> (\<forall>k. k \<noteq> t \<longrightarrow> obj_has ob k \<longrightarrow> P k (obj_get ob k))"
    by (auto simp: obj_has_def obj_get_def)
  finally show ?thesis .
qed

lemma filterTransaction_True_iff_keys:
  "filterTransaction TT lget txn (JObj fo) = Inr True \<longleftrightarrow>
     (truthy (obj_get fo ''txType'') \<longrightarrow> strict_eq (obj_get txn ''txType'') (obj_get fo ''txType'')) \<and>
     (\<forall>k. k \<noteq> ''txType'' \<longrightarrow> obj_has fo k \<longrightarrow> key_passes TT lget txn k (obj_get fo k))"
  unfolding filterTransaction_def Let_def
  by (simp add: keys_loop_True_iff filter_entries_ball [symmetric])

text \<open>A list of entries that JavaScript would list in this order is its own listing.\<close>

lemma own_entries_filter: "own_entries (filter P (own_entries ob)) = filter P (own_entries ob)"
proof -
  let ?ix = "\<lambda>(k, v). is_index k" and ?key = "\<lambda>(k, v). digits_val k"
  let ?i = "sort_key ?key (filter ?ix (AList.clearjunk ob))"
  let ?s = "filter (\<lambda>(k, v). \<not> is_index k) (AList.clearjunk ob)"
  have es: "own_entries ob = ?i @ ?s" by (simp add: own_entries_def Let_def)
  have "distinct (map fst (filter P (own_entries ob)))"
    by (rule distinct_map_filter) (rule distinct_own_entries)
  then have junk: "AList.clearjunk (filter P (own_entries ob)) = filter P (own_entries ob)"
    by (rule distinct_clearjunk_id)
  have swap: "filter Q (filter P xs) = filter P (filter Q xs)" for Q and xs :: jsobj
    by (simp add: conj_commute)
  have "filter ?ix ?i = ?i" "filter ?ix ?s = []"
    "filter (\<lambda>(k, v). \<not> is_index k) ?i = []" "filter (\<lambda>(k, v). \<not> is_index k) ?s = ?s"
    by (auto simp: filter_empty_conv filter_id_conv)
  then have i: "filter ?ix (filter P (own_entries ob)) = filter P ?i"
    and n: "filter (\<lambda>(k, v). \<not> is_index k) (filter P (own_entries ob)) = filter P ?s"
    unfolding swap es by (simp_all del: filter_filter)
  have "sorted (map ?key (filter P ?i))"
    by (rule sorted_filter) (rule sorted_sort_key)
  then have sort: "sort_key ?key (filter P ?i) = filter P ?i" by (rule sort_key_id_if_sorted)
  have "own_entries (filter P (own_entries ob)) = sort_key ?key (filter ?ix (filter P (own_entries ob)))
      @ filter (\<lambda>(k, v). \<not> is_index k) (filter P (own_entries ob))"
    by (simp only: own_entries_def [of "filter P (own_entries ob)"] Let_def junk)
  also have "\<dots> = filter P ?i @ filter P ?s" by (simp only: i n sort)
  also have "\<dots> = filter P (own_entries ob)" by (simp only: es filter_append)
  finally show ?thesis .
qed

lemma keys_loop_skip:
  "keys_loop TT lget txn (filter (\<lambda>e. snd e \<noteq> JUndef) es) = keys_loop TT lget txn es"
proof (induction es)
  case (Cons e es)
  obtain k v where e: "e = (k, v)" by (cases e)
  show ?case
  proof (cases "literal_get (mappingFilterTransaction TT) (js_to_string (obj_get txn ''txType''))")
    case (Some paths)
    then show ?thesis using Cons e
      by (cases "txComparator v (lget txn (literal_get paths k))") auto
  qed (use Cons e in auto)
qed simp

lemma mapping_unknown:
  "(\<And>ty. s \<noteq> TT ty) \<Longrightarrow> literal_get (mappingFilterTransaction TT) s = None"
  by (simp add: literal_get_def mappingFilterTransaction_def)

lemma keys_loop_unknown:
  assumes "literal_get (mappingFilterTransaction TT) (js_to_string (obj_get txn ''txType'')) = None"
  shows "keys_loop TT lget txn es = Inr True"
proof (induction es)
  case (Cons e es)
  then show ?case using assms by (cases e) simp
qed simp

end
