(* ===== verification/FilterSpec.thy ===== *)
theory FilterSpec
  imports Filters
begin

text \<open>
  What a transaction filter means on typed transactions and filters, field by field, and the proof
  that the path-driven filter of the code computes it.
\<close>

section \<open>The meaning of a filter\<close>

definition wants :: "'a option \<Rightarrow> 'a option \<Rightarrow> bool" where
  "wants want have \<longleftrightarrow> (case want of None \<Rightarrow> True | Some x \<Rightarrow> have = Some x)"

text \<open>The value each key of a filter is compared with, for a transaction of each type.\<close>

definition sender_of :: "TransactionType \<Rightarrow> AlgorandTransaction \<Rightarrow> string option" where
  "sender_of ty t = (if ty = Afrz then None else Some (tx_sender t))"

definition receiver_of :: "TransactionType \<Rightarrow> AlgorandTransaction \<Rightarrow> string option" where
  "receiver_of ty t = (case ty of
     Pay \<Rightarrow> map_option pay_receiver (tx_paymentTransaction t)
   | Axfer \<Rightarrow> map_option axfer_receiver (tx_assetTransferTransaction t)
   | _ \<Rightarrow> None)"

definition nonParticipant_of :: "TransactionType \<Rightarrow> AlgorandTransaction \<Rightarrow> bool option" where
  "nonParticipant_of ty t = (if ty = Keyreg
     then Option.bind (tx_keyregTransaction t) keyreg_nonParticipation else None)"

definition assetId_of :: "TransactionType \<Rightarrow> AlgorandTransaction \<Rightarrow> int option" where
  "assetId_of ty t = (case ty of
     Acfg \<Rightarrow> Option.bind (tx_assetConfigTransaction t) acfg_assetId
   | Axfer \<Rightarrow> map_option axfer_assetId (tx_assetTransferTransaction t)
   | Afrz \<Rightarrow> map_option afrz_assetId (tx_assetFreezeTransaction t)
   | _ \<Rightarrow> None)"

definition newFreezeStatus_of :: "TransactionType \<Rightarrow> AlgorandTransaction \<Rightarrow> bool option" where
  "newFreezeStatus_of ty t = (if ty = Afrz
     then map_option afrz_newFreezeStatus (tx_assetFreezeTransaction t) else None)"

definition address_of :: "TransactionType \<Rightarrow> AlgorandTransaction \<Rightarrow> string option" where
  "address_of ty t = (if ty = Afrz then Some (tx_sender t) else None)"

definition applicationId_of :: "TransactionType \<Rightarrow> AlgorandTransaction \<Rightarrow> int option" where
  "applicationId_of ty t = (if ty = Appl
     then map_option app_applicationId (tx_applicationTransaction t) else None)"

definition applicationArgs_of :: "TransactionType \<Rightarrow> AlgorandTransaction \<Rightarrow> string list option" where
  "applicationArgs_of ty t = (if ty = Appl
     then Option.bind (tx_applicationTransaction t) app_applicationArgs else None)"

text \<open>A pattern of arguments: every argument that is not skipped is there, and equal.\<close>

definition args_match :: "string option list \<Rightarrow> string list \<Rightarrow> bool" where
  "args_match pat args \<longleftrightarrow> (\<forall>j < length pat. case pat ! j of
     None \<Rightarrow> True
   | Some a \<Rightarrow> j < length args \<and> args ! j = a)"

definition tx_matches :: "(TransactionType \<Rightarrow> string) \<Rightarrow> TransactionType \<Rightarrow> AlgorandTransaction
    \<Rightarrow> AlgorandTransactionFilter \<Rightarrow> bool" where
  "tx_matches TT ty t f \<longleftrightarrow>
     (case tf_txType f of None \<Rightarrow> True | Some s \<Rightarrow> s = [] \<or> s = TT ty) \<and>
     wants (tf_sender f) (sender_of ty t) \<and>
     wants (tf_receiver f) (receiver_of ty t) \<and>
     wants (tf_nonParticipant f) (nonParticipant_of ty t) \<and>
     wants (tf_assetId f) (assetId_of ty t) \<and>
     wants (tf_newFreezeStatus f) (newFreezeStatus_of ty t) \<and>
     wants (tf_address f) (address_of ty t) \<and>
     wants (tf_applicationId f) (applicationId_of ty t) \<and>
     (case tf_applicationArgs f of None \<Rightarrow> True
      | Some pat \<Rightarrow> (case applicationArgs_of ty t of None \<Rightarrow> False | Some args \<Rightarrow> args_match pat args))"

section \<open>Reading a typed transaction\<close>

definition tx_props :: "AlgorandTransaction \<Rightarrow> jsobj" where
  "tx_props t = own_props [] (js_of_AlgorandTransaction t)"

definition filter_props :: "AlgorandTransactionFilter \<Rightarrow> jsobj" where
  "filter_props f = own_props [] (js_of_AlgorandTransactionFilter f)"

lemma js_of_filter_eq: "js_of_AlgorandTransactionFilter f = JObj (filter_props f)"
  by (simp add: filter_props_def js_of_AlgorandTransactionFilter_def)

lemma innerTxns_field:
  "(case tx_innerTxns t of None \<Rightarrow> [] | Some ts \<Rightarrow> [(''innerTxns'', JArr (map js_of_AlgorandTransaction ts))])
     = opt_field ''innerTxns'' (js_arr js_of_AlgorandTransaction) (tx_innerTxns t)"
  by (simp add: opt_field_def js_arr_def split: option.splits)

lemma tx_get [simp]:
  "obj_get (tx_props t) ''sender'' = JStr (tx_sender t)"
  "obj_get (tx_props t) ''txType'' = JStr (tx_txType t)"
  "obj_get (tx_props t) ''paymentTransaction'' = opt_val js_of_TransactionPayment (tx_paymentTransaction t)"
  "obj_get (tx_props t) ''keyregTransaction'' = opt_val js_of_TransactionKeyreg (tx_keyregTransaction t)"
  "obj_get (tx_props t) ''assetConfigTransaction''
     = opt_val js_of_TransactionAssetConfig (tx_assetConfigTransaction t)"
  "obj_get (tx_props t) ''assetTransferTransaction''
     = opt_val js_of_TransactionAssetTransfer (tx_assetTransferTransaction t)"
  "obj_get (tx_props t) ''assetFreezeTransaction''
     = opt_val js_of_TransactionAssetFreeze (tx_assetFreezeTransaction t)"
  "obj_get (tx_props t) ''applicationTransaction''
     = opt_val js_of_TransactionApplication (tx_applicationTransaction t)"
  "obj_get (tx_props t) ''innerTxns'' = opt_val (js_arr js_of_AlgorandTransaction) (tx_innerTxns t)"
  "obj_get (tx_props t) ''undefined'' = JUndef"
  unfolding tx_props_def js_of_AlgorandTransaction.simps [of t] innerTxns_field own_props.simps
  by (simp_all add: js_simps)

lemma tx_has_dotted [simp]:
  "\<not> obj_has (tx_props t) ''paymentTransaction.receiver''"
  "\<not> obj_has (tx_props t) ''keyregTransaction.nonParticipation''"
  "\<not> obj_has (tx_props t) ''assetConfigTransaction.assetId''"
  "\<not> obj_has (tx_props t) ''assetTransferTransaction.assetId''"
  "\<not> obj_has (tx_props t) ''assetTransferTransaction.receiver''"
  "\<not> obj_has (tx_props t) ''assetFreezeTransaction.assetId''"
  "\<not> obj_has (tx_props t) ''assetFreezeTransaction.newFreezeStatus''"
  "\<not> obj_has (tx_props t) ''applicationTransaction.applicationId''"
  "\<not> obj_has (tx_props t) ''applicationTransaction.applicationArgs''"
  unfolding tx_props_def js_of_AlgorandTransaction.simps [of t] innerTxns_field own_props.simps
  by (simp_all add: js_simps)

lemma js_of_is_JObj:
  "\<exists>ps. js_of_TransactionPayment p = JObj ps" "\<exists>ps. js_of_TransactionKeyreg k = JObj ps"
  "\<exists>ps. js_of_TransactionAssetConfig a = JObj ps" "\<exists>ps. js_of_TransactionAssetTransfer x = JObj ps"
  "\<exists>ps. js_of_TransactionAssetFreeze z = JObj ps" "\<exists>ps. js_of_TransactionApplication l = JObj ps"
  by (simp_all add: js_of_TransactionPayment_def js_of_TransactionKeyreg_def
      js_of_TransactionAssetConfig_def js_of_TransactionAssetTransfer_def
      js_of_TransactionAssetFreeze_def js_of_TransactionApplication_def)

lemma sub_get:
  "obj_get (own_props [] (js_of_TransactionPayment p)) ''receiver'' = JStr (pay_receiver p)"
  "obj_get (own_props [] (js_of_TransactionKeyreg k)) ''nonParticipation'' = opt_val JBool (keyreg_nonParticipation k)"
  "obj_get (own_props [] (js_of_TransactionAssetConfig a)) ''assetId'' = opt_val JNum (acfg_assetId a)"
  "obj_get (own_props [] (js_of_TransactionAssetTransfer x)) ''assetId'' = JNum (axfer_assetId x)"
  "obj_get (own_props [] (js_of_TransactionAssetTransfer x)) ''receiver'' = JStr (axfer_receiver x)"
  "obj_get (own_props [] (js_of_TransactionAssetFreeze z)) ''assetId'' = JNum (afrz_assetId z)"
  "obj_get (own_props [] (js_of_TransactionAssetFreeze z)) ''newFreezeStatus'' = JBool (afrz_newFreezeStatus z)"
  "obj_get (own_props [] (js_of_TransactionApplication l)) ''applicationId'' = JNum (app_applicationId l)"
  "obj_get (own_props [] (js_of_TransactionApplication l)) ''applicationArgs'' = opt_val (js_arr JStr) (app_applicationArgs l)"
  by (simp_all add: js_of_TransactionPayment_def js_of_TransactionKeyreg_def
      js_of_TransactionAssetConfig_def js_of_TransactionAssetTransfer_def
      js_of_TransactionAssetFreeze_def js_of_TransactionApplication_def js_simps)

section \<open>The filter of the code is this meaning\<close>

definition filter_keys :: "string list" where
  "filter_keys = [''sender'', ''receiver'', ''nonParticipant'', ''assetId'', ''newFreezeStatus'',
     ''address'', ''applicationId'', ''applicationArgs'']"

lemma filter_get [simp]:
  "obj_get (filter_props f) ''txType'' = opt_val JStr (tf_txType f)"
  "obj_get (filter_props f) ''sender'' = opt_val JStr (tf_sender f)"
  "obj_get (filter_props f) ''receiver'' = opt_val JStr (tf_receiver f)"
  "obj_get (filter_props f) ''nonParticipant'' = opt_val JBool (tf_nonParticipant f)"
  "obj_get (filter_props f) ''assetId'' = opt_val JNum (tf_assetId f)"
  "obj_get (filter_props f) ''newFreezeStatus'' = opt_val JBool (tf_newFreezeStatus f)"
  "obj_get (filter_props f) ''address'' = opt_val JStr (tf_address f)"
  "obj_get (filter_props f) ''applicationId'' = opt_val JNum (tf_applicationId f)"
  "obj_get (filter_props f) ''applicationArgs'' = opt_val (js_arr js_of_arg) (tf_applicationArgs f)"
  by (simp_all add: filter_props_def js_of_AlgorandTransactionFilter_def js_simps)

lemma filter_has: "obj_has (filter_props f) k \<Longrightarrow> k = ''txType'' \<or> k \<in> set filter_keys"
  by (auto simp: filter_props_def js_of_AlgorandTransactionFilter_def filter_keys_def js_simps)

definition filter_paths :: "TransactionType \<Rightarrow> (string \<times> string) list" where
  "filter_paths ty = snd (the (find (\<lambda>(k, ps). k = algosdk_TT ty) (mappingFilterTransaction algosdk_TT)))"

lemma filter_paths_simps [simp]:
  "filter_paths Pay = [(''sender'', ''sender''), (''receiver'', ''paymentTransaction.receiver'')]"
  "filter_paths Keyreg = [(''nonParticipant'', ''keyregTransaction.nonParticipation''), (''sender'', ''sender'')]"
  "filter_paths Acfg = [(''assetId'', ''assetConfigTransaction.assetId''), (''sender'', ''sender'')]"
  "filter_paths Axfer = [(''assetId'', ''assetTransferTransaction.assetId''), (''sender'', ''sender''),
     (''receiver'', ''assetTransferTransaction.receiver'')]"
  "filter_paths Afrz = [(''assetId'', ''assetFreezeTransaction.assetId''),
     (''newFreezeStatus'', ''assetFreezeTransaction.newFreezeStatus''), (''address'', ''sender'')]"
  "filter_paths Appl = [(''applicationId'', ''applicationTransaction.applicationId''),
     (''applicationArgs'', ''applicationTransaction.applicationArgs''), (''sender'', ''sender'')]"
  by (simp_all add: filter_paths_def mappingFilterTransaction_def algosdk_TT_def)

lemma mapping_known:
  "inj TT \<Longrightarrow> literal_get (mappingFilterTransaction TT) (TT ty) = Some (filter_paths ty)"
  by (cases ty) (simp_all add: literal_get_def mappingFilterTransaction_def inj_eq)

text \<open>What the paths of the mapping lead to.\<close>

lemma path_key_letters [simp]:
  "path_key ''sender''" "path_key ''receiver''" "path_key ''paymentTransaction''"
  "path_key ''keyregTransaction''" "path_key ''nonParticipation''" "path_key ''assetConfigTransaction''"
  "path_key ''assetId''" "path_key ''assetTransferTransaction''" "path_key ''assetFreezeTransaction''"
  "path_key ''newFreezeStatus''" "path_key ''applicationTransaction''" "path_key ''applicationId''"
  "path_key ''applicationArgs''"
  by (simp_all add: path_key_def)

lemma contract_None: "lodash_get_contract lget \<Longrightarrow> lget (tx_props t) None = JUndef"
  by (simp add: lodash_get_contract_def)

lemma contract_sender: "lodash_get_contract lget \<Longrightarrow> lget (tx_props t) (Some ''sender'') = JStr (tx_sender t)"
  by (simp add: lodash_get_contract_def)

lemma contract_path:
  assumes "lodash_get_contract lget" "path_key j" "path_key k" "\<not> obj_has ob (j @ CHR ''.'' # k)"
    and "obj_get ob j = opt_val g u" and "\<And>x. \<exists>ps. g x = JObj ps"
  shows "lget ob (Some (j @ CHR ''.'' # k))
    = (case u of None \<Rightarrow> JUndef | Some x \<Rightarrow> obj_get (own_props [] (g x)) k)"
proof -
  from assms(5,6) have "obj_get ob j = JUndef \<or> (\<exists>ps. obj_get ob j = JObj ps)"
    by (cases u) auto
  with assms have "lget ob (Some (j @ CHR ''.'' # k)) = obj_get (own_props [] (opt_val g u)) k"
    unfolding lodash_get_contract_def by (metis (no_types, lifting))
  then show ?thesis by (cases u) simp_all
qed

lemma contract_paths:
  assumes c: "lodash_get_contract lget"
  shows "lget (tx_props t) (Some ''paymentTransaction.receiver'')
      = opt_val JStr (map_option pay_receiver (tx_paymentTransaction t))"
    and "lget (tx_props t) (Some ''keyregTransaction.nonParticipation'')
      = opt_val JBool (Option.bind (tx_keyregTransaction t) keyreg_nonParticipation)"
    and "lget (tx_props t) (Some ''assetConfigTransaction.assetId'')
      = opt_val JNum (Option.bind (tx_assetConfigTransaction t) acfg_assetId)"
    and "lget (tx_props t) (Some ''assetTransferTransaction.assetId'')
      = opt_val JNum (map_option axfer_assetId (tx_assetTransferTransaction t))"
    and "lget (tx_props t) (Some ''assetTransferTransaction.receiver'')
      = opt_val JStr (map_option axfer_receiver (tx_assetTransferTransaction t))"
    and "lget (tx_props t) (Some ''assetFreezeTransaction.assetId'')
      = opt_val JNum (map_option afrz_assetId (tx_assetFreezeTransaction t))"
    and "lget (tx_props t) (Some ''assetFreezeTransaction.newFreezeStatus'')
      = opt_val JBool (map_option afrz_newFreezeStatus (tx_assetFreezeTransaction t))"
    and "lget (tx_props t) (Some ''applicationTransaction.applicationId'')
      = opt_val JNum (map_option app_applicationId (tx_applicationTransaction t))"
    and "lget (tx_props t) (Some ''applicationTransaction.applicationArgs'')
      = opt_val (js_arr JStr) (Option.bind (tx_applicationTransaction t) app_applicationArgs)"
  using contract_path [OF c, of "''paymentTransaction''" "''receiver''" "tx_props t" js_of_TransactionPayment]
    contract_path [OF c, of "''keyregTransaction''" "''nonParticipation''" "tx_props t" js_of_TransactionKeyreg]
    contract_path [OF c, of "''assetConfigTransaction''" "''assetId''" "tx_props t" js_of_TransactionAssetConfig]
    contract_path [OF c, of "''assetTransferTransaction''" "''assetId''" "tx_props t" js_of_TransactionAssetTransfer]
    contract_path [OF c, of "''assetTransferTransaction''" "''receiver''" "tx_props t" js_of_TransactionAssetTransfer]
    contract_path [OF c, of "''assetFreezeTransaction''" "''assetId''" "tx_props t" js_of_TransactionAssetFreeze]
    contract_path [OF c, of "''assetFreezeTransaction''" "''newFreezeStatus''" "tx_props t" js_of_TransactionAssetFreeze]
    contract_path [OF c, of "''applicationTransaction''" "''applicationId''" "tx_props t" js_of_TransactionApplication]
    contract_path [OF c, of "''applicationTransaction''" "''applicationArgs''" "tx_props t" js_of_TransactionApplication]
  by (simp_all add: js_of_is_JObj sub_get split: option.splits)

lemmas contract_reads = contract_None contract_sender contract_paths

text \<open>The value a key is compared with is the field of the meaning.\<close>

lemma field_reads:
  assumes c: "lodash_get_contract lget"
  shows "lget (tx_props t) (literal_get (filter_paths ty) ''sender'') = opt_val JStr (sender_of ty t)"
    and "lget (tx_props t) (literal_get (filter_paths ty) ''receiver'') = opt_val JStr (receiver_of ty t)"
    and "lget (tx_props t) (literal_get (filter_paths ty) ''nonParticipant'') = opt_val JBool (nonParticipant_of ty t)"
    and "lget (tx_props t) (literal_get (filter_paths ty) ''assetId'') = opt_val JNum (assetId_of ty t)"
    and "lget (tx_props t) (literal_get (filter_paths ty) ''newFreezeStatus'') = opt_val JBool (newFreezeStatus_of ty t)"
    and "lget (tx_props t) (literal_get (filter_paths ty) ''address'') = opt_val JStr (address_of ty t)"
    and "lget (tx_props t) (literal_get (filter_paths ty) ''applicationId'') = opt_val JNum (applicationId_of ty t)"
    and "lget (tx_props t) (literal_get (filter_paths ty) ''applicationArgs'') = opt_val (js_arr JStr) (applicationArgs_of ty t)"
  by (cases ty; simp add: literal_get_def contract_reads [OF c] sender_of_def receiver_of_def
      nonParticipant_of_def assetId_of_def newFreezeStatus_of_def address_of_def applicationId_of_def
      applicationArgs_of_def)+

lemma comparator_scalar:
  "opt_val JStr u = JUndef \<or> txComparator (opt_val JStr u) (opt_val JStr v) = Inr True \<longleftrightarrow> wants u v"
  "opt_val JNum m = JUndef \<or> txComparator (opt_val JNum m) (opt_val JNum n) = Inr True \<longleftrightarrow> wants m n"
  "opt_val JBool b = JUndef \<or> txComparator (opt_val JBool b) (opt_val JBool c) = Inr True \<longleftrightarrow> wants b c"
  by (auto simp: wants_def opt_val_def split: option.splits)

lemma comparator_scalar_total:
  "\<exists>r. txComparator (opt_val JStr u) d = Inr r" "\<exists>r. txComparator (opt_val JNum m) d = Inr r"
  "\<exists>r. txComparator (opt_val JBool b) d = Inr r"
  by (simp_all add: opt_val_def split: option.splits)

lemma js_of_arg_simps: "strict_eq (js_of_arg a) JNull \<longleftrightarrow> a = None" "js_of_arg a = JNull \<longleftrightarrow> a = None"
  "js_of_arg (Some s) = JStr s"
  by (auto simp: js_of_arg_def split: option.splits)

lemma comparator_args:
  "txComparator (js_arr js_of_arg pat) (js_arr JStr args) = Inr (args_match pat args)"
proof -
  have elt: "js_of_arg (pat ! j) = JNull \<or> strict_eq (js_of_arg (pat ! j)) (nth_or_undef (map JStr args) j)
      \<longleftrightarrow> (case pat ! j of None \<Rightarrow> True | Some a \<Rightarrow> j < length args \<and> args ! j = a)" for j
    by (auto simp: js_of_arg_simps nth_or_undef_def split: option.splits)
  show ?thesis
    by (simp add: js_arr_def args_loop_array args_match_def elt cong: conj_cong)
qed

lemma js_arr_not_undef: "js_arr g xs \<noteq> JUndef"
  by (simp add: js_arr_def)

definition args_readable :: "TransactionType \<Rightarrow> AlgorandTransaction \<Rightarrow> AlgorandTransactionFilter \<Rightarrow> bool" where
  "args_readable ty t f \<longleftrightarrow> (case tf_applicationArgs f of
     None \<Rightarrow> True | Some pat \<Rightarrow> applicationArgs_of ty t \<noteq> None)"

lemma filter_decides:
  assumes get: "lodash_get_contract lget" and TT: "inj TT"
    and ty: "tx_txType t = TT ty" and args: "args_readable ty t f"
  shows "filterTransaction TT lget (tx_props t) (js_of_AlgorandTransactionFilter f)
    = Inr (tx_matches TT ty t f)"
proof -
  let ?fp = "filter_props f" and ?tp = "tx_props t"
  let ?pass = "\<lambda>k v. v = JUndef \<or> txComparator v (lget ?tp (literal_get (filter_paths ty) k)) = Inr True"
  have known: "literal_get (mappingFilterTransaction TT) (js_to_string (obj_get ?tp ''txType''))
      = Some (filter_paths ty)"
    using ty TT by (simp add: mapping_known)
  have args_cmp: "(\<exists>b. txComparator (opt_val (js_arr js_of_arg) (tf_applicationArgs f))
        (opt_val (js_arr JStr) (applicationArgs_of ty t)) = Inr b) \<or> tf_applicationArgs f = None"
    using args by (auto simp: args_readable_def comparator_args split: option.splits)
  have no_throw: "\<exists>b. txComparator v (lget ?tp (literal_get (filter_paths ty) k)) = Inr b"
    if "(k, v) \<in> set (filter (\<lambda>(k, v). k \<noteq> ''txType'') (own_entries ?fp))" for k v
  proof -
    from that have kv: "obj_has ?fp k" "v = obj_get ?fp k" "k \<noteq> ''txType''"
      by (auto simp: set_own_entries_get obj_has_def obj_get_def)
    then have "k \<in> set filter_keys" using filter_has by blast
    with kv args_cmp show ?thesis
      by (auto simp: filter_keys_def field_reads [OF get] comparator_scalar_total)
  qed
  have loop: "keys_loop TT lget ?tp (filter (\<lambda>(k, v). k \<noteq> ''txType'') (own_entries ?fp))
      = Inr (\<forall>(k, v) \<in> set (filter (\<lambda>(k, v). k \<noteq> ''txType'') (own_entries ?fp)). key_passes TT lget ?tp k v)"
    using no_throw known by (rule keys_loop_cases)
  have keys: "(\<forall>(k, v) \<in> set (filter (\<lambda>(k, v). k \<noteq> ''txType'') (own_entries ?fp)). key_passes TT lget ?tp k v)
      \<longleftrightarrow> (\<forall>k \<in> set filter_keys. ?pass k (obj_get ?fp k))" (is "?L \<longleftrightarrow> ?R")
  proof -
    have "?L \<longleftrightarrow> (\<forall>k. k \<noteq> ''txType'' \<longrightarrow> obj_has ?fp k \<longrightarrow> ?pass k (obj_get ?fp k))"
      unfolding filter_entries_ball by (simp only: key_passes_def known option.simps)
    also have "\<dots> \<longleftrightarrow> ?R"
    proof (intro iffI ballI allI impI)
      fix k assume all: "\<forall>k. k \<noteq> ''txType'' \<longrightarrow> obj_has ?fp k \<longrightarrow> ?pass k (obj_get ?fp k)"
        and k: "k \<in> set filter_keys"
      from k have "k \<noteq> ''txType''" by (auto simp: filter_keys_def)
      then show "?pass k (obj_get ?fp k)"
        using all by (cases "obj_has ?fp k") (blast, simp add: obj_get_absent)
    next
      fix k assume "\<forall>k \<in> set filter_keys. ?pass k (obj_get ?fp k)" "k \<noteq> ''txType''" "obj_has ?fp k"
      then show "?pass k (obj_get ?fp k)" using filter_has by blast
    qed
    finally show ?thesis .
  qed
  have args_pass: "?pass ''applicationArgs'' (obj_get ?fp ''applicationArgs'') \<longleftrightarrow>
      (case tf_applicationArgs f of None \<Rightarrow> True
       | Some pat \<Rightarrow> (case applicationArgs_of ty t of None \<Rightarrow> False | Some args \<Rightarrow> args_match pat args))"
  proof (cases "tf_applicationArgs f")
    case (Some pat)
    with args obtain as where "applicationArgs_of ty t = Some as" by (auto simp: args_readable_def)
    with Some show ?thesis by (simp add: field_reads [OF get] comparator_args js_arr_not_undef)
  qed simp
  have type: "(truthy (obj_get ?fp ''txType'') \<and> \<not> strict_eq (obj_get ?tp ''txType'') (obj_get ?fp ''txType''))
      \<longleftrightarrow> \<not> (case tf_txType f of None \<Rightarrow> True | Some s \<Rightarrow> s = [] \<or> s = TT ty)"
    using ty by (auto split: option.splits)
  show ?thesis
    unfolding js_of_filter_eq filterTransaction_def own_props.simps Let_def type loop keys
    by (simp add: filter_keys_def tx_matches_def field_reads [OF get] comparator_scalar
        args_pass [unfolded field_reads [OF get]] del: filter_get(9))
qed

text \<open>
  C11. On a typed transaction of a known type and a typed filter, the path-driven filter never throws
  and answers exactly the field-by-field meaning, provided a filter on application arguments meets a
  transaction that has some.
\<close>

theorem filterTransaction_meaning:
  assumes get: "lodash_get_contract lget" and TT: "inj TT"
    and ty: "tx_txType t = TT ty" and args: "args_readable ty t f"
  shows "filterTransaction TT lget (tx_props t) (js_of_AlgorandTransactionFilter f)
    = Inr (tx_matches TT ty t f)"
  using assms by (rule filter_decides)

section \<open>Concrete transactions\<close>

text \<open>A transaction with the fields every transaction has, and the parts one sets.\<close>

definition plain_tx :: "string \<Rightarrow> string \<Rightarrow> TransactionPayment option \<Rightarrow> TransactionApplication option
    \<Rightarrow> AlgorandTransaction list option \<Rightarrow> AlgorandTransaction" where
  "plain_tx type sender payment application inner = AlgorandTransaction
     application None None None None None None None None None 1000 1 None None None
     None None inner None None 1001 None None None None payment None None None
     sender None None type None"

lemma plain_tx_sel [simp]:
  "tx_txType (plain_tx ty s p l i) = ty" "tx_sender (plain_tx ty s p l i) = s"
  "tx_paymentTransaction (plain_tx ty s p l i) = p" "tx_applicationTransaction (plain_tx ty s p l i) = l"
  "tx_innerTxns (plain_tx ty s p l i) = i" "tx_assetTransferTransaction (plain_tx ty s p l i) = None"
  "tx_assetConfigTransaction (plain_tx ty s p l i) = None" "tx_keyregTransaction (plain_tx ty s p l i) = None"
  "tx_assetFreezeTransaction (plain_tx ty s p l i) = None"
  by (simp_all add: plain_tx_def)

definition no_filter :: AlgorandTransactionFilter where
  "no_filter = \<lparr>tf_txType = None, tf_sender = None, tf_receiver = None, tf_nonParticipant = None,
     tf_assetId = None, tf_newFreezeStatus = None, tf_address = None, tf_applicationId = None,
     tf_applicationArgs = None\<rparr>"

definition sample_call :: AlgorandTransaction where
  "sample_call = plain_tx ''appl'' ''ALICE'' None (Some
     \<lparr>app_accounts = None, app_applicationArgs = Some [''udVC'', ''AQ''], app_applicationId = 7,
      app_approvalProgram = None, app_clearStateProgram = None, app_extraProgramPages = None,
      app_foreignApps = None, app_foreignAssets = None, app_globalStateSchema = None,
      app_localStateSchema = None, app_onCompletion = EOnCompletion.noop\<rparr>) None"

lemma filterTransaction_meaning_witness:
  "filterTransaction algosdk_TT get_ref (tx_props sample_call) (js_of_AlgorandTransactionFilter
      (no_filter\<lparr>tf_txType := Some ''appl'', tf_sender := Some ''ALICE'',
        tf_applicationArgs := Some [None, Some ''AQ'']\<rparr>)) = Inr True
   \<and> filterTransaction algosdk_TT get_ref (tx_props sample_call) (js_of_AlgorandTransactionFilter
      (no_filter\<lparr>tf_applicationId := Some 8\<rparr>)) = Inr False"
  using filterTransaction_meaning [OF get_ref_contract inj_algosdk_TT, of sample_call Appl
      "no_filter\<lparr>tf_txType := Some ''appl'', tf_sender := Some ''ALICE'',
        tf_applicationArgs := Some [None, Some ''AQ'']\<rparr>"]
    filterTransaction_meaning [OF get_ref_contract inj_algosdk_TT, of sample_call Appl
      "no_filter\<lparr>tf_applicationId := Some 8\<rparr>"]
  by (simp add: sample_call_def no_filter_def algosdk_TT_def args_readable_def applicationArgs_of_def
      tx_matches_def wants_def sender_of_def applicationId_of_def args_match_def less_Suc_eq)

section \<open>Where the filter departs from its meaning\<close>

lemma keys_loop_append: "keys_loop TT lget txn (es @ fs)
    = bindR (keys_loop TT lget txn es) (\<lambda>ok. if ok then keys_loop TT lget txn fs else Inr False)"
proof (induction es)
  case (Cons e es)
  obtain k v where e: "e = (k, v)" by (cases e)
  show ?case
  proof (cases "literal_get (mappingFilterTransaction TT) (js_to_string (obj_get txn ''txType''))")
    case (Some paths)
    then show ?thesis using Cons.IH by (cases "txComparator v (lget txn (literal_get paths k))") (auto simp: e)
  qed (simp add: e Cons.IH)
qed simp

lemma comparator_no_array: "(\<And>xs. v \<noteq> JArr xs) \<Longrightarrow> txComparator v x = Inr (strict_eq v x)"
  by (cases v) auto

text \<open>
  C23. A filter with application arguments, on a typed transaction of a type the mapping knows that has none,
  throws: it reads the first argument of nothing. It does so exactly when its \<open>txType\<close>, if it has one that
  is not empty, is the type of the transaction, and the keys it lists before the arguments, none of which
  is an array, pass; otherwise it answers no before it comes to the arguments. This is so for an
  application call without arguments and for every transaction of another of these types.
\<close>

theorem filterTransaction_args_throw:
  assumes "lodash_get_contract lget" and "inj TT" and "tx_txType t = TT ty"
    and "applicationArgs_of ty t = None"
    and "filter (\<lambda>(k, v). k \<noteq> ''txType'') (own_entries fo) = before @ (''applicationArgs'', JArr (a # args)) # after"
    and "\<forall>(k, v) \<in> set before. \<forall>xs. v \<noteq> JArr xs"
  shows "filterTransaction TT lget (tx_props t) (JObj fo) =
    (if (truthy (obj_get fo ''txType'') \<longrightarrow> obj_get fo ''txType'' = JStr (TT ty))
        \<and> (\<forall>(k, v) \<in> set before. key_passes TT lget (tx_props t) k v)
     then Inl (TypeError (''Cannot read properties of undefined (reading '' @ [CHR 0x27] @ ''0'' @ [CHR 0x27] @ '')''))
     else Inr False)"
proof -
  have known: "literal_get (mappingFilterTransaction TT) (js_to_string (obj_get (tx_props t) ''txType'')) = Some (filter_paths ty)"
    using assms(2,3) by (simp add: mapping_known)
  have "show_nat 0 = ''0''" by (simp add: show_nat.simps digit_char_def char_of_codeI)
  with assms(1-4) have args: "keys_loop TT lget (tx_props t) ((''applicationArgs'', JArr (a # args)) # after)
      = Inl (TypeError (''Cannot read properties of undefined (reading '' @ [CHR 0x27] @ ''0'' @ [CHR 0x27] @ '')''))"
    by (simp only: keys_loop.simps known option.case field_reads(8)) (simp add: opt_val_def)
  have keys: "keys_loop TT lget (tx_props t) before = Inr (\<forall>(k, v) \<in> set before. key_passes TT lget (tx_props t) k v)"
    by (rule keys_loop_cases [OF _ known]) (use assms(6) comparator_no_array in blast)
  have type: "strict_eq (obj_get (tx_props t) ''txType'') (obj_get fo ''txType'') \<longleftrightarrow> obj_get fo ''txType'' = JStr (TT ty)"
    using assms(3) by auto
  show ?thesis
    unfolding filterTransaction_def own_props.simps Let_def type assms(5) keys_loop_append keys args by simp
qed

text \<open>On a payment: alone, with the type of the payment before the arguments, and with another type.\<close>

lemma filterTransaction_args_throw_witness:
  "filterTransaction algosdk_TT get_ref (tx_props (plain_tx ''pay'' ''ALICE'' None None None))
      (JObj [(''applicationArgs'', JArr [JStr ''udVC''])])
    = Inl (TypeError (''Cannot read properties of undefined (reading '' @ [CHR 0x27] @ ''0'' @ [CHR 0x27] @ '')''))
   \<and> filterTransaction algosdk_TT get_ref (tx_props (plain_tx ''pay'' ''ALICE'' None None None))
      (JObj [(''txType'', JStr ''pay''), (''sender'', JStr ''ALICE''), (''applicationArgs'', JArr [JStr ''udVC''])])
    = Inl (TypeError (''Cannot read properties of undefined (reading '' @ [CHR 0x27] @ ''0'' @ [CHR 0x27] @ '')''))
   \<and> filterTransaction algosdk_TT get_ref (tx_props (plain_tx ''pay'' ''ALICE'' None None None))
      (JObj [(''txType'', JStr ''appl''), (''applicationArgs'', JArr [JStr ''udVC''])]) = Inr False"
proof -
  let ?t = "plain_tx ''pay'' ''ALICE'' None None None" and ?args = "(''applicationArgs'', JArr [JStr ''udVC''])"
  have t: "tx_txType ?t = algosdk_TT Pay" "applicationArgs_of Pay ?t = None"
    by (simp_all add: algosdk_TT_def applicationArgs_of_def)
  have pass: "key_passes algosdk_TT get_ref (tx_props ?t) ''sender'' (JStr ''ALICE'')"
    using t(1) mapping_known [OF inj_algosdk_TT, of Pay] field_reads(1) [OF get_ref_contract, of ?t Pay]
    by (simp add: key_passes_def sender_of_def del: filter_paths_simps)
  note throws = filterTransaction_args_throw [OF get_ref_contract inj_algosdk_TT t]
  have es: "filter (\<lambda>(k, v). k \<noteq> ''txType'') (own_entries [?args]) = [] @ ?args # []"
    "filter (\<lambda>(k, v). k \<noteq> ''txType'') (own_entries [(''txType'', JStr ''pay''), (''sender'', JStr ''ALICE''), ?args])
      = [(''sender'', JStr ''ALICE'')] @ ?args # []"
    "filter (\<lambda>(k, v). k \<noteq> ''txType'') (own_entries [(''txType'', JStr ''appl''), ?args]) = [] @ ?args # []"
    by (simp_all add: own_entries_def is_index_def is_digit_def)
  show ?thesis
    unfolding throws [OF es(1), simplified] throws [OF es(2), simplified]
      throws [OF es(3), simplified]
    using pass by (simp add: algosdk_TT_def)
qed

text \<open>
  C29. A transaction whose type has no row in the mapping (a state proof, a heartbeat) passes every
  filter that does not name another type: none of the other keys is looked at.
\<close>

theorem filterTransaction_unmapped_type:
  assumes "\<And>ty. js_to_string (obj_get txn ''txType'') \<noteq> TT ty"
  shows "filterTransaction TT lget txn (JObj fo)
    = Inr (truthy (obj_get fo ''txType'') \<longrightarrow> strict_eq (obj_get txn ''txType'') (obj_get fo ''txType''))"
proof -
  have "keys_loop TT lget txn es = Inr True" for es
    using assms by (intro keys_loop_unknown mapping_unknown)
  then show ?thesis by (simp add: filterTransaction_def Let_def)
qed

lemma filterTransaction_unmapped_type_witness:
  "filterTransaction algosdk_TT get_ref [(''txType'', JStr ''stpf''), (''sender'', JStr ''BOB'')]
      (JObj [(''sender'', JStr ''ALICE'')]) = Inr True"
proof -
  have "js_to_string (obj_get [(''txType'', JStr ''stpf''), (''sender'', JStr ''BOB'')] ''txType'') \<noteq> algosdk_TT ty"
    for ty by (cases ty) (simp_all add: algosdk_TT_def)
  from filterTransaction_unmapped_type [OF this, where lget = get_ref and fo = "[(''sender'', JStr ''ALICE'')]"]
  show ?thesis by simp
qed

text \<open>
  The sender of an asset freeze can only be asked for as \<open>address\<close>: with \<open>sender\<close> every asset freeze
  is refused, also when it is the sender's, while \<open>address\<close> accepts exactly the sender's.
\<close>

lemma filterTransaction_freeze_sender:
  assumes "lodash_get_contract lget" and "inj TT" and "tx_txType t = TT Afrz"
  shows "filterTransaction TT lget (tx_props t)
      (js_of_AlgorandTransactionFilter (no_filter\<lparr>tf_sender := Some s\<rparr>)) = Inr False
    \<and> filterTransaction TT lget (tx_props t)
      (js_of_AlgorandTransactionFilter (no_filter\<lparr>tf_address := Some s\<rparr>)) = Inr (tx_sender t = s)"
proof -
  have "args_readable Afrz t (no_filter\<lparr>tf_sender := Some s\<rparr>)"
    "args_readable Afrz t (no_filter\<lparr>tf_address := Some s\<rparr>)"
    by (simp_all add: args_readable_def no_filter_def)
  with assms show ?thesis
    by (simp add: filter_decides) (simp add: tx_matches_def no_filter_def wants_def sender_of_def receiver_of_def
        nonParticipant_of_def assetId_of_def newFreezeStatus_of_def address_of_def applicationId_of_def)
qed

lemma filterTransaction_freeze_sender_demo:
  "filterTransaction algosdk_TT get_ref (tx_props (plain_tx ''afrz'' ''ALICE'' None None None))
      (js_of_AlgorandTransactionFilter (no_filter\<lparr>tf_sender := Some ''ALICE''\<rparr>)) = Inr False
    \<and> filterTransaction algosdk_TT get_ref (tx_props (plain_tx ''afrz'' ''ALICE'' None None None))
      (js_of_AlgorandTransactionFilter (no_filter\<lparr>tf_address := Some ''ALICE''\<rparr>)) = Inr True"
  using filterTransaction_freeze_sender [OF get_ref_contract inj_algosdk_TT,
      of "plain_tx ''afrz'' ''ALICE'' None None None" "''ALICE''"]
  by (simp add: algosdk_TT_def)

text \<open>
  C30. A key of the filter whose value is \<open>undefined\<close> does not count: the filter without such keys gives
  the same answer, exceptions included.
\<close>

theorem filterTransaction_undefined_keys:
  "filterTransaction TT lget txn (JObj (filter (\<lambda>e. snd e \<noteq> JUndef) (own_entries fo)))
    = filterTransaction TT lget txn (JObj fo)"
proof -
  let ?P = "\<lambda>e :: string \<times> jsval. snd e \<noteq> JUndef"
  have "obj_get (filter ?P (own_entries fo)) k = obj_get fo k" for k
  proof -
    have m: "map_of (filter ?P (own_entries fo)) k = Some v \<longleftrightarrow> map_of fo k = Some v \<and> v \<noteq> JUndef" for v
      by (simp add: own_entries_filter flip: set_own_entries_get)
    show ?thesis
    proof (cases "map_of (filter ?P (own_entries fo)) k")
      case None
      with m have "map_of fo k = None \<or> map_of fo k = Some JUndef"
        by (metis option.distinct(1) option.exhaust)
      with None show ?thesis by (auto simp: obj_get_def)
    next
      case (Some v)
      with m [of v] show ?thesis by (simp add: obj_get_def)
    qed
  qed
  moreover have "keys_loop TT lget txn (filter (\<lambda>(k, v). k \<noteq> ''txType'') (filter ?P (own_entries fo)))
      = keys_loop TT lget txn (filter (\<lambda>(k, v). k \<noteq> ''txType'') (own_entries fo))"
    by (subst (2) keys_loop_skip [symmetric]) (simp add: conj_commute)
  ultimately show ?thesis
    unfolding filterTransaction_def own_props.simps own_entries_filter Let_def
    by (simp del: filter_filter)
qed

text \<open>
  C31. A block filter passes a block exactly when the modulus, if one is set and not zero, divides
  the round, and node-core's timestamp filter passes.
\<close>

theorem filterBlock_meaning:
  assumes "obj_get block ''round'' = JNum r"
  shows "filterBlock fbt block (js_of_AlgorandBlockFilter f) \<longleftrightarrow>
     (case bf_modulo f of None \<Rightarrow> True | Some m \<Rightarrow> m = 0 \<or> m dvd r) \<and>
     fbt (obj_get block ''timestamp'') (js_of_AlgorandBlockFilter f)"
proof -
  obtain fo where fo: "js_of_AlgorandBlockFilter f = JObj fo"
    by (simp add: js_of_AlgorandBlockFilter_def)
  then have "obj_get fo ''modulo'' = opt_val JNum (bf_modulo f)"
    by (auto simp: js_of_AlgorandBlockFilter_def js_simps)
  with assms fo show ?thesis
    by (cases "bf_modulo f") (auto simp: filterBlock_def filterBlockModulo_int filterBlockModulo_absent)
qed

lemma filterBlock_meaning_witness:
  "filterBlock (\<lambda>t f. True) [(''round'', JNum 30)] (js_of_AlgorandBlockFilter \<lparr>bf_modulo = Some 10, bf_timestamp = None\<rparr>)
   \<and> \<not> filterBlock (\<lambda>t f. True) [(''round'', JNum 31)] (js_of_AlgorandBlockFilter \<lparr>bf_modulo = Some 10, bf_timestamp = None\<rparr>)"
  using filterBlock_meaning [of "[(''round'', JNum 30)]" 30 "\<lambda>t f. True" "\<lparr>bf_modulo = Some 10, bf_timestamp = None\<rparr>"]
    filterBlock_meaning [of "[(''round'', JNum 31)]" 31 "\<lambda>t f. True" "\<lparr>bf_modulo = Some 10, bf_timestamp = None\<rparr>"]
  by simp

end
