(* ===== verification/Indexing.thy ===== *)
theory Indexing
  imports Connection FilterSpec
begin

text \<open>
  \<^verbatim>\<open>packages/node/src/indexer/indexer.manager.ts\<close> and
  \<^verbatim>\<open>packages/node/src/indexer/types.ts\<close>: the order in which a block's content is
  handed to the handlers of a project, the filters by the kind of a handler, and the size of a block.
  node-core's \<open>indexData\<close> is a parameter: what it does with one datum and one datasource on a state
  of any type.
\<close>

section \<open>The size of a block\<close>

function countInnerTransactions :: "AlgorandTransaction \<Rightarrow> nat" where
  "countInnerTransactions tx = (case tx_innerTxns tx of
     None \<Rightarrow> 1
   | Some itxs \<Rightarrow> foldl (\<lambda>acc itx. acc + countInnerTransactions itx) 1 itxs)"
  by pat_completeness auto
termination by (relation "measure size") (auto simp: size_innerTxns)

declare countInnerTransactions.simps [simp del]

definition getBlockSize :: "AlgorandBlock \<Rightarrow> nat" where
  "getBlockSize block = (case blk_transactions block of
     None \<Rightarrow> 0
   | Some txs \<Rightarrow> foldl (\<lambda>acc tx. acc + countInnerTransactions tx) 0 txs)"

text \<open>All the transactions of a transaction: itself, then those its inner transactions hold.\<close>

function all_txns :: "AlgorandTransaction \<Rightarrow> AlgorandTransaction list" where
  "all_txns tx = tx # (case tx_innerTxns tx of None \<Rightarrow> [] | Some itxs \<Rightarrow> concat (map all_txns itxs))"
  by pat_completeness auto
termination by (relation "measure size") (auto simp: size_innerTxns)

declare all_txns.simps [simp del]

lemma foldl_plus: "foldl (\<lambda>acc x. acc + f x) (z::nat) xs = z + sum_list (map f xs)"
  by (induction xs arbitrary: z) simp_all

lemma countInnerTransactions_all: "countInnerTransactions tx = length (all_txns tx)"
proof (induction tx rule: all_txns.induct)
  case (1 tx)
  show ?case
  proof (cases "tx_innerTxns tx")
    case None
    then show ?thesis by (simp add: countInnerTransactions.simps all_txns.simps)
  next
    case (Some itxs)
    with 1 have "map countInnerTransactions itxs = map (\<lambda>t. length (all_txns t)) itxs" by simp
    then have "sum_list (map countInnerTransactions itxs) = length (concat (map all_txns itxs))"
      by (simp only: length_concat map_map comp_def)
    with Some show ?thesis
      by (simp add: countInnerTransactions.simps [of tx] all_txns.simps [of tx] foldl_plus)
  qed
qed

section \<open>The filters by kind\<close>

definition FilterTypeMap :: "(jsval \<Rightarrow> jsval \<Rightarrow> bool) \<Rightarrow> (TransactionType \<Rightarrow> string) \<Rightarrow> lodash_get
    \<Rightarrow> AlgorandHandlerKind \<Rightarrow> jsobj \<Rightarrow> jsval \<Rightarrow> bool res" where
  "FilterTypeMap fbt TT lget kind data f = (case kind of
     Block \<Rightarrow> Inr (filterBlock fbt data f)
   | Transaction \<Rightarrow> filterTransaction TT lget data f)"

definition ProcessorTypeMap :: "AlgorandHandlerKind \<Rightarrow> SecondLayerHandlerProcessor \<Rightarrow> bool" where
  "ProcessorTypeMap kind = (case kind of
     Block \<Rightarrow> isBlockHandlerProcessor
   | Transaction \<Rightarrow> isTransactionHandlerProcessor)"

definition baseCustomHandlerFilter :: "(jsval \<Rightarrow> jsval \<Rightarrow> bool) \<Rightarrow> (TransactionType \<Rightarrow> string) \<Rightarrow> lodash_get
    \<Rightarrow> string \<Rightarrow> jsobj \<Rightarrow> jsval \<Rightarrow> bool res" where
  "baseCustomHandlerFilter fbt TT lget kind data f =
     (if kind = handler_kind_value Block then Inr (filterBlock fbt data f)
      else if kind = handler_kind_value Transaction then filterTransaction TT lget data f
      else Inl (Error ''Unsupported handler kind''))"

definition prepareFilteredData :: "AlgorandHandlerKind \<Rightarrow> jsval \<Rightarrow> ('s, jsval) io" where
  "prepareFilteredData kind data = ioret data"

text \<open>
  What node-core's indexer relies on of the filters: without a filter everything passes, and a filter
  that refuses a datum keeps refusing it when it is asked through the other table.
\<close>

locale handler_filters =
  fixes by_kind :: "AlgorandHandlerKind \<Rightarrow> 'd \<Rightarrow> jsval \<Rightarrow> bool res"
    and by_name :: "string \<Rightarrow> 'd \<Rightarrow> jsval \<Rightarrow> bool res"
  assumes no_filter: "\<not> truthy f \<Longrightarrow> by_kind kind x f = Inr True"
    and same: "by_name (handler_kind_value kind) x f = by_kind kind x f"
    and unknown: "as_handler_kind name = None \<Longrightarrow> by_name name x f = Inl (Error ''Unsupported handler kind'')"
begin

lemma name_cases: "by_name name x f = (case as_handler_kind name of
    None \<Rightarrow> Inl (Error ''Unsupported handler kind'') | Some kind \<Rightarrow> by_kind kind x f)"
proof (cases "as_handler_kind name")
  case None
  then show ?thesis using unknown [OF None] by (simp del: as_handler_kind.simps)
next
  case (Some kind)
  then have "name = handler_kind_value kind" by (simp split: if_splits)
  with Some same show ?thesis by (simp del: as_handler_kind.simps)
qed

lemma name_no_filter: "\<not> truthy f \<Longrightarrow> as_handler_kind name \<noteq> None \<Longrightarrow> by_name name x f = Inr True"
  unfolding name_cases using no_filter by (auto simp del: as_handler_kind.simps)

end

interpretation tables: handler_filters "FilterTypeMap fbt TT lget" "baseCustomHandlerFilter fbt TT lget"
  for fbt TT lget
proof
  fix f kind x name
  show "\<not> truthy f \<Longrightarrow> FilterTypeMap fbt TT lget kind x f = Inr True"
    by (simp add: FilterTypeMap_def filterBlock_def filterTransaction_def split: AlgorandHandlerKind.splits)
  show "baseCustomHandlerFilter fbt TT lget (handler_kind_value kind) x f = FilterTypeMap fbt TT lget kind x f"
    by (cases kind) (simp_all add: baseCustomHandlerFilter_def FilterTypeMap_def)
  show "as_handler_kind name = None \<Longrightarrow>
      baseCustomHandlerFilter fbt TT lget name x f = Inl (Error ''Unsupported handler kind'')"
    by (auto simp: baseCustomHandlerFilter_def split: if_splits)
qed

section \<open>The content of a block\<close>

text \<open>\<open>for (const x of xs) { await body(x) }\<close>\<close>

fun iofor :: "'a list \<Rightarrow> ('a \<Rightarrow> ('s, unit) io) \<Rightarrow> ('s, unit) io" where
  "iofor [] body = ioret ()"
| "iofor (x # xs) body = iobind (body x) (\<lambda>_. iofor xs body)"

text \<open>What a \<open>for\<close> loop iterates over: an array, the characters of a text, and nothing else here.\<close>

fun js_iterate :: "jsval \<Rightarrow> jsval list res" where
  "js_iterate (JArr xs) = Inr xs"
| "js_iterate (JStr s) = Inr (map (\<lambda>c. JStr [c]) s)"
| "js_iterate v = Inl (TypeError ''object is not iterable'')"

type_synonym ('s, 'vm) indexData =
  "AlgorandHandlerKind \<Rightarrow> jsval \<Rightarrow> AlgorandDataSource \<Rightarrow> (AlgorandDataSource \<Rightarrow> 'vm) \<Rightarrow> ('s, unit) io"

definition indexBlockContent :: "('s, 'vm) indexData \<Rightarrow> nat \<Rightarrow> AlgorandDataSource list
    \<Rightarrow> (AlgorandDataSource \<Rightarrow> 'vm) \<Rightarrow> ('s, unit) io" where
  "indexBlockContent indexData block dataSources getVM =
     iofor dataSources (\<lambda>ds. indexData Block (JRef block) ds getVM)"

definition indexBlockTransactionContent :: "('s, 'vm) indexData \<Rightarrow> jsval \<Rightarrow> AlgorandDataSource list
    \<Rightarrow> (AlgorandDataSource \<Rightarrow> 'vm) \<Rightarrow> ('s, unit) io" where
  "indexBlockTransactionContent indexData txn dataSources getVM =
     iofor dataSources (\<lambda>ds. indexData Transaction txn ds getVM)"

text \<open>\<open>block.transactions ?? []\<close>, read when the block's own handlers are done.\<close>

definition blockTransactions :: "('s \<Rightarrow> jsheap) \<Rightarrow> nat \<Rightarrow> ('s, jsval list) io" where
  "blockTransactions heap_of block s =
     Some (js_iterate (js_default (obj_get (deref (heap_of s) block) ''transactions'') (JArr [])), s)"

definition indexBlockData :: "('s \<Rightarrow> jsheap) \<Rightarrow> ('s, 'vm) indexData \<Rightarrow> nat \<Rightarrow> AlgorandDataSource list
    \<Rightarrow> (AlgorandDataSource \<Rightarrow> 'vm) \<Rightarrow> ('s, unit) io" where
  "indexBlockData heap_of indexData block dataSources getVM =
     iobind (indexBlockContent indexData block dataSources getVM) (\<lambda>_.
     iobind (blockTransactions heap_of block) (\<lambda>txs.
     iofor txs (\<lambda>tx. indexBlockTransactionContent indexData tx dataSources getVM)))"

text \<open>The API the handlers of a block see is the one of its round.\<close>

definition getApi :: "('s \<Rightarrow> jsheap) \<Rightarrow> nat \<Rightarrow> ('s, SafeAPIService) io" where
  "getApi heap_of block s = Some (Inr (getSafeApi (obj_get (deref (heap_of s) block) ''round'')), s)"

text \<open>node-core's \<open>internalIndexBlock\<close> is given how to get the API of the block.\<close>

definition indexBlock :: "(IBlock \<Rightarrow> AlgorandDataSource list \<Rightarrow> ('s, SafeAPIService) io \<Rightarrow> ('s, 'r) io)
    \<Rightarrow> ('s \<Rightarrow> jsheap) \<Rightarrow> IBlock \<Rightarrow> AlgorandDataSource list \<Rightarrow> ('s, 'r) io" where
  "indexBlock internalIndexBlock heap_of block dataSources =
     internalIndexBlock block dataSources (getApi heap_of (ib_block block))"

section \<open>Properties\<close>

text \<open>The calls a block is owed: the block for every datasource, then each transaction for every
  datasource, transactions and datasources in their order.\<close>

definition owed :: "nat \<Rightarrow> jsval list \<Rightarrow> AlgorandDataSource list \<Rightarrow> (AlgorandHandlerKind \<times> jsval \<times> AlgorandDataSource) list" where
  "owed block txs dss = map (\<lambda>ds. (Block, JRef block, ds)) dss
     @ concat (map (\<lambda>tx. map (\<lambda>ds. (Transaction, tx, ds)) dss) txs)"

definition run_calls :: "('s, 'vm) indexData \<Rightarrow> (AlgorandDataSource \<Rightarrow> 'vm)
    \<Rightarrow> (AlgorandHandlerKind \<times> jsval \<times> AlgorandDataSource) list \<Rightarrow> ('s, unit) io" where
  "run_calls indexData getVM calls = iofor calls (\<lambda>(kind, data, ds). indexData kind data ds getVM)"

lemma iobind_assoc: "iobind (iobind m f) g = iobind m (\<lambda>x. iobind (f x) g)"
  by (rule ext) (auto simp: iobind_def split: option.splits prod.splits sum.splits)

lemma iobind_ret: "iobind (ioret x) f = f x"
  by (rule ext) (simp add: iobind_def ioret_def)

lemma iofor_append: "iofor (xs @ ys) body = iobind (iofor xs body) (\<lambda>_. iofor ys body)"
  by (induction xs) (simp_all add: iobind_assoc iobind_ret)

lemma iofor_map: "iofor (map g xs) body = iofor xs (\<lambda>x. body (g x))"
  by (induction xs) simp_all

lemma iofor_concat: "iofor (concat (map g xs)) body = iofor xs (\<lambda>x. iofor (g x) body)"
  by (induction xs) (simp_all add: iofor_append)

lemma keeps_iofor: "(\<And>x. x \<in> set xs \<Longrightarrow> keeps I (body x)) \<Longrightarrow> keeps I (iofor xs body)"
  by (induction xs) (auto intro!: keeps_bind keeps_ret)

lemma iobind_run_cong:
  "(\<And>x s'. m s = Some (Inr x, s') \<Longrightarrow> f x s' = g x s') \<Longrightarrow> iobind m f s = iobind m g s"
  by (auto simp: iobind_def split: option.splits prod.splits sum.splits)

text \<open>
  C13. Indexing a block is exactly its calls in their order: the block first, for every datasource,
  then the transactions in the order of the block, each for every datasource, whatever \<open>indexData\<close>
  does and wherever it fails: no call comes before its turn, and none after a failure. A block without
  transactions is only its block calls. The handlers of the block itself must not replace its list of
  transactions, which is read when they are done.
\<close>

theorem indexBlockData_order:
  fixes indexData :: "('s, 'vm) indexData"
  assumes "obj_get (deref (heap_of s) b) ''transactions'' = (if none then JUndef else JArr txs)"
    and frame: "\<forall>ds t r t'. indexData Block (JRef b) ds getVM t = Some (r, t') \<longrightarrow>
      obj_get (deref (heap_of t') b) ''transactions'' = obj_get (deref (heap_of t) b) ''transactions''"
  shows "indexBlockData heap_of indexData b dss getVM s
    = run_calls indexData getVM (owed b (if none then [] else txs) dss) s"
proof -
  let ?I = "\<lambda>t. obj_get (deref (heap_of t) b) ''transactions'' = (if none then JUndef else JArr txs)"
  let ?txs = "if none then [] else txs"
  let ?rest = "\<lambda>txs. iofor txs (\<lambda>tx. indexBlockTransactionContent indexData tx dss getVM)"
  have keep: "keeps ?I (indexBlockContent indexData b dss getVM)"
    unfolding indexBlockContent_def using frame by (intro keeps_iofor keepsI) auto
  have "iobind (blockTransactions heap_of b) ?rest t = ?rest ?txs t"
    if "indexBlockContent indexData b dss getVM s = Some (Inr x, t)" for x t
    using keepsD [OF keep assms(1) that] by (auto simp: blockTransactions_def iobind_def js_default_def)
  then have "indexBlockData heap_of indexData b dss getVM s
      = iobind (indexBlockContent indexData b dss getVM) (\<lambda>_. ?rest ?txs) s"
    unfolding indexBlockData_def by (rule iobind_run_cong)
  then show ?thesis
    by (simp add: indexBlockContent_def indexBlockTransactionContent_def
        run_calls_def owed_def iofor_append iofor_map iofor_concat)
qed

text \<open>A trace of the calls, failing at the second transaction.\<close>

definition demo_indexData :: "((AlgorandHandlerKind \<times> jsval) list, unit) indexData" where
  "demo_indexData kind data ds getVM trace =
     Some (if data = JStr ''T2'' then Inl (Error ''handler failed'') else Inr (), trace @ [(kind, data)])"

definition demo_ds :: AlgorandDataSource where
  "demo_ds = \<lparr>ds_kind = ''algorand/Runtime'', ds_startBlock = Some 1,
     ds_mapping = \<lparr>m_file = ''./dist/index.js'', m_handlers = []\<rparr>, ds_processor = None, ds_assets = []\<rparr>"

theorem indexBlockData_order_witness:
  "indexBlockData (\<lambda>_. [[(''transactions'', JArr [JStr ''T1'', JStr ''T2'', JStr ''T3''])]]) demo_indexData 0 [demo_ds] (\<lambda>_. ()) []
     = Some (Inl (Error ''handler failed''), [(Block, JRef 0), (Transaction, JStr ''T1''), (Transaction, JStr ''T2'')])"
proof -
  let ?heap = "\<lambda>_. [[(''transactions'', JArr [JStr ''T1'', JStr ''T2'', JStr ''T3''])]]"
  have "obj_get (deref (?heap []) 0) ''transactions''
      = (if False then JUndef else JArr [JStr ''T1'', JStr ''T2'', JStr ''T3''])"
    by (simp add: deref_def)
  from indexBlockData_order [of ?heap, OF this, of demo_indexData "\<lambda>_. ()" "[demo_ds]"]
  show ?thesis by (simp add: run_calls_def owed_def iobind_def demo_indexData_def)
qed

text \<open>
  C32. The size of a block is the number of all its transactions, inner ones at every depth included.
\<close>

theorem getBlockSize_counts:
  "getBlockSize block = (case blk_transactions block of None \<Rightarrow> 0 | Some txs \<Rightarrow> length (concat (map all_txns txs)))"
proof -
  have "foldl (\<lambda>acc tx. acc + countInnerTransactions tx) z txs = z + length (concat (map all_txns txs))" for z txs
    by (induction txs arbitrary: z) (simp_all add: countInnerTransactions_all)
  then show ?thesis by (simp add: getBlockSize_def split: option.splits)
qed

text \<open>
  A base handler of a custom datasource is filtered as a handler of the runtime kind is: a kind the
  enum has goes through the same filter, everything passes without a filter, and any other kind is an
  error.
\<close>

lemma baseCustomHandlerFilter_dispatch:
  "baseCustomHandlerFilter fbt TT lget name x f = (case as_handler_kind name of
      None \<Rightarrow> Inl (Error ''Unsupported handler kind'')
    | Some kind \<Rightarrow> if truthy f then FilterTypeMap fbt TT lget kind x f else Inr True)"
  using tables.name_cases [of fbt TT lget name x f] tables.no_filter [of f fbt TT lget]
  by (auto simp del: as_handler_kind.simps split: option.splits)

end
