(* ===== verification/Services.thy ===== *)
theory Services
  imports Indexing
begin

text \<open>
  The services node-core drives: \<^verbatim>\<open>packages/node/src/blockchain.service.ts\<close> and
  \<^verbatim>\<open>packages/node/src/indexer/worker/worker.service.ts\<close>. node-core's \<open>ApiService.fetchBlocks\<close>
  and \<open>internalIndexBlock\<close> are parameters. A method that reads or changes the client runs on its state.
\<close>

section \<open>The blockchain service\<close>

definition BLOCK_TIME_VARIANCE :: int where
  "BLOCK_TIME_VARIANCE = 5000"

text \<open>0.9, in tenths: the product with the block time of 3300 ms is the double 2970.\<close>

definition INTERVAL_TENTHS :: int where
  "INTERVAL_TENTHS = 9"

definition service_fetchBlocks :: "(int list \<Rightarrow> ('s, IBlock list) io) \<Rightarrow> int list \<Rightarrow> ('s, IBlock list) io" where
  "service_fetchBlocks apiService_fetchBlocks blockNums = apiService_fetchBlocks blockNums"

text \<open>A worker is asked for a block with its height and the unused worker count 0.\<close>

definition fetchBlockWorker :: "(int \<Rightarrow> int \<Rightarrow> ('s, Header) io) \<Rightarrow> int \<Rightarrow> ('s, Header) io" where
  "fetchBlockWorker worker_fetchBlock blockNum = worker_fetchBlock blockNum 0"

definition service_getBlockSize :: "AlgorandBlock \<Rightarrow> nat" where
  "service_getBlockSize block = getBlockSize block"

definition headerOf :: "nat \<Rightarrow> ('w, Header) api" where
  "headerOf block s = Some (Inr (algorandBlockToHeader (deref (heap s) block)), s)"

definition getFinalizedHeader :: "'w deps \<Rightarrow> ('w, Header) api" where
  "getFinalizedHeader d = iobind (getLatestBlockHeader d) headerOf"

definition getBestHeight :: "'w deps \<Rightarrow> ('w, jsval) api" where
  "getBestHeight d = healthRound d"

definition getChainInterval :: int where
  "getChainInterval = min BLOCK_TIME_VARIANCE (calcInterval * INTERVAL_TENTHS div 10)"

definition getHeaderForHeight :: "'w deps \<Rightarrow> jsval \<Rightarrow> ('w, Header) api" where
  "getHeaderForHeight d height = iobind (getHeaderOnly d height) headerOf"

definition getHeaderForHash :: "'w deps \<Rightarrow> string \<Rightarrow> ('w, Header) api" where
  "getHeaderForHash d hash = getHeaderForHeight d (parseInt10 hash)"

definition getBlockTimestamp :: "'w deps \<Rightarrow> jsval \<Rightarrow> ('w, js_date) api" where
  "getBlockTimestamp d height = iobind (getHeaderForHeight d height) (\<lambda>h. ioret (timestamp h))"

text \<open>\<open>{ ...a, ...b }\<close>\<close>

definition js_merge :: "jsval \<Rightarrow> jsval \<Rightarrow> jsobj" where
  "js_merge a b = spread_into (spread_into [] (spread_props [] a)) (spread_props [] b)"

definition updateDynamicDs :: "(TransactionType \<Rightarrow> string) \<Rightarrow> jsval \<Rightarrow> AlgorandDataSource \<Rightarrow> AlgorandDataSource" where
  "updateDynamicDs TT args dsObj =
     (if isCustomDs dsObj
      then dsObj\<lparr>ds_processor := map_option (\<lambda>p. p\<lparr>p_options := JObj (js_merge (p_options p) args)\<rparr>) (ds_processor dsObj)\<rparr>
      else if isRuntimeDs dsObj
      then dsObj\<lparr>ds_mapping := (ds_mapping dsObj)\<lparr>m_handlers :=
        map (\<lambda>h. h\<lparr>h_filter := JObj (obj_put (spread_into [] (spread_props [] (h_filter h))) ''txType'' (JStr (TT Appl)))\<rparr>)
          (m_handlers (ds_mapping dsObj))\<rparr>\<rparr>
      else dsObj)"

definition service_getSafeApi :: "('s \<Rightarrow> jsheap) \<Rightarrow> nat \<Rightarrow> ('s, SafeAPIService) io" where
  "service_getSafeApi heap_of block s = Some (Inr (getSafeApi (obj_get (deref (heap_of s) block) ''round'')), s)"

text \<open>A new project changes nothing here: the body of the method is a comment.\<close>

definition onProjectChange :: "'project \<Rightarrow> ('s, unit) io" where
  "onProjectChange project = ioret ()"

section \<open>The worker\<close>

text \<open>\<open>const [block] = await fetchBlocks([heights])\<close>: \<open>None\<close> is the \<open>undefined\<close> of an empty array.\<close>

definition fetchChainBlock :: "(int list \<Rightarrow> ('s, IBlock list) io) \<Rightarrow> int \<Rightarrow> ('s, IBlock option) io" where
  "fetchChainBlock apiService_fetchBlocks heights =
     iobind (apiService_fetchBlocks [heights]) (\<lambda>blocks.
       ioret (case blocks of [] \<Rightarrow> None | block # _ \<Rightarrow> Some block))"

definition toBlockResponse :: "jsobj \<Rightarrow> Header" where
  "toBlockResponse block = algorandBlockToHeader block"

definition processFetchedBlock :: "(IBlock \<Rightarrow> AlgorandDataSource list \<Rightarrow> ('s, SafeAPIService) io \<Rightarrow> ('s, 'r) io)
    \<Rightarrow> ('s \<Rightarrow> jsheap) \<Rightarrow> IBlock \<Rightarrow> AlgorandDataSource list \<Rightarrow> ('s, 'r) io" where
  "processFetchedBlock internalIndexBlock heap_of block dataSources =
     indexBlock internalIndexBlock heap_of block dataSources"

definition worker_getBlockSize :: "AlgorandBlock \<Rightarrow> nat" where
  "worker_getBlockSize block = getBlockSize block"

section \<open>Properties\<close>

text \<open>
  On a chain the node serves, the worker of any height gets that height's block, and the response
  it gives for it is the header of the chain, hash of the round and of the round before included.
\<close>

lemma worker_block:
  assumes "serves d C lastRound" "0 \<le> n" "n < lastRound" "chain_ok d C s"
  shows "\<exists>b s'. fetchChainBlock (fetchBlocks d) n s = Some (Inr (Some b), s')
    \<and> toBlockResponse (deref (heap s') (ib_block b)) = chain_header C n \<and> chain_ok d C s'"
proof -
  from client.fetch_one [of d C lastRound s n] assms obtain b s' where
    "fetchBlocks d [n] s = Some (Inr [b], s')" "chain_ok d C s'" "getHeader (heap s') b = chain_header C n" by blast
  then show ?thesis
    by (simp add: fetchChainBlock_def iobind_def ioret_def toBlockResponse_def getHeader_def)
qed

text \<open>The header of a header-only reply, whose keys the indexer writes with hyphens.\<close>

definition raw_header :: "int \<Rightarrow> int \<Rightarrow> Header" where
  "raw_header n t = \<lparr>blockHeight = JNum n, blockHash = JUndef, parentHash = JUndef, timestamp = new_Date (JNum (t * 1000))\<rparr>"

lemma getHeaderForHeight_raw:
  assumes "lookupBlock_headerOnly_do d h (world s) = (Inr (JObj hdr), w)"
    and "obj_get hdr ''round'' = JNum n" "obj_get hdr ''timestamp'' = JNum t"
    and "\<not> obj_has hdr ''hash''" "\<not> obj_has hdr ''previousBlockHash''" "\<not> obj_has hdr ''transactions''"
  shows "\<exists>s'. getHeaderForHeight d h s = Some (Inr (raw_header n t), s')"
proof -
  have "getHeaderOnly d h s = Some (Inr (length (heap s)),
      s\<lparr>world := w, heap := heap s @ [block_object [] (JObj hdr) JUndef]\<rparr>)"
    using getHeaderOnly_run [of d h s hdr w JUndef] assms by (simp add: obj_get_absent)
  then show ?thesis
    using assms(2-5)
    by (simp add: getHeaderForHeight_def iobind_def headerOf_def algorandBlockToHeader_def raw_header_def
        block_object_get obj_get_absent)
qed

text \<open>
  C33. The headers the service answers with by height and for the finalized block have neither the hash
  of the block nor the hash of its parent: a header-only reply is used with the keys of the indexer,
  \<open>previous-block-hash\<close> among them, and its hash is never looked up.
\<close>

theorem service_header_without_hashes:
  assumes "lookupBlock_headerOnly_do d h (world s) = (Inr (JObj hdr), w)"
    and "obj_get hdr ''round'' = JNum n" "obj_get hdr ''timestamp'' = JNum t"
    and "\<not> obj_has hdr ''hash''" "\<not> obj_has hdr ''previousBlockHash''" "\<not> obj_has hdr ''transactions''"
  shows "\<exists>r s'. getHeaderForHeight d h s = Some (Inr r, s') \<and> blockHeight r = JNum n
    \<and> blockHash r = JUndef \<and> parentHash r = JUndef
    \<and> (\<forall>v. healthRound d v = Some (Inr h, s) \<longrightarrow> getFinalizedHeader d v = Some (Inr r, s'))"
proof -
  obtain s' where h: "getHeaderForHeight d h s = Some (Inr (raw_header n t), s')"
    using getHeaderForHeight_raw [OF assms] by blast
  have "getFinalizedHeader d v = getHeaderForHeight d h s" if "healthRound d v = Some (Inr h, s)" for v
    using that by (simp add: getFinalizedHeader_def getLatestBlockHeader_def getHeaderForHeight_def iobind_def)
  with h show ?thesis by (simp add: raw_header_def)
qed

theorem service_header_without_hashes_witness:
  "\<exists>r s'. getFinalizedHeader demo_deps (new_AlgorandApi 0) = Some (Inr r, s')
     \<and> blockHeight r = JNum 97 \<and> blockHash r = JUndef \<and> parentHash r = JUndef"
proof -
  let ?s = "(new_AlgorandApi (0::nat))\<lparr>world := 1\<rparr>"
  have h: "healthRound demo_deps (new_AlgorandApi 0) = Some (Inr (JNum 97), ?s)"
    by (simp add: healthRound_def iobind_def request_def new_AlgorandApi_def)
  have "lookupBlock_headerOnly_do demo_deps (JNum 97) (world ?s) = (Inr (JObj (demo_header 97)), 2)" by simp
  from service_header_without_hashes [OF this, of 97 "1600000000 + 3 * 97"] h show ?thesis
    by (fastforce simp: demo_header_def)
qed

text \<open>
  A hash is looked up as if it were the decimal text of a height: the text of a height gives that
  height's header, and a hash that starts with a letter, as base32 and most base64 texts do, asks the
  node for the block \<open>NaN\<close>.
\<close>

lemma getHeaderForHash_parses:
  "getHeaderForHash d (show_int n) = getHeaderForHeight d (JNum n)
   \<and> (\<not> is_digit c \<and> \<not> is_space c \<and> c \<noteq> CHR ''-'' \<and> c \<noteq> CHR ''+'' \<longrightarrow>
        getHeaderForHash d (c # hash) = getHeaderForHeight d JNaN)"
  by (simp add: getHeaderForHash_def parseInt10_show_int parseInt10_NaN)

lemma getHeaderForHash_parses_demo:
  "getHeaderForHash demo_deps ''wGHE2Pwdvd7S12BL5FaOP20EGYesN73ktiC1qzkkit8=''
     = getHeaderForHeight demo_deps JNaN"
  using getHeaderForHash_parses [of demo_deps 0 "CHR ''w''" "''GHE2Pwdvd7S12BL5FaOP20EGYesN73ktiC1qzkkit8=''"]
  by (simp add: is_digit_def is_space_def)

text \<open>The chain is polled every nine tenths of its block time.\<close>

lemma getChainInterval_value: "getChainInterval = 2970"
  by (simp add: getChainInterval_def BLOCK_TIME_VARIANCE_def INTERVAL_TENTHS_def calcInterval_def)

text \<open>
  C25. A dynamic runtime datasource only ever sees application calls: after \<open>updateDynamicDs\<close> a
  transaction passes a handler's filter when it is an application call and meets the handler's other
  keys, and whatever transaction type the handler had asked for is forgotten. The number, kinds and
  functions of the handlers stay.
\<close>

theorem updateDynamicDs_runtime:
  assumes "isRuntimeDs dsObj" "i < length (m_handlers (ds_mapping dsObj))" "TT Appl \<noteq> []"
    and "h_filter (m_handlers (ds_mapping dsObj) ! i) = (if unfiltered then JUndef else JObj fo)"
  shows "let hs = m_handlers (ds_mapping dsObj); hs' = m_handlers (ds_mapping (updateDynamicDs TT args dsObj)) in
     length hs' = length hs \<and> h_kind (hs' ! i) = h_kind (hs ! i) \<and> h_handler (hs' ! i) = h_handler (hs ! i)
     \<and> (filterTransaction TT lget txn (h_filter (hs' ! i)) = Inr True \<longleftrightarrow>
          obj_get txn ''txType'' = JStr (TT Appl)
          \<and> (unfiltered \<or> (\<forall>k. k \<noteq> ''txType'' \<longrightarrow> obj_has fo k \<longrightarrow> key_passes TT lget txn k (obj_get fo k))))"
proof -
  let ?new = "obj_put (spread_into [] (spread_props [] (h_filter (m_handlers (ds_mapping dsObj) ! i))))
      ''txType'' (JStr (TT Appl))"
  have "\<not> isCustomDs dsObj" using assms(1) isCustomDs_not_runtime by blast
  then have hs: "m_handlers (ds_mapping (updateDynamicDs TT args dsObj)) ! i
      = (m_handlers (ds_mapping dsObj) ! i)\<lparr>h_filter := JObj ?new\<rparr>"
    and len: "length (m_handlers (ds_mapping (updateDynamicDs TT args dsObj))) = length (m_handlers (ds_mapping dsObj))"
    using assms(1,2) by (simp_all add: updateDynamicDs_def)
  have get: "obj_get ?new k = (if k = ''txType'' then JStr (TT Appl) else if unfiltered then JUndef else obj_get fo k)"
    and has: "obj_has ?new k \<longleftrightarrow> k = ''txType'' \<or> (\<not> unfiltered \<and> obj_has fo k)" for k
    using assms(4) by (auto simp del: obj_get_spread)
  have "filterTransaction TT lget txn (JObj ?new) = Inr True \<longleftrightarrow> obj_get txn ''txType'' = JStr (TT Appl)
      \<and> (unfiltered \<or> (\<forall>k. k \<noteq> ''txType'' \<longrightarrow> obj_has fo k \<longrightarrow> key_passes TT lget txn k (obj_get fo k)))"
    unfolding filterTransaction_True_iff_keys get has using assms(3) by auto
  then show ?thesis unfolding Let_def hs len by simp
qed

definition pay_filter_ds :: AlgorandDataSource where
  "pay_filter_ds = demo_ds\<lparr>ds_mapping := \<lparr>m_file = ''./dist/index.js'', m_handlers =
     [\<lparr>h_kind = handler_kind_value Transaction, h_handler = ''handlePay'',
        h_filter = JObj [(''txType'', JStr ''pay''), (''sender'', JStr ''ALICE'')]\<rparr>]\<rparr>\<rparr>"

theorem updateDynamicDs_runtime_witness:
  "filterTransaction algosdk_TT get_ref [(''txType'', JStr ''pay''), (''sender'', JStr ''ALICE'')]
     (h_filter (m_handlers (ds_mapping (updateDynamicDs algosdk_TT JUndef pay_filter_ds)) ! 0)) \<noteq> Inr True"
proof -
  have 1: "isRuntimeDs pay_filter_ds" "0 < length (m_handlers (ds_mapping pay_filter_ds))" "algosdk_TT Appl \<noteq> []"
    and 2: "h_filter (m_handlers (ds_mapping pay_filter_ds) ! 0)
      = (if False then JUndef else JObj [(''txType'', JStr ''pay''), (''sender'', JStr ''ALICE'')])"
    by (simp_all add: pay_filter_ds_def demo_ds_def isRuntimeDs_def algosdk_TT_def)
  show ?thesis
    using updateDynamicDs_runtime [where TT = algosdk_TT, OF 1 2, of JUndef get_ref "[(''txType'', JStr ''pay''), (''sender'', JStr ''ALICE'')]"]
    by (simp add: Let_def algosdk_TT_def)
qed

end
