(* ===== verification/Dictionary.thy ===== *)
theory Dictionary
  imports Services
begin

text \<open>
  The dictionary: \<^verbatim>\<open>packages/node/src/indexer/dictionary/v1/algorandDictionaryV1.ts\<close>, which
  turns the handlers of a project into queries for the rounds worth indexing, and
  \<^verbatim>\<open>packages/node/src/indexer/dictionary/algorandDictionary.service.ts\<close>, which finds the
  dictionaries. Parameters: lodash's \<open>sortBy\<close> and \<open>uniqBy\<close>, the lookup of a datasource's processor,
  the registry's \<open>resolveDictionary\<close> and the connection to one dictionary.
\<close>

section \<open>Queries\<close>

record DictionaryQueryCondition =
  c_field :: string
  c_value :: jsval
  c_matcher :: string

record DictionaryQueryEntry =
  q_entity :: string
  q_conditions :: "DictionaryQueryCondition list"

definition js_of_condition :: "DictionaryQueryCondition \<Rightarrow> jsval" where
  "js_of_condition c = JObj [(''field'', JStr (c_field c)), (''value'', c_value c), (''matcher'', JStr (c_matcher c))]"

type_synonym GetDsProcessor = "AlgorandDataSource \<Rightarrow> AlgorandDataSourceProcessor res"

definition getBaseHandlerKind :: "AlgorandDataSource \<Rightarrow> AlgorandHandler \<Rightarrow> GetDsProcessor \<Rightarrow> string res" where
  "getBaseHandlerKind ds h getDsProcessor =
     (if isRuntimeDs ds \<and> isBaseHandler h then Inr (h_kind h)
      else if isCustomDs ds \<and> isCustomHandler h then
        bindR (getDsProcessor ds) (\<lambda>plugin.
          case Option.bind (handlerProcessors plugin (h_kind h)) baseHandlerKind of
            Some k \<Rightarrow> if k \<noteq> [] then Inr k
              else Inl (Error (''handler type '' @ h_kind h @ '' not found in processor for '' @ ds_kind ds))
          | None \<Rightarrow> Inl (Error (''handler type '' @ h_kind h @ '' not found in processor for '' @ ds_kind ds)))
      else Inl (Error ''unknown base handler kind''))"

definition getBaseHandlerFilters :: "AlgorandDataSource \<Rightarrow> string \<Rightarrow> GetDsProcessor \<Rightarrow> jsval list res" where
  "getBaseHandlerFilters ds handlerKind getDsProcessor =
     (if isCustomDs ds then
        bindR (getDsProcessor ds) (\<lambda>plugin. case handlerProcessors plugin handlerKind of
          None \<Rightarrow> Inl (TypeError (''Cannot read properties of undefined (reading '' @ [CHR 0x27] @ ''baseFilter'' @ [CHR 0x27] @ '')''))
        | Some processor \<Rightarrow> Inr (case baseFilter processor of JArr fs \<Rightarrow> fs | f \<Rightarrow> [f]))
      else Inl (Error ''Expected a custom datasource here''))"

text \<open>\<open>Object.entries(f)\<close> without the arguments and without what is undefined, as conditions.\<close>

definition conditions_of :: "jsval \<Rightarrow> DictionaryQueryCondition list" where
  "conditions_of f = map (\<lambda>(field, v). \<lparr>c_field = field, c_value = v, c_matcher = ''equalTo''\<rparr>)
     (filter (\<lambda>(field, v). field \<noteq> ''applicationArgs'' \<and> v \<noteq> JUndef) (spread_props [] f))"

definition entry_of :: "jsval \<Rightarrow> DictionaryQueryEntry" where
  "entry_of f = \<lparr>q_entity = ''transactions'', q_conditions = conditions_of f\<rparr>"

text \<open>
  The filters of one handler, and the queries they add: \<open>None\<close> is the early \<open>return []\<close> of the whole
  function.
\<close>

definition handler_filterList :: "AlgorandDataSource \<Rightarrow> AlgorandHandler \<Rightarrow> GetDsProcessor \<Rightarrow> jsval list res" where
  "handler_filterList ds h getDsProcessor =
     (if isCustomDs ds then getBaseHandlerFilters ds (h_kind h) getDsProcessor
      else Inr (if truthy (h_filter h) then [h_filter h] else []))"

definition handler_entries :: "AlgorandDataSource \<Rightarrow> AlgorandHandler \<Rightarrow> GetDsProcessor \<Rightarrow> DictionaryQueryEntry list option res" where
  "handler_entries ds h getDsProcessor =
     bindR (getBaseHandlerKind ds h getDsProcessor) (\<lambda>kind.
     bindR (handler_filterList ds h getDsProcessor) (\<lambda>fs.
       let filterList = filter truthy fs in
       if filterList = [] then Inr None
       else if kind = handler_kind_value Block then
         (if \<exists>f \<in> set filterList. obj_get (own_props [] f) ''modulo'' = JUndef then Inr None else Inr (Some []))
       else if kind = handler_kind_value Transaction then Inr (Some (map entry_of filterList))
       else Inr (Some [])))"

text \<open>The two nested loops: the entries of each round in their order, unless one returns early.\<close>

fun collect :: "('a \<Rightarrow> 'b list option res) \<Rightarrow> 'a list \<Rightarrow> 'b list option res" where
  "collect f [] = Inr (Some [])"
| "collect f (x # xs) = bindR (f x) (\<lambda>r. case r of
     None \<Rightarrow> Inr None
   | Some es \<Rightarrow> bindR (collect f xs) (\<lambda>q. Inr (map_option (\<lambda>fs. es @ fs) q)))"

definition dataSources_entries :: "AlgorandDataSource list \<Rightarrow> GetDsProcessor \<Rightarrow> DictionaryQueryEntry list option res" where
  "dataSources_entries dataSources getDsProcessor =
     collect (\<lambda>ds. collect (\<lambda>h. handler_entries ds h getDsProcessor) (m_handlers (ds_mapping ds))) dataSources"

text \<open>lodash, on the lists the code gives it.\<close>

record lodash_lists =
  sortBy :: "(DictionaryQueryCondition \<Rightarrow> string) \<Rightarrow> DictionaryQueryCondition list \<Rightarrow> DictionaryQueryCondition list"
  uniqBy :: "(DictionaryQueryEntry \<times> string \<Rightarrow> string) \<Rightarrow> (DictionaryQueryEntry \<times> string) list
    \<Rightarrow> (DictionaryQueryEntry \<times> string) list"

definition entry_key :: "lodash_lists \<Rightarrow> nat \<Rightarrow> DictionaryQueryEntry \<Rightarrow> string res" where
  "entry_key lo stack item =
     bindR (json_ser (\<lambda>_ _. JUndef) [] stack [] (JArr (map js_of_condition (sortBy lo c_field (q_conditions item)))))
       (\<lambda>t. Inr (q_entity item @ ''|'' @ (case t of None \<Rightarrow> ''undefined'' | Some s \<Rightarrow> s)))"

definition buildDictionaryV1QueryEntries :: "lodash_lists \<Rightarrow> nat \<Rightarrow> AlgorandDataSource list \<Rightarrow> GetDsProcessor
    \<Rightarrow> DictionaryQueryEntry list res" where
  "buildDictionaryV1QueryEntries lo stack dataSources getDsProcessor =
     bindR (dataSources_entries dataSources getDsProcessor) (\<lambda>r. case r of
       None \<Rightarrow> Inr []
     | Some queryEntries \<Rightarrow> bindR (mapR (entry_key lo stack) queryEntries) (\<lambda>keys.
         Inr (map fst (uniqBy lo snd (zip queryEntries keys)))))"

section \<open>The dictionaries of a project\<close>

definition dictionaryEndpoints :: "jsval \<Rightarrow> jsval list \<Rightarrow> jsval list" where
  "dictionaryEndpoints dictionary registryDictionaries =
     (case dictionary of JArr ds \<Rightarrow> ds | d \<Rightarrow> if \<not> truthy d then [] else [d]) @ registryDictionaries"

text \<open>The chain a dictionary is asked about: the one given, or the project's.\<close>

definition dictionary_chainId :: "jsval \<Rightarrow> string \<Rightarrow> jsval" where
  "dictionary_chainId chainId project_chainId = js_default chainId (JStr project_chainId)"

record AlgorandDictionaryV1 =
  dict_url :: jsval
  dict_chainId :: jsval
  dict_getDsProcessor :: GetDsProcessor

definition new_AlgorandDictionaryV1 :: "string \<Rightarrow> GetDsProcessor \<Rightarrow> jsval \<Rightarrow> jsval \<Rightarrow> AlgorandDictionaryV1" where
  "new_AlgorandDictionaryV1 project_chainId getDsProcessor dictionaryUrl chainId =
     \<lparr>dict_url = dictionaryUrl, dict_chainId = dictionary_chainId chainId project_chainId,
      dict_getDsProcessor = getDsProcessor\<rparr>"

text \<open>\<open>dictionary_init\<close> is node-core's connection to a dictionary, which may be refused.\<close>

definition dictionary_create :: "(AlgorandDictionaryV1 \<Rightarrow> ('s, unit) io) \<Rightarrow> string \<Rightarrow> GetDsProcessor \<Rightarrow> jsval \<Rightarrow> jsval
    \<Rightarrow> ('s, AlgorandDictionaryV1) io" where
  "dictionary_create dictionary_init project_chainId getDsProcessor dictionaryUrl chainId =
     (let dictionary = new_AlgorandDictionaryV1 project_chainId getDsProcessor dictionaryUrl chainId in
      iobind (dictionary_init dictionary) (\<lambda>_. ioret dictionary))"

definition buildDictionaryQueryEntries :: "lodash_lists \<Rightarrow> nat \<Rightarrow> AlgorandDictionaryV1 \<Rightarrow> AlgorandDataSource list
    \<Rightarrow> DictionaryQueryEntry list res" where
  "buildDictionaryQueryEntries lo stack dictionary dataSources =
     buildDictionaryV1QueryEntries lo stack dataSources (dict_getDsProcessor dictionary)"

text \<open>An endpoint whose dictionary cannot be made is left out.\<close>

fun create_each :: "(jsval \<Rightarrow> ('s, 'dict) io) \<Rightarrow> jsval list \<Rightarrow> ('s, 'dict list) io" where
  "create_each create_dictionary [] = ioret []"
| "create_each create_dictionary (endpoint # endpoints) =
     iobind (iocatch (iobind (create_dictionary endpoint) (\<lambda>dict. ioret [dict])) (\<lambda>e. ioret [])) (\<lambda>ds.
     iobind (create_each create_dictionary endpoints) (\<lambda>rest. ioret (ds @ rest)))"

record project_network =
  net_chainId :: string
  net_dictionary :: jsval

definition initDictionaries :: "(string \<Rightarrow> ('s, jsval list) io) \<Rightarrow> (AlgorandDictionaryV1 \<Rightarrow> ('s, unit) io) \<Rightarrow> GetDsProcessor
    \<Rightarrow> project_network option \<Rightarrow> ('s, AlgorandDictionaryV1 list) io" where
  "initDictionaries resolveDictionary dictionary_init getDsProcessor project = (case project of
     None \<Rightarrow> iothrow (Error ''Project in Dictionary service not initialized '')
   | Some network \<Rightarrow> iobind (resolveDictionary (net_chainId network)) (\<lambda>registryDictionaries.
       create_each (\<lambda>endpoint. dictionary_create dictionary_init (net_chainId network) getDsProcessor endpoint JUndef)
         (dictionaryEndpoints (net_dictionary network) registryDictionaries)))"

section \<open>What lodash is relied on for\<close>

text \<open>
  \<open>sortBy\<close> is a permutation that does not depend on the order of a list whose fields are distinct;
  \<open>uniqBy\<close> keeps some elements, at least one for each key and none twice.
\<close>

definition sortBy_ok :: "lodash_lists \<Rightarrow> bool" where
  "sortBy_ok lo \<longleftrightarrow> (\<forall>f cs. mset (sortBy lo f cs) = mset cs)
     \<and> (\<forall>f cs cs'. mset cs = mset cs' \<and> distinct (map f cs) \<longrightarrow> sortBy lo f cs = sortBy lo f cs')"

definition uniqBy_ok :: "lodash_lists \<Rightarrow> bool" where
  "uniqBy_ok lo \<longleftrightarrow> (\<forall>f xs. set (uniqBy lo f xs) \<subseteq> set xs \<and> f ` set (uniqBy lo f xs) = f ` set xs
     \<and> distinct (map f (uniqBy lo f xs)))"

text \<open>Concrete ones.\<close>

fun uniq_ref :: "('a \<Rightarrow> string) \<Rightarrow> 'a list \<Rightarrow> 'a list" where
  "uniq_ref f [] = []"
| "uniq_ref f (x # xs) = x # filter (\<lambda>y. f y \<noteq> f x) (uniq_ref f xs)"

definition codes :: "string \<Rightarrow> nat" where
  "codes s = foldl (\<lambda>n c. 257 * n + of_char c + 1) 0 s"

definition lodash_ref :: lodash_lists where
  "lodash_ref = \<lparr>sortBy = (\<lambda>f. sort_key (\<lambda>c. codes (f c))), uniqBy = uniq_ref\<rparr>"

lemma uniq_ref_ok: "set (uniq_ref f xs) \<subseteq> set xs \<and> f ` set (uniq_ref f xs) = f ` set xs \<and> distinct (map f (uniq_ref f xs))"
proof (induction xs)
  case (Cons x xs)
  have "f ` set (uniq_ref f (x # xs)) = insert (f x) (f ` set (uniq_ref f xs))" by auto
  with Cons show ?case by (auto simp: distinct_map_filter)
qed simp

lemma codes_snoc: "codes (s @ [c]) = 257 * codes s + of_char c + 1"
  by (simp add: codes_def)

lemma codes_inject: "codes s = codes t \<Longrightarrow> s = t"
proof (induction s arbitrary: t rule: rev_induct)
  case Nil
  then show ?case by (cases t rule: rev_cases) (simp_all add: codes_snoc, simp add: codes_def)
next
  case (snoc c s)
  then obtain t' e where t: "t = t' @ [e]"
    by (cases t rule: rev_cases) (simp_all add: codes_snoc, simp add: codes_def)
  have eq: "257 * codes s + of_char c = 257 * codes t' + (of_char e :: nat)"
    using snoc.prems t by (simp add: codes_snoc)
  have "(of_char c :: nat) < 257" "(of_char e :: nat) < 257"
    using nat_of_char_less_256 [of c] nat_of_char_less_256 [of e] by linarith+
  with arg_cong [OF eq, of "\<lambda>n. n div 257"] have "codes s = codes t'" by simp
  with eq have "(of_char c :: nat) = of_char e" by simp
  with snoc.IH [of t'] t \<open>codes s = codes t'\<close> show ?case by simp
qed

lemma lodash_ref_ok: "sortBy_ok lodash_ref" "uniqBy_ok lodash_ref"
proof -
  have "sort_key (\<lambda>c. codes (f c)) cs = sort_key (\<lambda>c. codes (f c)) cs'"
    if "mset cs = mset cs'" "distinct (map f cs)" for f and cs cs' :: "DictionaryQueryCondition list"
  proof (rule sort_key_inj_key_eq)
    show "inj_on (\<lambda>c. codes (f c)) (set cs)"
      using that(2) by (auto simp: distinct_map inj_on_def dest!: codes_inject)
  qed (use that in simp_all)
  then show "sortBy_ok lodash_ref" unfolding sortBy_ok_def lodash_ref_def by simp
qed (simp add: uniqBy_ok_def lodash_ref_def uniq_ref_ok)

section \<open>What a query says of a transaction\<close>

text \<open>The value of a transaction a filter key stands for, and what a condition asks of it.\<close>

definition field_value :: "(TransactionType \<Rightarrow> string) \<Rightarrow> lodash_get \<Rightarrow> jsobj \<Rightarrow> string \<Rightarrow> jsval" where
  "field_value TT lget txn k = (if k = ''txType'' then obj_get txn ''txType''
     else case literal_get (mappingFilterTransaction TT) (js_to_string (obj_get txn ''txType'')) of
       None \<Rightarrow> JUndef | Some paths \<Rightarrow> lget txn (literal_get paths k))"

definition meets :: "(TransactionType \<Rightarrow> string) \<Rightarrow> lodash_get \<Rightarrow> jsobj \<Rightarrow> DictionaryQueryEntry \<Rightarrow> bool" where
  "meets TT lget txn e \<longleftrightarrow> (\<forall>c \<in> set (q_conditions e). field_value TT lget txn (c_field c) = c_value c)"

text \<open>A filter of the manifest: an object whose values, but for the arguments, are scalars.\<close>

definition plain_filter :: "jsval \<Rightarrow> bool" where
  "plain_filter f \<longleftrightarrow> (\<exists>fo. f = JObj fo \<and> (\<forall>k. k \<noteq> ''applicationArgs'' \<longrightarrow> is_scalar (obj_get fo k)))"

lemma conditions_of_JObj:
  "c \<in> set (conditions_of (JObj fo)) \<longleftrightarrow> c_matcher c = ''equalTo'' \<and> c_field c \<noteq> ''applicationArgs''
     \<and> c_value c \<noteq> JUndef \<and> obj_has fo (c_field c) \<and> c_value c = obj_get fo (c_field c)"
proof -
  have "(k, v) \<in> set (own_entries fo) \<longleftrightarrow> obj_has fo k \<and> v = obj_get fo k" for k v
    unfolding set_own_entries_get obj_has_def obj_get_def by (auto split: option.splits)
  moreover have "c \<in> set (conditions_of (JObj fo)) \<longleftrightarrow> (\<exists>k v. c = \<lparr>c_field = k, c_value = v, c_matcher = ''equalTo''\<rparr>
      \<and> (k, v) \<in> set (own_entries fo) \<and> k \<noteq> ''applicationArgs'' \<and> v \<noteq> JUndef)"
    by (auto simp: conditions_of_def)
  ultimately show ?thesis by (cases c) auto
qed

lemma filter_meets:
  assumes "filterTransaction TT lget txn (JObj fo) = Inr True" "plain_filter (JObj fo)"
    and "obj_get fo ''txType'' = JUndef \<or> truthy (obj_get fo ''txType'')"
    and "literal_get (mappingFilterTransaction TT) (js_to_string (obj_get txn ''txType'')) = Some paths"
  shows "meets TT lget txn (entry_of (JObj fo))"
  unfolding meets_def
proof
  fix c assume "c \<in> set (q_conditions (entry_of (JObj fo)))"
  then have "c_field c \<noteq> ''applicationArgs'' \<and> c_value c \<noteq> JUndef \<and> obj_has fo (c_field c) \<and> c_value c = obj_get fo (c_field c)"
    unfolding entry_of_def DictionaryQueryEntry.select_convs conditions_of_JObj by blast
  then have c: "c_field c \<noteq> ''applicationArgs''" "c_value c \<noteq> JUndef" "obj_has fo (c_field c)"
    "c_value c = obj_get fo (c_field c)" by blast+
  then have sc: "is_scalar (c_value c)" using assms(2) by (simp add: plain_filter_def)
  show "field_value TT lget txn (c_field c) = c_value c"
  proof (cases "c_field c = ''txType''")
    case True
    with c assms(1,3) sc show ?thesis by (auto simp: filterTransaction_True_iff_keys field_value_def)
  next
    case False
    with c assms(1) have "key_passes TT lget txn (c_field c) (c_value c)"
      by (simp add: filterTransaction_True_iff_keys)
    with c(2) assms(4) sc have "txComparator (c_value c) (lget txn (literal_get paths (c_field c))) = Inr True"
      by (simp add: key_passes_def)
    with sc show ?thesis using False assms(4) by (cases "c_value c") (simp_all add: field_value_def)
  qed
qed

section \<open>The key of a query\<close>

definition scalar_entry :: "DictionaryQueryEntry \<Rightarrow> bool" where
  "scalar_entry e \<longleftrightarrow> q_entity e = ''transactions'' \<and> (\<forall>c \<in> set (q_conditions e). is_scalar (c_value c) \<and> c_value c \<noteq> JUndef)"

lemma scalar_json: "is_scalar v \<Longrightarrow> v \<noteq> JUndef \<Longrightarrow> is_json v \<and> ordered_json v \<and> depth v = 1"
  by (cases v) auto

lemma js_of_condition_json:
  "is_scalar (c_value c) \<Longrightarrow> c_value c \<noteq> JUndef \<Longrightarrow>
   is_json (js_of_condition c) \<and> ordered_json (js_of_condition c) \<and> depth (js_of_condition c) = 2"
proof -
  assume "is_scalar (c_value c)" "c_value c \<noteq> JUndef"
  note v = scalar_json [OF this]
  have "own_entries [(''field'', JStr (c_field c)), (''value'', c_value c), (''matcher'', JStr (c_matcher c))]
      = [(''field'', JStr (c_field c)), (''value'', c_value c), (''matcher'', JStr (c_matcher c))]"
    by (rule own_entries_plain) (auto simp: is_index_def is_digit_def)
  with v show ?thesis by (simp add: js_of_condition_def)
qed

lemma js_of_condition_inject: "js_of_condition c = js_of_condition e \<longleftrightarrow> c = e"
  by (cases c; cases e) (auto simp: js_of_condition_def)

lemma entry_key_text:
  assumes "sortBy_ok lo" "3 \<le> stack" "scalar_entry e"
  shows "entry_key lo stack e
     = Inr (''transactions|'' @ json_text (JArr (map js_of_condition (sortBy lo c_field (q_conditions e)))))"
    and "is_json (JArr (map js_of_condition (sortBy lo c_field (q_conditions e))))"
proof -
  let ?cs = "sortBy lo c_field (q_conditions e)"
  have "mset ?cs = mset (q_conditions e)" using assms(1) by (simp add: sortBy_ok_def)
  then have "set ?cs = set (q_conditions e)" by (metis set_mset_mset)
  with assms(3) have js: "\<And>c. c \<in> set ?cs \<Longrightarrow>
      is_json (js_of_condition c) \<and> ordered_json (js_of_condition c) \<and> depth (js_of_condition c) = 2"
    using js_of_condition_json by (simp add: scalar_entry_def)
  then show j: "is_json (JArr (map js_of_condition ?cs))" by (simp add: list_all_iff)
  have o': "ordered_json (JArr (map js_of_condition ?cs))" using js by (simp add: list_all_iff)
  have "foldr (\<lambda>x. max (depth x)) xs 0 \<le> 2" if "\<And>x. x \<in> set xs \<Longrightarrow> depth x = 2" for xs
    using that by (induction xs) auto
  moreover have "\<And>x. x \<in> set (map js_of_condition ?cs) \<Longrightarrow> depth x = 2" using js by auto
  ultimately have "foldr (\<lambda>x. max (depth x)) (map js_of_condition ?cs) 0 \<le> 2" by blast
  then have "depth (JArr (map js_of_condition ?cs)) \<le> stack" using assms(2) by simp
  from json_ser_tree [OF j o' this] assms(3) show "entry_key lo stack e
     = Inr (''transactions|'' @ json_text (JArr (map js_of_condition ?cs)))"
    by (simp add: entry_key_def scalar_entry_def)
qed

lemma entry_key_conditions:
  assumes "sortBy_ok lo" "3 \<le> stack" "scalar_entry e" "scalar_entry e'" "entry_key lo stack e = entry_key lo stack e'"
  shows "mset (q_conditions e) = mset (q_conditions e')"
proof -
  let ?j = "\<lambda>e. JArr (map js_of_condition (sortBy lo c_field (q_conditions e)))"
  have "json_text (?j e) = json_text (?j e')"
    using assms(5) entry_key_text(1) [OF assms(1,2,3)] entry_key_text(1) [OF assms(1,2,4)]
    by (simp del: json_text.simps)
  then have "?j e = ?j e'"
    using json_text_inject entry_key_text(2) [OF assms(1,2,3)] entry_key_text(2) [OF assms(1,2,4)] by blast
  then have "map js_of_condition (sortBy lo c_field (q_conditions e)) = map js_of_condition (sortBy lo c_field (q_conditions e'))"
    by simp
  then have "sortBy lo c_field (q_conditions e) = sortBy lo c_field (q_conditions e')"
    by (rule map_injective) (simp add: inj_on_def js_of_condition_inject)
  with assms(1) show ?thesis by (metis sortBy_ok_def)
qed

section \<open>The queries of a project\<close>

lemma collect_Some_iff:
  "collect f xs = Inr (Some es) \<longleftrightarrow> (\<exists>ess. list_all2 (\<lambda>x fs. f x = Inr (Some fs)) xs ess \<and> es = concat ess)"
proof (induction xs arbitrary: es)
  case (Cons x xs)
  have "collect f (x # xs) = Inr (Some es) \<longleftrightarrow>
      (\<exists>as bs. f x = Inr (Some as) \<and> collect f xs = Inr (Some bs) \<and> es = as @ bs)"
    by (auto simp: bindR_Inr_iff split: option.splits)
  then show ?case unfolding Cons.IH list_all2_Cons1 by fastforce
qed auto

lemma collect_mem:
  assumes "collect f xs = Inr (Some es)"
  shows "x \<in> set xs \<Longrightarrow> \<exists>fs. f x = Inr (Some fs) \<and> set fs \<subseteq> set es"
    and "e \<in> set es \<Longrightarrow> \<exists>x \<in> set xs. \<exists>fs. f x = Inr (Some fs) \<and> e \<in> set fs"
proof -
  obtain ess where ess: "list_all2 (\<lambda>x fs. f x = Inr (Some fs)) xs ess" "es = concat ess"
    using assms by (auto simp: collect_Some_iff)
  then have len: "length ess = length xs" and at: "\<And>i. i < length xs \<Longrightarrow> f (xs ! i) = Inr (Some (ess ! i))"
    by (simp_all add: list_all2_conv_all_nth)
  show "\<exists>fs. f x = Inr (Some fs) \<and> set fs \<subseteq> set es" if x: "x \<in> set xs"
  proof -
    from x obtain i where "i < length xs" "x = xs ! i" by (auto simp: in_set_conv_nth)
    with at len have "f x = Inr (Some (ess ! i))" "ess ! i \<in> set ess" by simp_all
    then show ?thesis using ess(2) by auto
  qed
  show "\<exists>x \<in> set xs. \<exists>fs. f x = Inr (Some fs) \<and> e \<in> set fs" if e: "e \<in> set es"
  proof -
    from e ess(2) obtain fs where "fs \<in> set ess" "e \<in> set fs" by auto
    then obtain i where "i < length ess" "e \<in> set (ess ! i)" by (auto simp: in_set_conv_nth [of fs])
    with at len show ?thesis by (intro bexI [of _ "xs ! i"] exI [of _ "ess ! i"]) auto
  qed
qed

lemma dataSources_entries_handler:
  assumes "dataSources_entries dss gp = Inr (Some es)" "ds \<in> set dss" "h \<in> set (m_handlers (ds_mapping ds))"
  shows "\<exists>fs. handler_entries ds h gp = Inr (Some fs) \<and> set fs \<subseteq> set es"
  using collect_mem(1) [OF assms(1) [unfolded dataSources_entries_def] assms(2)]
    collect_mem(1) [OF _ assms(3), of "\<lambda>h. handler_entries ds h gp"] by blast

lemma dataSources_entries_from:
  assumes "dataSources_entries dss gp = Inr (Some es)" "e \<in> set es"
  shows "\<exists>ds \<in> set dss. \<exists>h \<in> set (m_handlers (ds_mapping ds)). \<exists>fs. handler_entries ds h gp = Inr (Some fs) \<and> e \<in> set fs"
  using collect_mem(2) [OF assms(1) [unfolded dataSources_entries_def] assms(2)]
    collect_mem(2) [where f = "\<lambda>h. handler_entries _ h gp"] by blast

lemma build_cases:
  assumes "buildDictionaryV1QueryEntries lo stack dss gp = Inr q" "q \<noteq> []"
  obtains es keys where "dataSources_entries dss gp = Inr (Some es)" "mapR (entry_key lo stack) es = Inr keys"
    "q = map fst (uniqBy lo snd (zip es keys))"
proof -
  from assms(1) obtain r where r: "dataSources_entries dss gp = Inr r"
    and q: "(case r of None \<Rightarrow> Inr [] | Some es \<Rightarrow> bindR (mapR (entry_key lo stack) es) (\<lambda>keys.
      Inr (map fst (uniqBy lo snd (zip es keys))))) = Inr q"
    by (auto simp: buildDictionaryV1QueryEntries_def bindR_Inr_iff)
  with assms(2) obtain es where "r = Some es" by (cases r) auto
  with q obtain keys where "mapR (entry_key lo stack) es = Inr keys" "q = map fst (uniqBy lo snd (zip es keys))"
    by (auto simp: bindR_Inr_iff)
  with r \<open>r = Some es\<close> show thesis by (intro that) simp_all
qed

lemma uniq_entries:
  assumes "uniqBy_ok lo" "mapR (entry_key lo stack) es = Inr keys"
  shows "e \<in> set es \<Longrightarrow> \<exists>e' \<in> set (map fst (uniqBy lo snd (zip es keys))). e' \<in> set es \<and> entry_key lo stack e' = entry_key lo stack e"
    and "(e, k) \<in> set (uniqBy lo snd (zip es keys)) \<Longrightarrow> e \<in> set es \<and> entry_key lo stack e = Inr k"
    and "distinct (map snd (uniqBy lo snd (zip es keys)))"
proof -
  let ?u = "uniqBy lo snd (zip es keys)"
  have u: "set ?u \<subseteq> set (zip es keys)" "snd ` set ?u = snd ` set (zip es keys)" "distinct (map snd ?u)"
    using assms(1) by (simp_all add: uniqBy_ok_def)
  have key: "entry_key lo stack x = Inr k \<and> x \<in> set es" if "(x, k) \<in> set (zip es keys)" for x k
    using that assms(2) by (auto simp: mapR_Inr_iff list_all2_conv_all_nth set_zip)
  show "\<exists>e' \<in> set (map fst ?u). e' \<in> set es \<and> entry_key lo stack e' = entry_key lo stack e" if "e \<in> set es"
  proof -
    have "length es = length keys" using assms(2) mapR_length by metis
    with that obtain k where k: "(e, k) \<in> set (zip es keys)" by (metis in_set_impl_in_set_zip1)
    then have "k \<in> snd ` set ?u" using u(2) by force
    then obtain e' where e': "(e', k) \<in> set ?u" by force
    with u(1) have "(e', k) \<in> set (zip es keys)" by blast
    with key k have "e' \<in> set es \<and> entry_key lo stack e' = entry_key lo stack e" by metis
    with e' show ?thesis by force
  qed
  show "e \<in> set es \<and> entry_key lo stack e = Inr k" if "(e, k) \<in> set ?u"
    using that u(1) key by blast
  show "distinct (map snd ?u)" by (rule u(3))
qed

text \<open>A project of runtime datasources whose handlers' filters, where they have one, are plain.\<close>

definition runtime_project :: "AlgorandDataSource list \<Rightarrow> bool" where
  "runtime_project dss \<longleftrightarrow> (\<forall>ds \<in> set dss. isRuntimeDs ds \<and> (\<forall>h \<in> set (m_handlers (ds_mapping ds)).
     h_filter h = JUndef \<or> plain_filter (h_filter h)))"

lemma runtime_handler_entries:
  assumes "isRuntimeDs ds" "handler_entries ds h gp = Inr (Some fs)"
  shows "truthy (h_filter h)
    \<and> (h_kind h = handler_kind_value Block \<longrightarrow> fs = [] \<and> obj_get (own_props [] (h_filter h)) ''modulo'' \<noteq> JUndef)
    \<and> (h_kind h = handler_kind_value Transaction \<longrightarrow> fs = [entry_of (h_filter h)])
    \<and> (h_kind h = handler_kind_value Block \<or> h_kind h = handler_kind_value Transaction)"
proof -
  have "\<not> isCustomDs ds" using assms(1) isCustomDs_not_runtime by blast
  with assms show ?thesis
    by (auto simp: handler_entries_def handler_filterList_def getBaseHandlerKind_def bindR_Inr_iff Let_def
        isBaseHandler_def handler_kind_values_list split: if_splits)
qed

lemma entry_scalar:
  assumes "plain_filter f"
  shows "scalar_entry (entry_of f)"
proof -
  obtain fo where fo: "f = JObj fo" "\<forall>k. k \<noteq> ''applicationArgs'' \<longrightarrow> is_scalar (obj_get fo k)"
    using assms by (auto simp: plain_filter_def)
  have "is_scalar (c_value c) \<and> c_value c \<noteq> JUndef" if "c \<in> set (conditions_of (JObj fo))" for c
    using that fo(2) unfolding conditions_of_JObj by metis
  then show ?thesis by (simp add: scalar_entry_def entry_of_def fo(1))
qed

lemma entry_fields: "plain_filter f \<Longrightarrow> distinct (map c_field (q_conditions (entry_of f)))"
  using distinct_own_entries
  by (auto simp: plain_filter_def entry_of_def conditions_of_def comp_def case_prod_beta' distinct_map_filter)

text \<open>
  A project of datasources of any kind, whose base filters are plain: a runtime handler's own filter, and those
  the processor of a custom datasource gives for the kind of a handler.
\<close>

definition plain_project :: "GetDsProcessor \<Rightarrow> AlgorandDataSource list \<Rightarrow> bool" where
  "plain_project gp dss \<longleftrightarrow> (\<forall>ds \<in> set dss. \<forall>h \<in> set (m_handlers (ds_mapping ds)).
     (case handler_filterList ds h gp of Inl _ \<Rightarrow> True | Inr fs \<Rightarrow> \<forall>f \<in> set fs. truthy f \<longrightarrow> plain_filter f))"

lemma plain_projectD:
  assumes "plain_project gp dss" "ds \<in> set dss" "h \<in> set (m_handlers (ds_mapping ds))"
    and "handler_filterList ds h gp = Inr fs" "f \<in> set fs" "truthy f"
  shows "plain_filter f"
  using assms(1) [unfolded plain_project_def, THEN bspec, OF assms(2), THEN bspec, OF assms(3)] assms(4-6) by simp

lemma runtime_filterList:
  "isRuntimeDs ds \<Longrightarrow> handler_filterList ds h gp = Inr (if truthy (h_filter h) then [h_filter h] else [])"
  using isCustomDs_not_runtime by (auto simp: handler_filterList_def)

lemma runtime_plain: "runtime_project dss \<Longrightarrow> plain_project gp dss"
  by (fastforce simp: runtime_project_def plain_project_def runtime_filterList)

lemma handler_entries_cases:
  assumes "handler_entries ds h gp = Inr (Some es)"
  obtains kind fs where "getBaseHandlerKind ds h gp = Inr kind" "handler_filterList ds h gp = Inr fs"
    "es = (if kind = handler_kind_value Transaction then map entry_of (filter truthy fs) else [])"
  using assms by (auto simp: handler_entries_def bindR_Inr_iff Let_def handler_kind_values_list split: if_splits)

lemma plain_entries_from:
  assumes "plain_project gp dss" "dataSources_entries dss gp = Inr (Some es)" "e \<in> set es"
  shows "\<exists>f. plain_filter f \<and> e = entry_of f"
proof -
  obtain ds h fs where ds: "ds \<in> set dss" "h \<in> set (m_handlers (ds_mapping ds))"
    and h: "handler_entries ds h gp = Inr (Some fs)" "e \<in> set fs"
    using dataSources_entries_from [OF assms(2,3)] by blast
  from h(1) obtain kind gs where gs: "handler_filterList ds h gp = Inr gs"
    and fs: "fs = (if kind = handler_kind_value Transaction then map entry_of (filter truthy gs) else [])"
    by (rule handler_entries_cases)
  from h(2) fs obtain f where "f \<in> set gs" "truthy f" "e = entry_of f" by (auto split: if_splits)
  with plain_projectD [OF assms(1) ds gs] show ?thesis by blast
qed

lemma plain_entries_scalar:
  "plain_project gp dss \<Longrightarrow> dataSources_entries dss gp = Inr (Some es) \<Longrightarrow> e \<in> set es \<Longrightarrow>
     scalar_entry e \<and> distinct (map c_field (q_conditions e))"
  using plain_entries_from entry_scalar entry_fields by metis

text \<open>
  A project has queries only when every one of its handlers has a filter, and every block handler
  a modulo: one handler that wants every block, or every transaction, and the dictionary is not used.
\<close>

lemma dictionary_needs_filters:
  assumes "runtime_project dss" "buildDictionaryV1QueryEntries lo stack dss gp = Inr q" "q \<noteq> []"
    and "ds \<in> set dss" "h \<in> set (m_handlers (ds_mapping ds))"
  shows "truthy (h_filter h) \<and> (h_kind h = handler_kind_value Block \<longrightarrow> obj_get (own_props [] (h_filter h)) ''modulo'' \<noteq> JUndef)"
proof -
  obtain es keys where es: "dataSources_entries dss gp = Inr (Some es)" by (rule build_cases [OF assms(2,3)])
  from dataSources_entries_handler [OF es assms(4,5)] obtain fs where "handler_entries ds h gp = Inr (Some fs)" by blast
  moreover have "isRuntimeDs ds" using assms(1,4) by (simp add: runtime_project_def)
  ultimately show ?thesis using runtime_handler_entries by blast
qed

text \<open>A transaction that passes a base filter meets one of the queries.\<close>

lemma query_for_filter:
  assumes "sortBy_ok lo" "uniqBy_ok lo" "3 \<le> stack" "plain_project gp dss"
    and "buildDictionaryV1QueryEntries lo stack dss gp = Inr q" "q \<noteq> []"
    and "ds \<in> set dss" "h \<in> set (m_handlers (ds_mapping ds))"
    and "getBaseHandlerKind ds h gp = Inr (handler_kind_value Transaction)"
    and "handler_filterList ds h gp = Inr fs" "f \<in> set fs" "truthy f"
    and "filterTransaction TT lget txn f = Inr True"
    and "literal_get (mappingFilterTransaction TT) (js_to_string (obj_get txn ''txType'')) = Some paths"
    and "obj_get (own_props [] f) ''txType'' = JUndef \<or> truthy (obj_get (own_props [] f) ''txType'')"
  shows "\<exists>e \<in> set q. meets TT lget txn e"
proof -
  obtain es keys where es: "dataSources_entries dss gp = Inr (Some es)" "mapR (entry_key lo stack) es = Inr keys"
    and q: "q = map fst (uniqBy lo snd (zip es keys))" by (rule build_cases [OF assms(5,6)])
  from dataSources_entries_handler [OF es(1) assms(7,8)] obtain entries
    where entries: "handler_entries ds h gp = Inr (Some entries)" "set entries \<subseteq> set es" by blast
  from entries(1) have "entries = map entry_of (filter truthy fs)"
    by (rule handler_entries_cases) (use assms(9,10) in simp)
  with entries(2) assms(11,12) have mem: "entry_of f \<in> set es" by auto
  have plain: "plain_filter f" by (rule plain_projectD [OF assms(4,7,8,10-12)])
  then obtain fo where fo: "f = JObj fo" by (auto simp: plain_filter_def)
  have "meets TT lget txn (entry_of f)"
    unfolding fo by (rule filter_meets [OF _ _ _ assms(14)]) (use assms(13,15) plain fo in simp_all)
  moreover obtain e where e: "e \<in> set q" "e \<in> set es" "entry_key lo stack e = entry_key lo stack (entry_of f)"
    using uniq_entries(1) [OF assms(2) es(2) mem] q by blast
  then have "mset (q_conditions e) = mset (q_conditions (entry_of f))"
    using entry_key_conditions [OF assms(1,3)] plain_entries_scalar [OF assms(4) es(1)] mem by blast
  then have "set (q_conditions e) = set (q_conditions (entry_of f))" by (metis set_mset_mset)
  ultimately show ?thesis using e(1) by (auto simp: meets_def)
qed

lemma query_for_handler:
  assumes "sortBy_ok lo" "uniqBy_ok lo" "3 \<le> stack" "runtime_project dss"
    and "buildDictionaryV1QueryEntries lo stack dss gp = Inr q" "q \<noteq> []"
    and "ds \<in> set dss" "h \<in> set (m_handlers (ds_mapping ds))" "h_kind h = handler_kind_value Transaction"
    and "filterTransaction TT lget txn (h_filter h) = Inr True"
    and "literal_get (mappingFilterTransaction TT) (js_to_string (obj_get txn ''txType'')) = Some paths"
    and "obj_get (own_props [] (h_filter h)) ''txType'' = JUndef \<or> truthy (obj_get (own_props [] (h_filter h)) ''txType'')"
  shows "\<exists>e \<in> set q. meets TT lget txn e"
proof (rule query_for_filter [OF assms(1-3) runtime_plain [OF assms(4)] assms(5-8) _ _ _ _ assms(10-12)])
  have ds: "isRuntimeDs ds" using assms(4,7) by (simp add: runtime_project_def)
  then show "getBaseHandlerKind ds h gp = Inr (handler_kind_value Transaction)"
    using assms(9) by (simp add: getBaseHandlerKind_def isBaseHandler_def handler_kind_values_list)
  show t: "truthy (h_filter h)" using dictionary_needs_filters [OF assms(4-8)] by blast
  show "handler_filterList ds h gp = Inr [h_filter h]" using runtime_filterList [OF ds] t by simp
qed simp

section \<open>Properties\<close>

text \<open>
  C10. The dictionary never hides a transaction a handler wants: when a project has queries, every transaction
  of a known type that passes a base filter of one of its transaction handlers meets all the conditions of
  one of the queries. A base filter is the handler's own in a runtime datasource, and in a custom one any
  that its processor gives for the kind of the handler. Dropping equal queries loses none, because the text
  two queries are compared by determines their conditions.
\<close>

theorem dictionary_covers:
  assumes "sortBy_ok lo" "uniqBy_ok lo" "3 \<le> stack" "plain_project gp dss"
    and "buildDictionaryV1QueryEntries lo stack dss gp = Inr q" "q \<noteq> []"
    and "ds \<in> set dss" "h \<in> set (m_handlers (ds_mapping ds))"
    and "getBaseHandlerKind ds h gp = Inr (handler_kind_value Transaction)"
    and "handler_filterList ds h gp = Inr fs" "f \<in> set fs" "truthy f"
    and "filterTransaction TT lget txn f = Inr True"
    and "literal_get (mappingFilterTransaction TT) (js_to_string (obj_get txn ''txType'')) = Some paths"
    and "obj_get (own_props [] f) ''txType'' = JUndef \<or> truthy (obj_get (own_props [] f) ''txType'')"
  shows "\<exists>e \<in> set q. meets TT lget txn e"
  by (rule query_for_filter [OF assms])

text \<open>
  C22. No query is sent twice: two queries of a project differ in their conditions, whatever the order
  their filters list them in.
\<close>

theorem dictionary_queries_differ:
  assumes "sortBy_ok lo" "uniqBy_ok lo" "3 \<le> stack" "plain_project gp dss"
    and "buildDictionaryV1QueryEntries lo stack dss gp = Inr q" "i < length q" "j < length q" "i \<noteq> j"
  shows "set (q_conditions (q ! i)) \<noteq> set (q_conditions (q ! j))"
proof -
  from assms(6) have "q \<noteq> []" by auto
  with assms(5) obtain es keys where es: "dataSources_entries dss gp = Inr (Some es)" "mapR (entry_key lo stack) es = Inr keys"
    and q: "q = map fst (uniqBy lo snd (zip es keys))" by (rule build_cases)
  let ?u = "uniqBy lo snd (zip es keys)"
  have at: "q ! n \<in> set es \<and> entry_key lo stack (q ! n) = Inr (snd (?u ! n))" if "n < length q" for n
    using that uniq_entries(2) [OF assms(2) es(2), of "fst (?u ! n)" "snd (?u ! n)"] q by simp
  have "snd (?u ! i) \<noteq> snd (?u ! j)"
    using uniq_entries(3) [OF assms(2) es(2)] assms(6-8) q nth_eq_iff_index_eq [of "map snd ?u" i j] by simp
  with at [OF assms(6)] at [OF assms(7)]
  have ne: "entry_key lo stack (q ! i) \<noteq> entry_key lo stack (q ! j)" and mem: "q ! i \<in> set es" "q ! j \<in> set es" by simp_all
  have fields: "distinct (map c_field (q_conditions e)) \<and> q_entity e = ''transactions''" if "e \<in> set es" for e
    using plain_entries_scalar [OF assms(4) es(1) that] by (simp add: scalar_entry_def)
  show ?thesis
  proof
    assume "set (q_conditions (q ! i)) = set (q_conditions (q ! j))"
    moreover have "distinct (q_conditions (q ! i))" "distinct (q_conditions (q ! j))"
      using fields mem distinct_map by blast+
    ultimately have "mset (q_conditions (q ! i)) = mset (q_conditions (q ! j))"
      by (simp add: set_eq_iff_mset_eq_distinct)
    then have "sortBy lo c_field (q_conditions (q ! i)) = sortBy lo c_field (q_conditions (q ! j))"
      using assms(1) fields [OF mem(1)] unfolding sortBy_ok_def by blast
    moreover have "q_entity (q ! i) = q_entity (q ! j)" using fields mem by metis
    ultimately have "entry_key lo stack (q ! i) = entry_key lo stack (q ! j)" by (simp only: entry_key_def)
    with ne show False by contradiction
  qed
qed

text \<open>Two handlers that ask for the same in another order, one for a block in five.\<close>

definition covered_ds :: AlgorandDataSource where
  "covered_ds = demo_ds\<lparr>ds_mapping := \<lparr>m_file = ''./dist/index.js'', m_handlers = [
     \<lparr>h_kind = handler_kind_value Transaction, h_handler = ''onPay'',
       h_filter = JObj [(''txType'', JStr ''pay''), (''sender'', JStr ''ALICE'')]\<rparr>,
     \<lparr>h_kind = handler_kind_value Transaction, h_handler = ''onPayToo'',
       h_filter = JObj [(''sender'', JStr ''ALICE''), (''txType'', JStr ''pay'')]\<rparr>,
     \<lparr>h_kind = handler_kind_value Transaction, h_handler = ''onAsset'',
       h_filter = JObj [(''txType'', JStr ''axfer''), (''assetId'', JNum 10)]\<rparr>,
     \<lparr>h_kind = handler_kind_value Block, h_handler = ''onBlock'', h_filter = JObj [(''modulo'', JNum 5)]\<rparr>]\<rparr>\<rparr>"

definition covered_queries :: "DictionaryQueryEntry list" where
  "covered_queries = [entry_of (JObj [(''txType'', JStr ''pay''), (''sender'', JStr ''ALICE'')]),
     entry_of (JObj [(''txType'', JStr ''axfer''), (''assetId'', JNum 10)])]"

definition no_processor :: GetDsProcessor where
  "no_processor ds = Inl (Error ''no processor'')"

lemma covered_entries:
  "dataSources_entries [covered_ds] no_processor = Inr (Some
     [entry_of (JObj [(''txType'', JStr ''pay''), (''sender'', JStr ''ALICE'')]),
      entry_of (JObj [(''sender'', JStr ''ALICE''), (''txType'', JStr ''pay'')]),
      entry_of (JObj [(''txType'', JStr ''axfer''), (''assetId'', JNum 10)])])"
proof -
  have "\<not> isCustomDs covered_ds" "isRuntimeDs covered_ds"
    by (simp_all add: isCustomDs_def isRuntimeDs_def covered_ds_def demo_ds_def)
  then show ?thesis
    by (simp add: dataSources_entries_def handler_entries_def getBaseHandlerKind_def isBaseHandler_def
        handler_kind_values_list handler_filterList_def Let_def) (simp add: covered_ds_def)
qed

lemma covered_runtime: "runtime_project [covered_ds]"
  by (auto simp: runtime_project_def covered_ds_def demo_ds_def isRuntimeDs_def plain_filter_def)

lemma build_some:
  assumes "sortBy_ok lo" "uniqBy_ok lo" "3 \<le> stack" "plain_project gp dss"
    and "dataSources_entries dss gp = Inr (Some es)" "es \<noteq> []"
  shows "\<exists>q. buildDictionaryV1QueryEntries lo stack dss gp = Inr q \<and> q \<noteq> []"
proof -
  have "\<exists>k. entry_key lo stack e = Inr k" if "e \<in> set es" for e
    using entry_key_text(1) [OF assms(1,3)] plain_entries_scalar [OF assms(4,5) that] by blast
  then have "mapR (entry_key lo stack) es = Inr (map (\<lambda>e. projr (entry_key lo stack e)) es)"
    by (intro mapR_Inr) force
  moreover have "uniqBy lo snd (zip es ks) \<noteq> []" if "length ks = length es" for ks
  proof -
    have "snd ` set (uniqBy lo snd (zip es ks)) = snd ` set (zip es ks)" using assms(2) by (simp add: uniqBy_ok_def)
    moreover have "zip es ks \<noteq> []" using that assms(6) by (cases es; cases ks) auto
    ultimately show ?thesis by force
  qed
  ultimately show ?thesis using assms(5) by (simp add: buildDictionaryV1QueryEntries_def)
qed

lemma covered_build: "\<exists>q. buildDictionaryV1QueryEntries lodash_ref 20 [covered_ds] no_processor = Inr q \<and> q \<noteq> []"
  by (rule build_some [OF lodash_ref_ok _ runtime_plain [OF covered_runtime] covered_entries]) simp_all

definition covered_tx :: jsobj where
  "covered_tx = [(''txType'', JStr ''pay''), (''sender'', JStr ''ALICE'')]"

text \<open>A custom datasource whose processor takes payments of one sender and transfers of one asset.\<close>

definition custom_ds :: AlgorandDataSource where
  "custom_ds = demo_ds\<lparr>ds_kind := ''algorand/Calls'', ds_processor := Some \<lparr>p_file = ''./processor.js'', p_options = JUndef\<rparr>,
     ds_mapping := \<lparr>m_file = ''./dist/index.js'', m_handlers =
       [\<lparr>h_kind = ''algorand/Call'', h_handler = ''onCall'', h_filter = JUndef\<rparr>]\<rparr>\<rparr>"

abbreviation "custom_filter \<equiv> JObj [(''txType'', JStr ''pay''), (''sender'', JStr ''ALICE'')]"
abbreviation "custom_filters \<equiv> [custom_filter, JObj [(''txType'', JStr ''axfer''), (''assetId'', JNum 10)]]"

definition custom_processor :: GetDsProcessor where
  "custom_processor ds = Inr \<lparr>handlerProcessors = (\<lambda>kind. if kind = ''algorand/Call''
     then Some \<lparr>baseHandlerKind = Some (handler_kind_value Transaction), baseFilter = JArr custom_filters\<rparr> else None)\<rparr>"

lemma custom_kinds: "isCustomDs custom_ds" "\<not> isRuntimeDs custom_ds" "ds_kind custom_ds = ''algorand/Calls''"
  "m_handlers (ds_mapping custom_ds) = [\<lparr>h_kind = ''algorand/Call'', h_handler = ''onCall'', h_filter = JUndef\<rparr>]"
  by (simp_all add: isCustomDs_def isRuntimeDs_def custom_ds_def demo_ds_def)

lemma custom_base:
  assumes "h \<in> set (m_handlers (ds_mapping custom_ds))"
  shows "getBaseHandlerKind custom_ds h custom_processor = Inr (handler_kind_value Transaction)"
    and "handler_filterList custom_ds h custom_processor = Inr custom_filters"
  using assms by (auto simp: custom_kinds getBaseHandlerKind_def isBaseHandler_def isCustomHandler_def
      handler_kind_values_list custom_processor_def handler_filterList_def getBaseHandlerFilters_def)

lemma custom_plain: "plain_project custom_processor [custom_ds]"
  using custom_base(2) by (auto simp: plain_project_def plain_filter_def)

lemma custom_entries: "dataSources_entries [custom_ds] custom_processor = Inr (Some (map entry_of custom_filters))"
proof -
  have "handler_entries custom_ds h custom_processor = Inr (Some (map entry_of custom_filters))"
    if "h \<in> set (m_handlers (ds_mapping custom_ds))" for h
    using custom_base [OF that] by (simp add: handler_entries_def handler_kind_values_list Let_def)
  then show ?thesis by (simp add: dataSources_entries_def custom_kinds(4))
qed

theorem dictionary_covers_witness:
  "\<exists>q. buildDictionaryV1QueryEntries lodash_ref 20 [custom_ds] custom_processor = Inr q
     \<and> (\<exists>e \<in> set q. meets algosdk_TT get_ref covered_tx e)"
proof -
  obtain q where q: "buildDictionaryV1QueryEntries lodash_ref 20 [custom_ds] custom_processor = Inr q" "q \<noteq> []"
    using build_some [OF lodash_ref_ok _ custom_plain custom_entries, of 20] by auto
  let ?h = "m_handlers (ds_mapping custom_ds) ! 0"
  have h: "?h \<in> set (m_handlers (ds_mapping custom_ds))" by (simp add: custom_kinds)
  have m: "literal_get (mappingFilterTransaction algosdk_TT) (js_to_string (obj_get covered_tx ''txType'')) = Some (filter_paths Pay)"
    using mapping_known [OF inj_algosdk_TT, of Pay] by (simp add: covered_tx_def algosdk_TT_def)
  have f: "filterTransaction algosdk_TT get_ref covered_tx custom_filter = Inr True"
    unfolding filterTransaction_True_iff_keys
    using m by (simp add: key_passes_def) (simp add: covered_tx_def literal_get_def)
  from dictionary_covers [OF lodash_ref_ok _ custom_plain q _ h custom_base [OF h] _ _ f m] q(1) show ?thesis by auto
qed

theorem dictionary_queries_differ_witness:
  "\<exists>q. buildDictionaryV1QueryEntries lodash_ref 20 [covered_ds] no_processor = Inr q
     \<and> (\<forall>i < length q. \<forall>j < i. set (q_conditions (q ! i)) \<noteq> set (q_conditions (q ! j)))"
proof -
  obtain q where q: "buildDictionaryV1QueryEntries lodash_ref 20 [covered_ds] no_processor = Inr q"
    using covered_build by blast
  from dictionary_queries_differ [OF lodash_ref_ok _ runtime_plain [OF covered_runtime] q] q show ?thesis by auto
qed

text \<open>
  C34. A project's own dictionaries come before those of the registry, in their order, each asked about the
  project's own chain, and an endpoint that is no dictionary is left out without touching the others.
\<close>

theorem initDictionaries_order:
  assumes "resolveDictionary (net_chainId network) s = Some (Inr reg, s)"
    and "\<forall>e \<in> set (dictionaryEndpoints (net_dictionary network) reg).
      dictionary_init \<lparr>dict_url = e, dict_chainId = JStr (net_chainId network), dict_getDsProcessor = gp\<rparr> s = Some (result e, s)"
  shows "initDictionaries resolveDictionary dictionary_init gp (Some network) s
    = Some (Inr (List.map_filter (\<lambda>e. case result e of Inl _ \<Rightarrow> None
          | Inr _ \<Rightarrow> Some \<lparr>dict_url = e, dict_chainId = JStr (net_chainId network), dict_getDsProcessor = gp\<rparr>)
        (dictionaryEndpoints (net_dictionary network) reg)), s)"
proof -
  let ?dict = "\<lambda>e. \<lparr>dict_url = e, dict_chainId = JStr (net_chainId network), dict_getDsProcessor = gp\<rparr>"
  have "create_each (\<lambda>e. dictionary_create dictionary_init (net_chainId network) gp e JUndef) es s
      = Some (Inr (List.map_filter (\<lambda>e. case result e of Inl _ \<Rightarrow> None | Inr _ \<Rightarrow> Some (?dict e)) es), s)"
    if "\<forall>e \<in> set es. dictionary_init (?dict e) s = Some (result e, s)" for es
    using that
  proof (induction es)
    case (Cons e es)
    then show ?case
      by (cases "result e") (simp_all add: iobind_def iocatch_def ioret_def List.map_filter_def dictionary_create_def
          new_AlgorandDictionaryV1_def dictionary_chainId_def js_default_def Let_def)
  qed (simp add: ioret_def List.map_filter_def)
  with assms show ?thesis by (simp add: initDictionaries_def iobind_def)
qed

theorem initDictionaries_order_witness:
  "\<exists>ds. initDictionaries (\<lambda>_. ioret [JStr ''C''])
       (\<lambda>dict. if dict_url dict = JStr ''B'' then iothrow (Error ''no dictionary'') else ioret ()) no_processor
       (Some \<lparr>net_chainId = ''wGHE'', net_dictionary = JArr [JStr ''A'', JStr ''B'']\<rparr>) () = Some (Inr ds, ())
     \<and> map dict_url ds = [JStr ''A'', JStr ''C'']"
  using initDictionaries_order [of "\<lambda>_. ioret [JStr ''C'']" "\<lparr>net_chainId = ''wGHE'', net_dictionary = JArr [JStr ''A'', JStr ''B'']\<rparr>" "()" "[JStr ''C'']"
      "\<lambda>dict. if dict_url dict = JStr ''B'' then iothrow (Error ''no dictionary'') else ioret ()" no_processor
      "\<lambda>e. if e = JStr ''B'' then Inl (Error ''no dictionary'') else Inr ()"]
  by (simp add: dictionaryEndpoints_def ioret_def iothrow_def List.map_filter_def)

end
