(* ===== verification/Manifest.thy ===== *)
theory Manifest
  imports Dictionary
begin

text \<open>
  The project manifest: the decorated classes of
  \<^verbatim>\<open>packages/common-algorand/src/project/models.ts\<close> and
  \<^verbatim>\<open>versioned/v1_0_0/model.ts\<close>, the version dispatch of
  \<^verbatim>\<open>versioned/ProjectManifestVersioned.ts\<close>, \<^verbatim>\<open>load.ts\<close>, and the decorator of
  \<^verbatim>\<open>validation/is-string-or-object.validation.ts\<close>. A class is the list of its decorated
  properties. The decorators themselves are class-validator's: what each says of a value is the
  parameter \<open>cv\<close>, and how they combine is its documentation: the conditions of a property (an optional
  one that is absent, a \<open>ValidateIf\<close>) must all hold for its checks to be made, and a property without
  decorators is refused.
\<close>

section \<open>Decorated classes\<close>

datatype atom =
    IsString | IsInt | IsNumber | IsBoolean | IsArray | IsObject
  | IsEnum "string list"
  | Equals string
  | Validator string

datatype decorator =
    Check atom
  | ValidateNested "property list"
  | ValidateNestedKind "(string \<times> property list) list" "property list"
  | External string
and property = Property string "(jsobj \<Rightarrow> bool) list" "decorator list"

type_synonym dclass = "property list"

fun property_name :: "property \<Rightarrow> string" where
  "property_name (Property n cs ds) = n"

definition IsOptional :: "string \<Rightarrow> jsobj \<Rightarrow> bool" where
  "IsOptional n ob \<longleftrightarrow> obj_get ob n \<noteq> JUndef \<and> obj_get ob n \<noteq> JNull"

text \<open>What class-validator is relied on for: \<open>cv_atom\<close> for a decorator on a value, \<open>cv_external\<close> for the
  classes and validators of other packages.\<close>

record cv =
  cv_atom :: "atom \<Rightarrow> jsval \<Rightarrow> bool"
  cv_external :: "string \<Rightarrow> jsval \<Rightarrow> bool"

text \<open>A nested check looks at every element of an array; a kind picks the class of an element.\<close>

definition elements :: "jsval \<Rightarrow> jsval list" where
  "elements v = (case v of JArr xs \<Rightarrow> xs | _ \<Rightarrow> [v])"

fun decorator_ok :: "cv \<Rightarrow> decorator \<Rightarrow> jsval \<Rightarrow> bool"
  and property_ok :: "cv \<Rightarrow> property \<Rightarrow> jsobj \<Rightarrow> bool" where
  "decorator_ok cv (Check a) v = cv_atom cv a v"
| "decorator_ok cv (ValidateNested cls) v = list_all (\<lambda>e. case e of
     JObj ob \<Rightarrow> list_all (\<lambda>p. property_ok cv p ob) cls \<and> set (own_keys ob) \<subseteq> set (map property_name cls)
   | _ \<Rightarrow> False) (elements v)"
| "decorator_ok cv (ValidateNestedKind kinds cls) v = list_all (\<lambda>e. case e of
     JObj ob \<Rightarrow> (if obj_get ob ''kind'' \<in> JStr ` set (map fst kinds)
       then list_all (\<lambda>(k, c). obj_get ob ''kind'' = JStr k \<longrightarrow>
         list_all (\<lambda>p. property_ok cv p ob) c \<and> set (own_keys ob) \<subseteq> set (map property_name c)) kinds
       else list_all (\<lambda>p. property_ok cv p ob) cls \<and> set (own_keys ob) \<subseteq> set (map property_name cls))
   | _ \<Rightarrow> False) (elements v)"
| "decorator_ok cv (External n) v = cv_external cv n v"
| "property_ok cv (Property n cs ds) ob = (list_all (\<lambda>c. c ob) cs \<longrightarrow> list_all (\<lambda>d. decorator_ok cv d (obj_get ob n)) ds)"

definition class_ok :: "cv \<Rightarrow> dclass \<Rightarrow> jsval \<Rightarrow> bool" where
  "class_ok cv cls v \<longleftrightarrow> decorator_ok cv (ValidateNested cls) v"

section \<open>The models\<close>

text \<open>\<open>TTs\<close> are the texts of algosdk's \<open>TransactionType\<close>, \<open>TT\<close> those the code names.\<close>

definition BlockFilter :: dclass where
  "BlockFilter = [
     Property ''modulo'' [IsOptional ''modulo''] [Check IsInt],
     Property ''timestamp'' [IsOptional ''timestamp''] [Check IsString]]"

definition txType_in :: "(TransactionType \<Rightarrow> string) \<Rightarrow> TransactionType list \<Rightarrow> jsobj \<Rightarrow> bool" where
  "txType_in TT tys ob \<longleftrightarrow> (\<exists>ty \<in> set tys. strict_eq (obj_get ob ''txType'') (JStr (TT ty)))"

definition TransactionFilter :: "(TransactionType \<Rightarrow> string) \<Rightarrow> string list \<Rightarrow> dclass" where
  "TransactionFilter TT TTs = [
     Property ''txType'' [IsOptional ''txType''] [Check (IsEnum TTs)],
     Property ''sender'' [IsOptional ''sender'', txType_in TT [Pay, Axfer, Appl]] [Check IsString],
     Property ''receiver'' [IsOptional ''receiver'', txType_in TT [Pay, Axfer]] [Check IsString],
     Property ''nonParticipant'' [IsOptional ''nonParticipant'', txType_in TT [Keyreg]] [Check IsBoolean],
     Property ''assetId'' [IsOptional ''assetId'', txType_in TT [Acfg, Axfer, Afrz]] [Check IsNumber],
     Property ''newFreezeStatus'' [IsOptional ''newFreezeStatus'', txType_in TT [Afrz]] [Check IsBoolean],
     Property ''address'' [IsOptional ''address'', txType_in TT [Afrz]] [Check IsString],
     Property ''applicationId'' [IsOptional ''applicationId'', txType_in TT [Appl]] [Check IsNumber],
     Property ''applicationArgs'' [IsOptional ''applicationArgs'', txType_in TT [Appl]] [Check IsString]]"

definition BlockHandler :: dclass where
  "BlockHandler = [
     Property ''kind'' [] [Check (IsEnum handler_kind_values)],
     Property ''handler'' [] [Check IsString],
     Property ''filter'' [IsOptional ''filter''] [ValidateNested BlockFilter]]"

definition TransactionHandler :: "(TransactionType \<Rightarrow> string) \<Rightarrow> string list \<Rightarrow> dclass" where
  "TransactionHandler TT TTs = [
     Property ''filter'' [IsOptional ''filter''] [ValidateNested (TransactionFilter TT TTs)],
     Property ''kind'' [] [Check (IsEnum handler_kind_values)],
     Property ''handler'' [] [Check IsString]]"

definition CustomHandler :: dclass where
  "CustomHandler = [
     Property ''kind'' [] [Check IsString],
     Property ''handler'' [] [Check IsString],
     Property ''filter'' [IsOptional ''filter''] [Check IsObject]]"

text \<open>The transformation of a runtime mapping's handlers: the class of each is chosen by its kind.\<close>

datatype handler_class = AsBlockHandler | AsTransactionHandler

fun transform_handler :: "jsval \<Rightarrow> (handler_class \<times> jsval) res" where
  "transform_handler (JObj ob) =
     (if strict_eq (obj_get ob ''kind'') (JStr (handler_kind_value Block)) then Inr (AsBlockHandler, JObj ob)
      else if strict_eq (obj_get ob ''kind'') (JStr (handler_kind_value Transaction)) then Inr (AsTransactionHandler, JObj ob)
      else Inl (Error (''handler '' @ js_to_string (obj_get ob ''kind'') @ '' not supported'')))"
| "transform_handler JUndef = Inl (TypeError (''Cannot read properties of undefined (reading '' @ [CHR 0x27] @ ''kind'' @ [CHR 0x27] @ '')''))"
| "transform_handler JNull = Inl (TypeError (''Cannot read properties of null (reading '' @ [CHR 0x27] @ ''kind'' @ [CHR 0x27] @ '')''))"
| "transform_handler v = Inl (Error ''handler undefined not supported'')"

fun transform_handlers :: "jsval \<Rightarrow> (handler_class \<times> jsval) list res" where
  "transform_handlers (JArr hs) = mapR transform_handler hs"
| "transform_handlers JUndef = Inl (TypeError (''Cannot read properties of undefined (reading '' @ [CHR 0x27] @ ''map'' @ [CHR 0x27] @ '')''))"
| "transform_handlers JNull = Inl (TypeError (''Cannot read properties of null (reading '' @ [CHR 0x27] @ ''map'' @ [CHR 0x27] @ '')''))"
| "transform_handlers v = Inl (TypeError ''handlers.map is not a function'')"

text \<open>After the transformation a handler is of the class of its kind.\<close>

definition RuntimeMapping :: "(TransactionType \<Rightarrow> string) \<Rightarrow> string list \<Rightarrow> dclass" where
  "RuntimeMapping TT TTs = [
     Property ''handlers'' [] [Check IsArray,
       ValidateNestedKind [(handler_kind_value Block, BlockHandler),
         (handler_kind_value Transaction, TransactionHandler TT TTs)] []],
     Property ''file'' [] [Check IsString]]"

definition CustomMapping :: dclass where
  "CustomMapping = [
     Property ''handlers'' [] [Check IsArray, ValidateNested CustomHandler],
     Property ''file'' [] [Check IsString]]"

text \<open>\<open>base\<close> are the decorated properties of @subql/common's \<open>BaseDataSource\<close>.\<close>

definition RuntimeDataSourceBase :: "dclass \<Rightarrow> (TransactionType \<Rightarrow> string) \<Rightarrow> string list \<Rightarrow> dclass" where
  "RuntimeDataSourceBase base TT TTs = base @ [
     Property ''kind'' [] [Check (IsEnum [ds_kind_value Runtime])],
     Property ''mapping'' [] [ValidateNested (RuntimeMapping TT TTs)]]"

definition FileReferenceImpl :: dclass where
  "FileReferenceImpl = [Property ''file'' [] [Check IsString]]"

definition CustomDataSourceBase :: "dclass \<Rightarrow> dclass" where
  "CustomDataSourceBase base = base @ [
     Property ''kind'' [] [Check IsString],
     Property ''mapping'' [] [ValidateNested CustomMapping],
     Property ''assets'' [] [External ''each FileReferenceImpl''],
     Property ''processor'' [] [Check IsObject]]"

section \<open>The manifest of version 1.0.0\<close>

definition ALGORAND_NODE_NAME :: string where
  "ALGORAND_NODE_NAME = ''@subql/node-algorand''"

definition AlgorandRunnerNodeImpl :: dclass where
  "AlgorandRunnerNodeImpl = [
     Property ''name'' [] [Check (Equals ALGORAND_NODE_NAME)],
     Property ''version'' [] [Check IsString, Check (Validator ''SemverVersionValidator'')]]"

definition AlgorandRunnerSpecsImpl :: dclass where
  "AlgorandRunnerSpecsImpl = [
     Property ''node'' [] [Check IsObject, ValidateNested AlgorandRunnerNodeImpl],
     Property ''query'' [] [Check IsObject, External ''RunnerQueryBaseModel'']]"

definition ProjectNetworkDeploymentV1_0_0 :: dclass where
  "ProjectNetworkDeploymentV1_0_0 = [
     Property ''chainId'' [] [Check IsString],
     Property ''bypassBlocks'' [IsOptional ''bypassBlocks''] [Check IsArray]]"

definition RuntimeDataSourceTemplateImpl :: "dclass \<Rightarrow> (TransactionType \<Rightarrow> string) \<Rightarrow> string list \<Rightarrow> dclass" where
  "RuntimeDataSourceTemplateImpl base TT TTs = RuntimeDataSourceBase base TT TTs @ [Property ''name'' [] [Check IsString]]"

definition CustomDataSourceTemplateImpl :: "dclass \<Rightarrow> dclass" where
  "CustomDataSourceTemplateImpl base = CustomDataSourceBase base @ [Property ''name'' [] [Check IsString]]"

definition dataSources_check :: "dclass \<Rightarrow> (TransactionType \<Rightarrow> string) \<Rightarrow> string list \<Rightarrow> decorator" where
  "dataSources_check base TT TTs = ValidateNestedKind
     [(''algorand/Runtime'', RuntimeDataSourceBase base TT TTs)] (CustomDataSourceBase base)"

definition templates_check :: "dclass \<Rightarrow> (TransactionType \<Rightarrow> string) \<Rightarrow> string list \<Rightarrow> decorator" where
  "templates_check base TT TTs = ValidateNestedKind
     [(''algorand/Runtime'', RuntimeDataSourceTemplateImpl base TT TTs)] (CustomDataSourceTemplateImpl base)"

text \<open>The deployment; \<open>deployment_base\<close> are the properties of @subql/common's \<open>BaseDeploymentV1_0_0\<close>.\<close>

definition DeploymentV1_0_0 :: "dclass \<Rightarrow> dclass \<Rightarrow> (TransactionType \<Rightarrow> string) \<Rightarrow> string list \<Rightarrow> dclass" where
  "DeploymentV1_0_0 deployment_base base TT TTs = deployment_base @ [
     Property ''network'' [] [ValidateNested ProjectNetworkDeploymentV1_0_0],
     Property ''runner'' [] [Check IsObject, ValidateNested AlgorandRunnerSpecsImpl],
     Property ''dataSources'' [] [Check IsArray, dataSources_check base TT TTs],
     Property ''templates'' [IsOptional ''templates''] [Check IsArray, templates_check base TT TTs]]"

text \<open>The transformation of the network of a deployment: an old manifest names its chain \<open>genesisHash\<close>.\<close>

fun transform_network :: "jsval \<Rightarrow> jsval res" where
  "transform_network JUndef = Inl (TypeError (''Cannot read properties of undefined (reading '' @ [CHR 0x27] @ ''genesisHash'' @ [CHR 0x27] @ '')''))"
| "transform_network JNull = Inl (TypeError (''Cannot read properties of null (reading '' @ [CHR 0x27] @ ''genesisHash'' @ [CHR 0x27] @ '')''))"
| "transform_network (JObj v) = Inr (JObj
     (if truthy (obj_get v ''genesisHash'') \<and> \<not> truthy (obj_get v ''chainId'')
      then obj_put v ''chainId'' (obj_get v ''genesisHash'') else v))"
| "transform_network v = Inr v"

definition ProjectManifestV1_0_0Impl :: "dclass \<Rightarrow> (TransactionType \<Rightarrow> string) \<Rightarrow> string list \<Rightarrow> dclass" where
  "ProjectManifestV1_0_0Impl base TT TTs = [
     Property ''specVersion'' [] [Check (Equals ''1.0.0'')],
     Property ''name'' [] [Check IsString],
     Property ''version'' [] [Check IsString],
     Property ''network'' [] [Check IsObject, External ''ProjectNetworkV1_0_0''],
     Property ''schema'' [] [External ''FileType''],
     Property ''dataSources'' [] [Check IsArray, dataSources_check base TT TTs],
     Property ''templates'' [IsOptional ''templates''] [Check IsArray, templates_check base TT TTs],
     Property ''runner'' [] [Check IsObject, ValidateNested AlgorandRunnerSpecsImpl],
     Property ''parent'' [IsOptional ''parent''] [Check IsObject]]"

text \<open>\<open>validate\<close>: \<open>validateSync\<close> gives the texts of the errors of the deployment.\<close>

definition manifest_validate :: "string list \<Rightarrow> unit res" where
  "manifest_validate errors = (if errors \<noteq> []
     then Inl (Error (''failed to parse project.yaml.'' @ [CHR 0x0A] @ join_with [CHR 0x0A] errors))
     else Inr ())"

text \<open>The datasources validate themselves with @subql/common's \<open>validateObject\<close>.\<close>

definition runtime_ds_validate :: "(jsval \<Rightarrow> string \<Rightarrow> unit res) \<Rightarrow> jsval \<Rightarrow> unit res" where
  "runtime_ds_validate validateObject ds = validateObject ds ''failed to validate runtime datasource.''"

definition custom_ds_validate :: "(jsval \<Rightarrow> string \<Rightarrow> unit res) \<Rightarrow> jsval \<Rightarrow> unit res" where
  "custom_ds_validate validateObject ds = validateObject ds ''failed to validate custom datasource.''"

text \<open>
  The text of a deployment. The manifest keeps its deployment in the field \<open>_deployment\<close> of
  @subql/common's base class, whose getter \<open>get_deployment\<close> makes it when it is first asked for; js-yaml
  prints what the field holds at that time. The wrapper reads the getter instead and lets the deployment
  print itself.
\<close>

record yaml_options =
  sortKeys :: bool
  condenseFlow :: bool

definition impl_toDeployment :: "(yaml_options \<Rightarrow> 'd option \<Rightarrow> string res) \<Rightarrow> 'd option \<Rightarrow> string res" where
  "impl_toDeployment yaml_dump deployment_field = yaml_dump \<lparr>sortKeys = True, condenseFlow = True\<rparr> deployment_field"

definition versioned_toDeployment :: "('d option \<Rightarrow> 'd \<times> 'd option) \<Rightarrow> ('d \<Rightarrow> string) \<Rightarrow> 'd option \<Rightarrow> string \<times> 'd option" where
  "versioned_toDeployment get_deployment toYaml deployment_field = (case get_deployment deployment_field of
     (deployment, deployment_field') \<Rightarrow> (toYaml deployment, deployment_field'))"

section \<open>Versions\<close>

datatype manifest_class = ProjectManifestClass_1_0_0

definition ALGORAND_SUPPORTED_VERSIONS :: "(string \<times> manifest_class) list" where
  "ALGORAND_SUPPORTED_VERSIONS = [(''1.0.0'', ProjectManifestClass_1_0_0)]"

definition manifestIsV1_0_0 :: "string \<Rightarrow> bool" where
  "manifestIsV1_0_0 specVersion \<longleftrightarrow> specVersion = ''1.0.0''"

record AlgorandProjectManifestVersioned =
  impl_class :: manifest_class
  impl_raw :: jsval

definition new_AlgorandProjectManifestVersioned :: "jsval \<Rightarrow> AlgorandProjectManifestVersioned res" where
  "new_AlgorandProjectManifestVersioned raw =
     bindR (js_read [] raw ''specVersion'') (\<lambda>specVersion.
       case literal_get ALGORAND_SUPPORTED_VERSIONS (js_to_string specVersion) of
         None \<Rightarrow> Inl (Error ''specVersion not supported for project manifest file'')
       | Some klass \<Rightarrow> Inr \<lparr>impl_class = klass, impl_raw = raw\<rparr>)"

definition isV1_0_0 :: "AlgorandProjectManifestVersioned \<Rightarrow> bool" where
  "isV1_0_0 m \<longleftrightarrow> strict_eq (obj_get (own_props [] (impl_raw m)) ''specVersion'') (JStr ''1.0.0'')"

definition asImpl :: "AlgorandProjectManifestVersioned \<Rightarrow> manifest_class \<times> jsval" where
  "asImpl m = (impl_class m, impl_raw m)"

definition manifest_getter :: "AlgorandProjectManifestVersioned \<Rightarrow> string \<Rightarrow> jsval" where
  "manifest_getter m k = obj_get (own_props [] (impl_raw m)) k"

definition manifest_schema :: "AlgorandProjectManifestVersioned \<Rightarrow> jsval res" where
  "manifest_schema m = js_read [] (manifest_getter m ''schema'') ''file''"

text \<open>\<open>errors_of\<close> is what the validation of the deployment finds.\<close>

definition parseAlgorandProjectManifest :: "(AlgorandProjectManifestVersioned \<Rightarrow> string list) \<Rightarrow> jsval
    \<Rightarrow> AlgorandProjectManifestVersioned res" where
  "parseAlgorandProjectManifest errors_of raw =
     bindR (new_AlgorandProjectManifestVersioned raw) (\<lambda>projectManifest.
     bindR (manifest_validate (errors_of projectManifest)) (\<lambda>_. Inr projectManifest))"

section \<open>A decorator of the package\<close>

text \<open>\<open>typeof v\<close> is \<open>object\<close> for \<open>null\<close> too, whose keys cannot be listed.\<close>

fun IsStringOrObject_validate :: "jsval \<Rightarrow> bool res" where
  "IsStringOrObject_validate (JStr s) = Inr True"
| "IsStringOrObject_validate JNull = Inl (TypeError ''Cannot convert undefined or null to object'')"
| "IsStringOrObject_validate (JObj ob) = Inr (own_keys ob \<noteq> [])"
| "IsStringOrObject_validate (JArr xs) = Inr (xs \<noteq> [])"
| "IsStringOrObject_validate v = Inr False"

definition IsStringOrObject_defaultMessage :: "string \<Rightarrow> string res" where
  "IsStringOrObject_defaultMessage propertyName = Inl (Error (propertyName @ '' must by string or object!''))"

section \<open>What class-validator is relied on for\<close>

definition cv_ok :: "cv \<Rightarrow> bool" where
  "cv_ok cv \<longleftrightarrow> (\<forall>v. cv_atom cv IsString v \<longleftrightarrow> (\<exists>s. v = JStr s)) \<and>
     (\<forall>v. cv_atom cv IsInt v \<longleftrightarrow> (\<exists>n. v = JNum n)) \<and>
     (\<forall>v. cv_atom cv IsNumber v \<longleftrightarrow> (\<exists>n. v = JNum n)) \<and>
     (\<forall>v. cv_atom cv IsBoolean v \<longleftrightarrow> (\<exists>b. v = JBool b)) \<and>
     (\<forall>v. cv_atom cv IsArray v \<longleftrightarrow> (\<exists>xs. v = JArr xs)) \<and>
     (\<forall>v. cv_atom cv IsObject v \<longleftrightarrow> (\<exists>ob. v = JObj ob)) \<and>
     (\<forall>ks v. cv_atom cv (IsEnum ks) v \<longleftrightarrow> v \<in> JStr ` set ks) \<and>
     (\<forall>k v. cv_atom cv (Equals k) v \<longleftrightarrow> v = JStr k)"

fun atom_ref :: "atom \<Rightarrow> jsval \<Rightarrow> bool" where
  "atom_ref IsString v = (case v of JStr _ \<Rightarrow> True | _ \<Rightarrow> False)"
| "atom_ref IsInt v = (case v of JNum _ \<Rightarrow> True | _ \<Rightarrow> False)"
| "atom_ref IsNumber v = (case v of JNum _ \<Rightarrow> True | _ \<Rightarrow> False)"
| "atom_ref IsBoolean v = (case v of JBool _ \<Rightarrow> True | _ \<Rightarrow> False)"
| "atom_ref IsArray v = (case v of JArr _ \<Rightarrow> True | _ \<Rightarrow> False)"
| "atom_ref IsObject v = (case v of JObj _ \<Rightarrow> True | _ \<Rightarrow> False)"
| "atom_ref (IsEnum ks) v = (v \<in> JStr ` set ks)"
| "atom_ref (Equals k) v = (v = JStr k)"
| "atom_ref (Validator n) v = True"

definition cv_ref :: cv where
  "cv_ref = \<lparr>cv_atom = atom_ref, cv_external = (\<lambda>_ _. True)\<rparr>"

lemma cv_ref_ok: "cv_ok cv_ref"
  by (auto simp: cv_ok_def cv_ref_def split: jsval.splits)

section \<open>Properties\<close>

lemma nested_property:
  assumes "class_ok cv cls (JObj ob)" "Property n cs ds \<in> set cls" "list_all (\<lambda>c. c ob) cs" "d \<in> set ds"
  shows "decorator_ok cv d (obj_get ob n)"
  using assms by (force simp: class_ok_def elements_def list_all_iff)

lemma validated_args:
  assumes "cv_ok cv" "class_ok cv (TransactionFilter TT TTs) (JObj fo)" "obj_get fo ''txType'' = JStr (TT Appl)"
    and "obj_get fo ''applicationArgs'' \<noteq> JUndef"
  shows "obj_get fo ''applicationArgs'' = JNull \<or> (\<exists>s. obj_get fo ''applicationArgs'' = JStr s)"
proof (cases "obj_get fo ''applicationArgs'' = JNull")
  case False
  have "decorator_ok cv (Check IsString) (obj_get fo ''applicationArgs'')"
    by (rule nested_property [OF assms(2), of _ "[IsOptional ''applicationArgs'', txType_in TT [Appl]]" "[Check IsString]"])
      (use assms(3,4) False in \<open>simp_all add: TransactionFilter_def IsOptional_def txType_in_def\<close>)
  with assms(1) show ?thesis by (simp add: cv_ok_def)
qed simp

text \<open>
  C24. A filter that names application calls as its \<open>txType\<close> and has a key \<open>applicationArgs\<close>, and that passes
  the validation of the manifest, never matches a transaction: the validation demands a text where the
  declared type, its documentation and the filter itself want an array of texts. (Without the \<open>txType\<close> the
  arguments are not validated, and an array can match: \<open>untyped_args_pass\<close>.)
\<close>

theorem validated_applicationArgs_never_match:
  assumes "cv_ok cv" "class_ok cv (TransactionFilter TT TTs) (JObj fo)" "obj_get fo ''txType'' = JStr (TT Appl)"
    and "obj_get fo ''applicationArgs'' \<noteq> JUndef" "inj TT" "TT Appl \<noteq> []" "lodash_get_contract lget"
  shows "filterTransaction TT lget (tx_props t) (JObj fo) \<noteq> Inr True"
proof
  assume pass: "filterTransaction TT lget (tx_props t) (JObj fo) = Inr True"
  then have ty: "tx_txType t = TT Appl" using assms(3,6) by (simp add: filterTransaction_True_iff_keys)
  have "obj_has fo ''applicationArgs''" using assms(4) obj_get_absent by blast
  with pass have "key_passes TT lget (tx_props t) ''applicationArgs'' (obj_get fo ''applicationArgs'')"
    by (simp add: filterTransaction_True_iff_keys)
  with ty assms(4,5,7) have "txComparator (obj_get fo ''applicationArgs'')
      (opt_val (js_arr JStr) (applicationArgs_of Appl t)) = Inr True"
    by (simp add: key_passes_def mapping_known field_reads(8) del: filter_paths_simps)
  with validated_args [OF assms(1-4)] show False
    by (cases "applicationArgs_of Appl t") (auto simp: js_arr_def)
qed

theorem validated_applicationArgs_never_match_witness:
  "class_ok cv_ref (TransactionFilter algosdk_TT (map algosdk_TT [Pay, Keyreg, Acfg, Axfer, Afrz, Appl]))
      (JObj [(''txType'', JStr ''appl''), (''applicationArgs'', JStr ''udVC+w=='')])
   \<and> filterTransaction algosdk_TT get_ref (tx_props sample_call)
      (JObj [(''txType'', JStr ''appl''), (''applicationArgs'', JStr ''udVC+w=='')]) \<noteq> Inr True"
proof -
  let ?f = "[(''txType'', JStr ''appl''), (''applicationArgs'', JStr ''udVC+w=='')]"
  have ok: "class_ok cv_ref (TransactionFilter algosdk_TT (map algosdk_TT [Pay, Keyreg, Acfg, Axfer, Afrz, Appl])) (JObj ?f)"
    using cv_ref_ok by (simp add: class_ok_def elements_def TransactionFilter_def IsOptional_def txType_in_def
        algosdk_TT_def set_own_keys cv_ok_def) auto
  with validated_applicationArgs_never_match [OF cv_ref_ok ok _ _ inj_algosdk_TT _ get_ref_contract, of sample_call]
  show ?thesis by (simp add: algosdk_TT_def)
qed

text \<open>A filter that names no type keeps its arguments as they are, and finds the call that has them.\<close>

lemma untyped_args_pass:
  "class_ok cv_ref (TransactionFilter algosdk_TT (map algosdk_TT [Pay, Keyreg, Acfg, Axfer, Afrz, Appl]))
     (JObj [(''applicationArgs'', JArr [JStr ''udVC''])])"
  "filterTransaction algosdk_TT get_ref (tx_props sample_call) (JObj [(''applicationArgs'', JArr [JStr ''udVC''])]) = Inr True"
proof -
  show "class_ok cv_ref (TransactionFilter algosdk_TT (map algosdk_TT [Pay, Keyreg, Acfg, Axfer, Afrz, Appl]))
     (JObj [(''applicationArgs'', JArr [JStr ''udVC''])])"
    using cv_ref_ok by (auto simp: class_ok_def elements_def TransactionFilter_def IsOptional_def txType_in_def
        algosdk_TT_def set_own_keys cv_ok_def)
  have t: "tx_txType sample_call = algosdk_TT Appl" "applicationArgs_of Appl sample_call = Some [''udVC'', ''AQ'']"
    by (simp_all add: sample_call_def algosdk_TT_def applicationArgs_of_def)
  then have "key_passes algosdk_TT get_ref (tx_props sample_call) ''applicationArgs'' (JArr [JStr ''udVC''])"
    using mapping_known [OF inj_algosdk_TT, of Appl] field_reads(8) [OF get_ref_contract, of sample_call Appl]
    by (simp add: key_passes_def js_arr_def del: filter_paths_simps)
  then show "filterTransaction algosdk_TT get_ref (tx_props sample_call) (JObj [(''applicationArgs'', JArr [JStr ''udVC''])]) = Inr True"
    by (simp add: filterTransaction_True_iff_keys)
qed

text \<open>
  A key that is not for the type of a filter is not validated at all, and is compared with nothing: a
  filter for payments with arguments passes the validation and throws on every payment.
\<close>

lemma validated_filter_throws:
  "class_ok cv_ref (TransactionFilter algosdk_TT (map algosdk_TT [Pay, Keyreg, Acfg, Axfer, Afrz, Appl]))
     (JObj [(''txType'', JStr ''pay''), (''applicationArgs'', JArr [JStr ''x''])])"
  "filterTransaction algosdk_TT get_ref [(''txType'', JStr ''pay''), (''sender'', JStr a)]
     (JObj [(''txType'', JStr ''pay''), (''applicationArgs'', JArr [JStr ''x''])])
   = Inl (TypeError (''Cannot read properties of undefined (reading '' @ [CHR 0x27] @ ''0'' @ [CHR 0x27] @ '')''))"
proof -
  show "class_ok cv_ref (TransactionFilter algosdk_TT (map algosdk_TT [Pay, Keyreg, Acfg, Axfer, Afrz, Appl]))
     (JObj [(''txType'', JStr ''pay''), (''applicationArgs'', JArr [JStr ''x''])])"
    using cv_ref_ok by (auto simp: class_ok_def elements_def TransactionFilter_def IsOptional_def txType_in_def
        algosdk_TT_def set_own_keys cv_ok_def)
  have m: "literal_get (mappingFilterTransaction algosdk_TT) ''pay'' = Some (filter_paths Pay)"
    using mapping_known [OF inj_algosdk_TT, of Pay] by (simp add: algosdk_TT_def)
  have p: "literal_get (filter_paths Pay) ''applicationArgs'' = None" by (simp add: literal_get_def)
  have z: "show_nat 0 = ''0''" by code_simp
  have e: "filter (\<lambda>(k, v). k \<noteq> ''txType'') (own_entries [(''txType'', JStr ''pay''), (''applicationArgs'', JArr [JStr ''x''])])
      = [(''applicationArgs'', JArr [JStr ''x''])]" by code_simp
  have g: "get_ref [(''txType'', JStr ''pay''), (''sender'', JStr a)] None = JUndef"
    using get_ref_contract by (simp add: lodash_get_contract_def)
  show "filterTransaction algosdk_TT get_ref [(''txType'', JStr ''pay''), (''sender'', JStr a)]
     (JObj [(''txType'', JStr ''pay''), (''applicationArgs'', JArr [JStr ''x''])])
   = Inl (TypeError (''Cannot read properties of undefined (reading '' @ [CHR 0x27] @ ''0'' @ [CHR 0x27] @ '')''))"
    by (simp add: filterTransaction_def e m p g z del: filter_paths_simps)
qed

text \<open>
  A manifest of an older project keeps its chain: a network that names only \<open>genesisHash\<close> gets it as
  its chain id, one that names a chain id keeps it, and nothing else of the network changes.
\<close>

lemma transform_network_chainId:
  "\<exists>v'. transform_network (JObj v) = Inr (JObj v')
     \<and> obj_get v' ''chainId'' = (if truthy (obj_get v ''chainId'') then obj_get v ''chainId''
         else if truthy (obj_get v ''genesisHash'') then obj_get v ''genesisHash'' else obj_get v ''chainId'')
     \<and> (\<forall>k. k \<noteq> ''chainId'' \<longrightarrow> obj_get v' k = obj_get v k)"
  by simp

text \<open>
  A manifest is read exactly when its version is the supported one and its deployment has no
  error; the object then read is of that version.
\<close>

lemma parse_manifest:
  "parseAlgorandProjectManifest errors_of (JObj raw) = Inr m \<longleftrightarrow>
     js_to_string (obj_get raw ''specVersion'') = ''1.0.0'' \<and> m = \<lparr>impl_class = ProjectManifestClass_1_0_0, impl_raw = JObj raw\<rparr>
     \<and> errors_of m = []"
  by (auto simp: parseAlgorandProjectManifest_def new_AlgorandProjectManifestVersioned_def literal_get_def
      ALGORAND_SUPPORTED_VERSIONS_def manifest_validate_def bindR_Inr_iff split: if_splits)

lemma mapR_Inr_map:
  assumes "\<And>x y. f x = Inr y \<longleftrightarrow> P x \<and> y = g x"
  shows "mapR f xs = Inr ys \<longleftrightarrow> (\<forall>x \<in> set xs. P x) \<and> ys = map g xs"
  by (induction xs arbitrary: ys) (auto simp: assms bindR_Inr_iff)

text \<open>
  C35. The handlers of a runtime mapping are each made an object of the class of their kind, in their
  order, and one handler of another kind refuses the whole mapping.
\<close>

theorem transform_handlers_kinds:
  "transform_handlers (JArr hs) = Inr r \<longleftrightarrow>
     (\<forall>h \<in> set hs. \<exists>k. obj_get (own_props [] h) ''kind'' = JStr (handler_kind_value k))
     \<and> r = map (\<lambda>h. (if obj_get (own_props [] h) ''kind'' = JStr (handler_kind_value Block)
         then AsBlockHandler else AsTransactionHandler, h)) hs"
proof -
  have one: "transform_handler h = Inr x \<longleftrightarrow>
      (\<exists>k. obj_get (own_props [] h) ''kind'' = JStr (handler_kind_value k))
      \<and> x = (if obj_get (own_props [] h) ''kind'' = JStr (handler_kind_value Block)
         then AsBlockHandler else AsTransactionHandler, h)" for h x
    unfolding ex_handler_kind by (cases h) (auto simp: deref_def)
  show ?thesis
    unfolding transform_handlers.simps by (rule mapR_Inr_map) (rule one)
qed

theorem transform_handlers_kinds_witness:
  "transform_handlers (JArr [JObj [(''kind'', JStr (handler_kind_value Transaction))], JObj [(''kind'', JStr (handler_kind_value Block))]])
    = Inr [(AsTransactionHandler, JObj [(''kind'', JStr (handler_kind_value Transaction))]),
        (AsBlockHandler, JObj [(''kind'', JStr (handler_kind_value Block))])]"
proof -
  let ?hs = "[JObj [(''kind'', JStr (handler_kind_value Transaction))], JObj [(''kind'', JStr (handler_kind_value Block))]]"
  have "\<forall>h \<in> set ?hs. \<exists>k. obj_get (own_props [] h) ''kind'' = JStr (handler_kind_value k)"
    by (auto simp del: handler_kind_value.simps)
  then show ?thesis
    by (simp del: transform_handlers.simps handler_kind_value.simps add: transform_handlers_kinds)
qed

end
