(* ===== verification/Commands.thy ===== *)
theory Commands
  imports Manifest
begin

text \<open>
  The subcommands: \<^verbatim>\<open>packages/node/src/subcommands/forceClean.service.ts\<close>, which empties a
  project's database, the indexing of one block for a test,
  \<^verbatim>\<open>testing.service.ts\<close>, and the making of a project in
  \<^verbatim>\<open>packages/node/src/configure/SubqueryProject.ts\<close>. The database, the names of deprecated
  enums, node-core's \<open>internalIndexBlock\<close> and its project loader are parameters.
\<close>

section \<open>Force clean\<close>

text \<open>
  The calls to the database: what it answers is the number of rows. The white space around and between
  the lines of a statement is left out of its text.
\<close>

record 's database =
  getExistingProjectSchema :: "('s, string) io"
  dropSchema :: "string \<Rightarrow> ('s, unit) io"
  getEnumDeprecated :: "string \<Rightarrow> ('s, nat) io"
  sql_query :: "string \<Rightarrow> (string \<times> string) list \<Rightarrow> ('s, nat) io"
  db_event_loop :: "'s event_loop"

definition deprecated_enum :: "(string \<Rightarrow> string) \<Rightarrow> string \<Rightarrow> string \<Rightarrow> string" where
  "deprecated_enum enumNameToHash schema e = schema @ ''_enum_'' @ enumNameToHash e"

definition drop_type :: "string \<Rightarrow> string" where
  "drop_type t = ''DROP TYPE '' @ [CHR 0x22] @ t @ [CHR 0x22] @ '';''"

definition find_subqueries :: string where
  "find_subqueries = ''SELECT * FROM INFORMATION_SCHEMA.TABLES WHERE TABLE_SCHEMA = '' @ [CHR 0x27] @ ''public''
     @ [CHR 0x27] @ '' AND  TABLE_NAME = '' @ [CHR 0x27] @ ''subqueries'' @ [CHR 0x27]"

definition delete_subquery :: string where
  "delete_subquery = ''DELETE FROM public.subqueries WHERE name = :name''"

definition drop_enum :: "'s database \<Rightarrow> (string \<Rightarrow> string) \<Rightarrow> string \<Rightarrow> string \<Rightarrow> ('s, unit) io" where
  "drop_enum db enumNameToHash schema e =
     (let t = deprecated_enum enumNameToHash schema e in
      iobind (getEnumDeprecated db t) (\<lambda>n.
        if n \<noteq> 0 then iobind (sql_query db (drop_type t) []) (\<lambda>_. ioret ()) else ioret ()))"

definition forceClean :: "'s database \<Rightarrow> (string \<Rightarrow> string) \<Rightarrow> string list \<Rightarrow> string \<Rightarrow> ('s, unit) io" where
  "forceClean db enumNameToHash enums subqueryName =
     iobind (getExistingProjectSchema db) (\<lambda>schema.
     if schema = [] then iothrow (Error ''Schema does not exist.'')
     else iocatch
       (iobind (dropSchema db ([CHR 0x22] @ schema @ [CHR 0x22])) (\<lambda>_.
        iobind (ioall (db_event_loop db) (map (drop_enum db enumNameToHash schema) enums)) (\<lambda>_.
        iobind (sql_query db find_subqueries []) (\<lambda>rowCount.
        if rowCount > 0
        then iobind (sql_query db delete_subquery [(''name'', subqueryName)]) (\<lambda>_. ioret ())
        else ioret ()))))
       iothrow)"

section \<open>Testing and the project\<close>

text \<open>A test indexes one block with the datasources node-core picked for its handler.\<close>

definition testing_indexBlock :: "(IBlock \<Rightarrow> AlgorandDataSource list \<Rightarrow> ('s, SafeAPIService) io \<Rightarrow> ('s, 'r) io)
    \<Rightarrow> ('s \<Rightarrow> jsheap) \<Rightarrow> (string \<Rightarrow> AlgorandDataSource list) \<Rightarrow> IBlock \<Rightarrow> string \<Rightarrow> ('s, unit) io" where
  "testing_indexBlock internalIndexBlock heap_of getDsWithHandler block handler =
     iobind (indexBlock internalIndexBlock heap_of block (getDsWithHandler handler)) (\<lambda>_. ioret ())"

record project_options =
  opt_parseManifest :: "jsval \<Rightarrow> (manifest_class \<times> jsval) res"
  opt_blockHandlerKind :: string
  opt_isRuntimeDs :: "AlgorandDataSource \<Rightarrow> bool"
  opt_isCustomDs :: "AlgorandDataSource \<Rightarrow> bool"

definition createSubQueryProject :: "(project_options \<Rightarrow> jsval \<Rightarrow> ('s, 'project) io)
    \<Rightarrow> (AlgorandProjectManifestVersioned \<Rightarrow> string list) \<Rightarrow> jsval \<Rightarrow> ('s, 'project) io" where
  "createSubQueryProject BaseSubqueryProject_create errors_of rawManifest =
     BaseSubqueryProject_create \<lparr>
       opt_parseManifest = (\<lambda>raw. bindR (parseAlgorandProjectManifest errors_of raw) (\<lambda>m. Inr (asImpl m))),
       opt_blockHandlerKind = handler_kind_value Block,
       opt_isRuntimeDs = isRuntimeDs,
       opt_isCustomDs = isCustomDs\<rparr> rawManifest"

section \<open>Properties\<close>

text \<open>A database that logs every statement and in which nothing fails: \<open>old\<close> are the deprecated enums
  there are, \<open>rows\<close> the tables named \<open>subqueries\<close>, \<open>pick\<close> the enum that is asked for next.\<close>

definition log_database :: "(nat \<Rightarrow> nat) \<Rightarrow> string \<Rightarrow> string set \<Rightarrow> nat \<Rightarrow> (string \<times> (string \<times> string) list) list database" where
  "log_database pick schema old rows = \<lparr>
     getExistingProjectSchema = ioret schema,
     dropSchema = (\<lambda>s trace. Some (Inr (), trace @ [(''DROP SCHEMA '' @ s, [])])),
     getEnumDeprecated = (\<lambda>t. ioret (if t \<in> old then 1 else 0)),
     sql_query = (\<lambda>q args trace. Some (Inr (if q = find_subqueries then rows else 0), trace @ [(q, args)])),
     db_event_loop = (\<lambda>n trace. (pick n, trace))\<rparr>"

lemma log_database_simps [simp]:
  "getExistingProjectSchema (log_database pick schema old rows) = ioret schema"
  "dropSchema (log_database pick schema old rows) x trace = Some (Inr (), trace @ [(''DROP SCHEMA '' @ x, [])])"
  "getEnumDeprecated (log_database pick schema old rows) x = ioret (if x \<in> old then 1 else 0)"
  "sql_query (log_database pick schema old rows) x args trace
    = Some (Inr (if x = find_subqueries then rows else 0), trace @ [(x, args)])"
  "db_event_loop (log_database pick schema old rows) n trace = (pick n, trace)"
  by (simp_all add: log_database_def)

lemma statements_neq [simp]: "drop_type x \<noteq> find_subqueries" "delete_subquery \<noteq> find_subqueries"
  by (simp_all add: drop_type_def find_subqueries_def delete_subquery_def)

lemma drop_enum_log:
  "drop_enum (log_database pick schema old rows) enumNameToHash schema e trace
    = Some (Inr (), trace @ map (\<lambda>t. (drop_type t, [])) (filter (\<lambda>t. t \<in> old) [deprecated_enum enumNameToHash schema e]))"
  by (simp add: drop_enum_def iobind_def ioret_def Let_def)

text \<open>The statements that drop the enums, whatever enum is asked for next.\<close>

lemma drop_enums_log:
  fixes enums old enumNameToHash schema
  defines "old_enums es \<equiv> filter_mset (\<lambda>t. t \<in> old) (image_mset (deprecated_enum enumNameToHash schema) es)"
  shows "\<exists>us ts. ioall (db_event_loop (log_database pick schema old rows))
      (map (drop_enum (log_database pick schema old rows) enumNameToHash schema) enums) trace
        = Some (Inr us, trace @ map (\<lambda>t. (drop_type t, [])) ts) \<and> mset ts = old_enums (mset enums)"
proof -
  let ?db = "log_database pick schema old rows"
  let ?J = "\<lambda>L t. finite L \<and> (\<exists>ts. t = trace @ map (\<lambda>t. (drop_type t, [])) ts
      \<and> mset ts = old_enums (image_mset (\<lambda>i. enums ! i) (mset_set (fst ` L))))"
  let ?tasks = "map (drop_enum ?db enumNameToHash schema) enums"
  have "\<exists>us s'. ioall (db_event_loop ?db) ?tasks trace = Some (Inr us, s') \<and> length us = length ?tasks
     \<and> ?J ((\<lambda>i. (i, us ! i)) ` {..<length ?tasks}) s'"
  proof (rule ioall_rule)
    fix i and L :: "(nat \<times> unit) set" and t
    assume i: "i < length ?tasks" "i \<notin> fst ` L" and J: "?J L t"
    then obtain ts where ts: "t = trace @ map (\<lambda>t. (drop_type t, [])) ts"
      "mset ts = old_enums (image_mset (\<lambda>i. enums ! i) (mset_set (fst ` L)))" by blast
    let ?new = "filter (\<lambda>t. t \<in> old) [deprecated_enum enumNameToHash schema (enums ! i)]"
    have "(?tasks ! i) t = Some (Inr (), trace @ map (\<lambda>t. (drop_type t, [])) (ts @ ?new))"
      using i(1) by (simp add: ts(1) drop_enum_log)
    moreover have "mset (ts @ ?new) = old_enums (image_mset (\<lambda>i. enums ! i) (mset_set (fst ` insert (i, ()) L)))"
      using J i(2) by (simp add: ts(2) old_enums_def)
    ultimately show "\<exists>y s'. (?tasks ! i) t = Some (Inr y, s') \<and> ?J (insert (i, y) L) s'" using J by blast
  qed (auto simp: old_enums_def)
  then obtain us s' where us: "ioall (db_event_loop ?db) ?tasks trace = Some (Inr us, s')"
    and J: "?J ((\<lambda>i. (i, us ! i)) ` {..<length enums}) s'" by auto
  have "fst ` (\<lambda>i. (i, us ! i)) ` {..<length enums} = {..<length enums}" by (simp add: image_image)
  moreover have "image_mset (\<lambda>i. enums ! i) (mset_set {..<length enums}) = mset enums"
    by (metis atLeast0LessThan map_nth mset_map mset_upt)
  ultimately show ?thesis using us J by auto
qed

text \<open>
  C40. A forced clean drops the project's schema first, then exactly the deprecated enums that are
  there, in whatever order they are found, and removes the project's row when the table of projects
  exists; without a schema it says so and touches nothing.
\<close>

theorem forceClean_statements:
  "\<exists>drops. mset drops = mset (filter (\<lambda>t. t \<in> old) (map (deprecated_enum enumNameToHash schema) enums)) \<and>
     forceClean (log_database pick schema old rows) enumNameToHash enums subqueryName [] =
     (if schema = [] then Some (Inl (Error ''Schema does not exist.''), [])
      else Some (Inr (), [(''DROP SCHEMA '' @ [CHR 0x22] @ schema @ [CHR 0x22], [])]
        @ map (\<lambda>t. (drop_type t, [])) drops @ [(find_subqueries, [])]
        @ (if rows > 0 then [(delete_subquery, [(''name'', subqueryName)])] else [])))"
proof -
  let ?db = "log_database pick schema old rows"
  let ?drop = "[(''DROP SCHEMA '' @ [CHR 0x22] @ schema @ [CHR 0x22], [])]"
  obtain us ts where "ioall (db_event_loop ?db) (map (drop_enum ?db enumNameToHash schema) enums) ?drop
      = Some (Inr us, ?drop @ map (\<lambda>t. (drop_type t, [])) ts)"
    and "mset ts = filter_mset (\<lambda>t. t \<in> old) (image_mset (deprecated_enum enumNameToHash schema) (mset enums))"
    using drop_enums_log [of pick schema old rows enumNameToHash enums ?drop] by blast
  then show ?thesis
    by (intro exI [of _ ts]) (simp add: forceClean_def iobind_def iocatch_def ioret_def iothrow_def)
qed

text \<open>
  A failure of the clean is the failure of the database, unchanged: when the schema cannot be
  dropped, no enum and no row is touched.
\<close>

lemma forceClean_stops:
  assumes "getExistingProjectSchema db s = Some (Inr schema, t)" "schema \<noteq> []"
    and "dropSchema db ([CHR 0x22] @ schema @ [CHR 0x22]) t = Some (Inl e, u)"
  shows "forceClean db enumNameToHash enums subqueryName s = Some (Inl e, u)"
  using assms by (simp add: forceClean_def iobind_def iocatch_def iothrow_def)

end
