(* ===== verification/Startup.thy ===== *)
theory Startup
  imports Commands
begin

text \<open>
  How the programs start: the node of \<^verbatim>\<open>packages/node/src/main.ts\<close> and
  \<^verbatim>\<open>init.ts\<close>, a worker thread of \<^verbatim>\<open>indexer/worker/worker.ts\<close>, the
  subcommands of \<^verbatim>\<open>yargs.ts\<close> and \<^verbatim>\<open>subcommands/*.init.ts\<close>, the test
  runner of \<^verbatim>\<open>subcommands/testing.service.ts\<close> and the configuration of
  \<^verbatim>\<open>configure/configure.module.ts\<close>. NestJS, node-core and the services it makes are the
  record \<open>framework\<close>: what each call does to the process and whether it fails. Here are the order of
  the calls and what becomes of a failure.
\<close>

section \<open>The framework\<close>

record argv =
  arg_port :: jsval
  arg_debug :: jsval
  arg_outputFmt :: jsval
  arg_logLevel :: jsval
  arg_commands :: "jsval list"

text \<open>
  Applications and services are handles of any types. \<open>get_service\<close> is the lookup of a provider by its
  token, \<open>exitWithError\<close> is given the text of the new error and its cause.
\<close>

record ('s, 'app, 'service) framework =
  initLogger :: "jsval \<Rightarrow> jsval \<Rightarrow> jsval \<Rightarrow> ('s, unit) io"
  getValidPort :: "jsval \<Rightarrow> ('s, int) io"
  create_app :: "string \<Rightarrow> bool \<Rightarrow> ('s, 'app) io"
  app_init :: "'app \<Rightarrow> ('s, unit) io"
  get_service :: "'app \<Rightarrow> string \<Rightarrow> ('s, 'service) io"
  projectService_init :: "'service \<Rightarrow> jsval \<Rightarrow> ('s, unit) io"
  startHeight :: "'service \<Rightarrow> ('s, jsval) io"
  fetchService_init :: "'service \<Rightarrow> jsval \<Rightarrow> ('s, unit) io"
  enableShutdownHooks :: "'app \<Rightarrow> ('s, unit) io"
  app_listen :: "'app \<Rightarrow> int \<Rightarrow> ('s, unit) io"
  initWorkerServices :: "'app \<Rightarrow> 'service \<Rightarrow> ('s, unit) io"
  logError :: "js_error \<Rightarrow> ('s, unit) io"
  exitWithError :: "string \<Rightarrow> js_error \<Rightarrow> ('s, unit) io"
  process_exit :: "int \<Rightarrow> ('s, unit) io"

section \<open>The node\<close>

text \<open>The body of the \<open>try\<close>, and the whole.\<close>

definition start_app :: "('s, 'app, 'service) framework \<Rightarrow> argv \<Rightarrow> int \<Rightarrow> ('s, unit) io" where
  "start_app F argv port =
     iobind (create_app F ''AppModule'' (truthy (arg_debug argv))) (\<lambda>app.
     iobind (app_init F app) (\<lambda>_.
     iobind (get_service F app ''IProjectService'') (\<lambda>projectService.
     iobind (get_service F app ''FetchService'') (\<lambda>fetchService.
     iobind (projectService_init F projectService JUndef) (\<lambda>_.
     iobind (startHeight F projectService) (\<lambda>height.
     iobind (fetchService_init F fetchService height) (\<lambda>_.
     iobind (enableShutdownHooks F app) (\<lambda>_.
     app_listen F app port))))))))"

definition bootstrap :: "('s, 'app, 'service) framework \<Rightarrow> argv \<Rightarrow> ('s, unit) io" where
  "bootstrap F argv =
     iobind (getValidPort F (arg_port argv)) (\<lambda>port.
     iocatch (start_app F argv port) (exitWithError F ''Node failed to start''))"

text \<open>The entry point: a subcommand is left to its own handler.\<close>

definition main :: "('s, 'app, 'service) framework \<Rightarrow> argv \<Rightarrow> ('s, unit) io" where
  "main F argv =
     iobind (initLogger F (arg_debug argv) (arg_outputFmt argv) (arg_logLevel argv)) (\<lambda>_.
     if \<not> truthy (case arg_commands argv of [] \<Rightarrow> JUndef | c # _ \<Rightarrow> c) then bootstrap F argv else ioret ())"

definition start_worker :: "('s, 'app, 'service) framework \<Rightarrow> argv \<Rightarrow> jsval \<Rightarrow> ('s, unit) io" where
  "start_worker F argv height =
     iobind (create_app F ''WorkerModule'' (truthy (arg_debug argv))) (\<lambda>app.
     iobind (app_init F app) (\<lambda>_.
     iobind (get_service F app ''IProjectService'') (\<lambda>projectService.
     iobind (projectService_init F projectService height) (\<lambda>_.
     iobind (get_service F app ''WorkerService'') (\<lambda>workerService.
     initWorkerServices F app workerService)))))"

definition initWorker :: "('s, 'app, 'service) framework \<Rightarrow> argv \<Rightarrow> jsval \<Rightarrow> ('s, unit) io" where
  "initWorker F argv height =
     iocatch (start_worker F argv height) (\<lambda>e. iobind (logError F e) (\<lambda>_. iothrow e))"

section \<open>Configuration and subcommands\<close>

text \<open>
  \<open>registerApp\<close> reads the arguments and makes the project with the function it is given; the module
  hands its result on under four tokens.
\<close>

definition getInstance :: "(argv \<Rightarrow> 'create \<Rightarrow> ('s, 'config \<times> 'project) io) \<Rightarrow> argv \<Rightarrow> 'create
    \<Rightarrow> ('s, 'config \<times> 'project) io" where
  "getInstance registerApp argv createProject = registerApp argv createProject"

datatype ('config, 'project) provided = NodeConfig 'config | SubqueryProject 'project | Null

record ('config, 'project) dynamic_module =
  providers :: "(string \<times> ('config, 'project) provided) list"
  exported :: "string list"

definition register :: "(argv \<Rightarrow> 'create \<Rightarrow> ('s, 'config \<times> 'project) io) \<Rightarrow> argv \<Rightarrow> 'create
    \<Rightarrow> ('s, ('config, 'project) dynamic_module) io" where
  "register registerApp argv createProject =
     iobind (getInstance registerApp argv createProject) (\<lambda>(nodeConfig, project). ioret \<lparr>
       providers = [(''NodeConfig'', NodeConfig nodeConfig),
         (''ISubqueryProject'', SubqueryProject project),
         (''IProjectUpgradeService'', SubqueryProject project),
         (''Null'', Null)],
       exported = [''NodeConfig'', ''ISubqueryProject'', ''IProjectUpgradeService'', ''Null'']\<rparr>)"

text \<open>\<open>run\<close> is node-core's loop over the tests of a project.\<close>

definition testingInit :: "('s, 'app, 'service) framework \<Rightarrow> ('s, 'config \<times> 'project) io
    \<Rightarrow> ('config \<Rightarrow> 'project \<Rightarrow> ('s, unit) io) \<Rightarrow> ('s, unit) io" where
  "testingInit F get_instance testingService_run =
     iobind (iocatch
       (iobind get_instance (\<lambda>(nodeConfig, project). testingService_run nodeConfig project))
       (exitWithError F ''Testing failed'')) (\<lambda>_. process_exit F 0)"

definition getTestRunner :: "('s, 'app, 'service) framework \<Rightarrow> ('s, 'app \<times> 'service) io" where
  "getTestRunner F =
     iobind (create_app F ''TestingModule'' False) (\<lambda>testContext.
     iobind (app_init F testContext) (\<lambda>_.
     iobind (get_service F testContext ''IProjectService'') (\<lambda>projectService.
     iobind (projectService_init F projectService JUndef) (\<lambda>_.
     iobind (get_service F testContext ''TestRunner'') (\<lambda>runner.
     ioret (testContext, runner))))))"

definition forceCleanInit :: "(string \<Rightarrow> ('s, unit) io) \<Rightarrow> ('s, unit) io" where
  "forceCleanInit core_forceClean = core_forceClean ''ForceCleanModule''"

definition reindexInit :: "(string \<Rightarrow> jsval \<Rightarrow> ('s, unit) io) \<Rightarrow> jsval \<Rightarrow> ('s, unit) io" where
  "reindexInit baseReindexInit targetHeight = baseReindexInit ''ReindexModule'' targetHeight"

text \<open>The handlers of the subcommands that node-core's command line is built with.\<close>

record 's command_handlers =
  initTesting :: "('s, unit) io"
  initForceClean :: "('s, unit) io"
  initReindex :: "jsval \<Rightarrow> ('s, unit) io"

definition yargs_handlers :: "('s, unit) io \<Rightarrow> (string \<Rightarrow> ('s, unit) io) \<Rightarrow> (string \<Rightarrow> jsval \<Rightarrow> ('s, unit) io)
    \<Rightarrow> 's command_handlers" where
  "yargs_handlers testing core_forceClean baseReindexInit = \<lparr>
     initTesting = testing,
     initForceClean = forceCleanInit core_forceClean,
     initReindex = reindexInit baseReindexInit\<rparr>"

section \<open>A framework that keeps a trace\<close>

text \<open>
  Every call is logged and then fails with the error \<open>fails\<close> gives it, or answers. An application is the
  name of its module, a service its token.
\<close>

datatype call =
    InitLogger
  | GetValidPort jsval
  | CreateApp string bool
  | InitApp string
  | GetService string
  | InitProject jsval
  | ReadStartHeight
  | InitFetch jsval
  | EnableShutdownHooks
  | Listen int
  | InitWorkerServices string
  | LogError js_error
  | ExitWithError string js_error
  | ProcessExit int

definition logged :: "(call \<Rightarrow> js_error option) \<Rightarrow> call \<Rightarrow> 'a \<Rightarrow> (call list, 'a) io" where
  "logged fails c x trace = Some (case fails c of None \<Rightarrow> Inr x | Some e \<Rightarrow> Inl e, trace @ [c])"

definition log_framework :: "(call \<Rightarrow> js_error option) \<Rightarrow> int \<Rightarrow> jsval \<Rightarrow> (call list, string, string) framework" where
  "log_framework fails port height = \<lparr>
     initLogger = (\<lambda>d f l. logged fails InitLogger ()),
     getValidPort = (\<lambda>p. logged fails (GetValidPort p) port),
     create_app = (\<lambda>m debug. logged fails (CreateApp m debug) m),
     app_init = (\<lambda>app. logged fails (InitApp app) ()),
     get_service = (\<lambda>app token. logged fails (GetService token) token),
     projectService_init = (\<lambda>s h. logged fails (InitProject h) ()),
     startHeight = (\<lambda>s. logged fails ReadStartHeight height),
     fetchService_init = (\<lambda>s h. logged fails (InitFetch h) ()),
     enableShutdownHooks = (\<lambda>app. logged fails EnableShutdownHooks ()),
     app_listen = (\<lambda>app p. logged fails (Listen p) ()),
     initWorkerServices = (\<lambda>app s. logged fails (InitWorkerServices s) ()),
     logError = (\<lambda>e. logged fails (LogError e) ()),
     exitWithError = (\<lambda>m e. logged fails (ExitWithError m e) ()),
     process_exit = (\<lambda>n. logged fails (ProcessExit n) ())\<rparr>"

text \<open>A script of calls: each in its turn, until one fails.\<close>

fun attempt :: "(call \<Rightarrow> js_error option) \<Rightarrow> call list \<Rightarrow> call list \<Rightarrow> unit res \<times> call list" where
  "attempt fails [] trace = (Inr (), trace)"
| "attempt fails (c # cs) trace = (case fails c of
     None \<Rightarrow> attempt fails cs (trace @ [c])
   | Some e \<Rightarrow> (Inl e, trace @ [c]))"

text \<open>The first call that fails ends the script.\<close>

lemma attempt_find:
  "attempt fails cs trace = (case find (\<lambda>c. fails c \<noteq> None) cs of
     None \<Rightarrow> (Inr (), trace @ cs)
   | Some c \<Rightarrow> (Inl (the (fails c)), trace @ takeWhile (\<lambda>b. fails b = None) cs @ [c]))"
  by (induction cs arbitrary: trace) (auto split: option.splits)

lemma logged_bind:
  "iobind (logged fails c x) f trace = (case fails c of None \<Rightarrow> f x (trace @ [c]) | Some e \<Rightarrow> Some (Inl e, trace @ [c]))"
  by (simp add: iobind_def logged_def split: option.splits)

lemma logged_last: "logged fails c () trace = Some (attempt fails [c] trace)"
  by (simp add: logged_def split: option.splits)

lemma catch_attempt:
  "m trace = Some (attempt fails cs trace) \<Longrightarrow> iocatch m h trace = (case attempt fails cs trace of
     (Inl e, t) \<Rightarrow> h e t | (Inr u, t) \<Rightarrow> Some (Inr u, t))"
  by (simp add: iocatch_def split: prod.splits sum.splits)

text \<open>One more call in front of a script.\<close>

lemma bind_attempt:
  "(\<And>t. f x t = Some (attempt fails cs t)) \<Longrightarrow> iobind (logged fails c x) f trace = Some (attempt fails (c # cs) trace)"
  by (simp add: logged_bind split: option.splits)

named_theorems framework_simps \<open>the fields of the framework that keeps a trace\<close>

lemma log_framework_simps [framework_simps]:
  "initLogger (log_framework fails port height) d f l = logged fails InitLogger ()"
  "getValidPort (log_framework fails port height) p = logged fails (GetValidPort p) port"
  "create_app (log_framework fails port height) m debug = logged fails (CreateApp m debug) m"
  "app_init (log_framework fails port height) app = logged fails (InitApp app) ()"
  "get_service (log_framework fails port height) app token = logged fails (GetService token) token"
  "projectService_init (log_framework fails port height) s h = logged fails (InitProject h) ()"
  "startHeight (log_framework fails port height) s = logged fails ReadStartHeight height"
  "fetchService_init (log_framework fails port height) s h = logged fails (InitFetch h) ()"
  "enableShutdownHooks (log_framework fails port height) app = logged fails EnableShutdownHooks ()"
  "app_listen (log_framework fails port height) app n = logged fails (Listen n) ()"
  "initWorkerServices (log_framework fails port height) app s = logged fails (InitWorkerServices s) ()"
  "logError (log_framework fails port height) e = logged fails (LogError e) ()"
  "exitWithError (log_framework fails port height) m e = logged fails (ExitWithError m e) ()"
  "process_exit (log_framework fails port height) n = logged fails (ProcessExit n) ()"
  by (simp_all add: log_framework_def)

section \<open>Properties\<close>

definition boot_calls :: "argv \<Rightarrow> int \<Rightarrow> jsval \<Rightarrow> call list" where
  "boot_calls argv port height =
     [CreateApp ''AppModule'' (truthy (arg_debug argv)), InitApp ''AppModule'', GetService ''IProjectService'',
      GetService ''FetchService'', InitProject JUndef, ReadStartHeight, InitFetch height, EnableShutdownHooks, Listen port]"

lemma start_app_run:
  "start_app (log_framework fails port height) argv n trace = Some (attempt fails (boot_calls argv n height) trace)"
  unfolding start_app_def boot_calls_def framework_simps by (intro bind_attempt) (rule logged_last)

lemma bootstrap_run:
  "bootstrap (log_framework fails port height) argv trace =
     (case fails (GetValidPort (arg_port argv)) of
        Some e \<Rightarrow> Some (Inl e, trace @ [GetValidPort (arg_port argv)])
      | None \<Rightarrow> (case attempt fails (boot_calls argv port height) (trace @ [GetValidPort (arg_port argv)]) of
          (Inr u, t) \<Rightarrow> Some (Inr u, t)
        | (Inl e, t) \<Rightarrow> Some (attempt fails [ExitWithError ''Node failed to start'' e] t)))"
  unfolding bootstrap_def framework_simps logged_bind logged_last catch_attempt [OF start_app_run]
  by (rule refl)

definition worker_calls :: "argv \<Rightarrow> jsval \<Rightarrow> call list" where
  "worker_calls argv height =
     [CreateApp ''WorkerModule'' (truthy (arg_debug argv)), InitApp ''WorkerModule'', GetService ''IProjectService'',
      InitProject height, GetService ''WorkerService'', InitWorkerServices ''WorkerService'']"

lemma start_worker_run:
  "start_worker (log_framework fails port h) argv height trace = Some (attempt fails (worker_calls argv height) trace)"
  unfolding start_worker_def worker_calls_def framework_simps by (intro bind_attempt) (rule logged_last)

lemma initWorker_run:
  "initWorker (log_framework fails port h) argv height trace =
     (case attempt fails (worker_calls argv height) trace of
        (Inr u, t) \<Rightarrow> Some (Inr u, t)
      | (Inl e, t) \<Rightarrow> iobind (logged fails (LogError e) ()) (\<lambda>_. iothrow e) t)"
  unfolding initWorker_def framework_simps catch_attempt [OF start_worker_run] by (rule refl)

text \<open>Every token the configuration exports is one it provides.\<close>

lemma register_exports:
  assumes "register registerApp argv createProject s = Some (Inr m, s')"
  shows "set (exported m) = fst ` set (providers m)"
  using assms by (auto simp: register_def iobind_def ioret_def split: option.splits prod.splits sum.splits)

text \<open>
  C38. The node starts in its order, and so does a worker: a service is only used when it was made, the
  fetching of blocks only begins, at the start height of the project, when the project is initialised, and
  the port is only opened when everything before went well. The first failure ends the start: a node exits
  with that failure as the cause, a worker logs it and hands it on. Only a failure to find a port is not
  caught.
\<close>

theorem startup_calls:
  "bootstrap (log_framework fails port height) argv [] = Some (
     let p = GetValidPort (arg_port argv); calls = boot_calls argv port height in
     if fails p \<noteq> None then (Inl (the (fails p)), [p])
     else case find (\<lambda>c. fails c \<noteq> None) calls of
       None \<Rightarrow> (Inr (), p # calls)
     | Some c \<Rightarrow> (let ending = ExitWithError ''Node failed to start'' (the (fails c)) in
         (case fails ending of None \<Rightarrow> Inr () | Some e \<Rightarrow> Inl e,
          p # takeWhile (\<lambda>b. fails b = None) calls @ [c, ending])))
   \<and> initWorker (log_framework fails port height) argv h [] = Some (
     let calls = worker_calls argv h in
     case find (\<lambda>c. fails c \<noteq> None) calls of
       None \<Rightarrow> (Inr (), calls)
     | Some c \<Rightarrow> (let e = the (fails c) in
         (Inl (case fails (LogError e) of None \<Rightarrow> e | Some e' \<Rightarrow> e'),
          takeWhile (\<lambda>b. fails b = None) calls @ [c, LogError e])))"
  unfolding bootstrap_run initWorker_run attempt_find Let_def
  by (auto simp: logged_bind iothrow_def split: option.splits)

end
