(* ===== verification/Pipeline.thy ===== *)
theory Pipeline
  imports Services
begin

text \<open>
  A block on its way through the components: the worker fetches it, the indexer hands it and its
  transactions to the handlers of the project, and a handler asks the API of the block. node-core's
  \<open>indexData\<close> is relied on for what its documentation says of runtime datasources.
\<close>

section \<open>The handlers that run\<close>

text \<open>The handlers of a datasource that are for a kind of datum and whose filter lets the datum pass.\<close>

definition matching :: "(AlgorandHandlerKind \<Rightarrow> jsobj \<Rightarrow> jsval \<Rightarrow> bool res) \<Rightarrow> AlgorandHandlerKind \<Rightarrow> jsobj
    \<Rightarrow> AlgorandDataSource \<Rightarrow> string list" where
  "matching by_kind kind props ds = map h_handler (filter
     (\<lambda>h. h_kind h = handler_kind_value kind \<and> by_kind kind props (h_filter h) = Inr True) (m_handlers (ds_mapping ds)))"

type_synonym handler_log = "(string \<times> jsval) list"

text \<open>
  What node-core's \<open>indexData\<close> is relied on for, with handlers that succeed: a datum of a runtime
  datasource is given to its matching handlers in their order, when no filter throws. The trace says which
  handler ran on what. A handler may ask the client for more blocks; it does not write to a block.
\<close>

definition runs_handlers :: "(AlgorandHandlerKind \<Rightarrow> jsobj \<Rightarrow> jsval \<Rightarrow> bool res)
    \<Rightarrow> ('w AlgorandApi \<times> handler_log, 'vm) indexData \<Rightarrow> bool" where
  "runs_handlers by_kind indexData \<longleftrightarrow> (\<forall>kind data ds getVM s trace. isRuntimeDs ds \<longrightarrow>
     (\<forall>h \<in> set (m_handlers (ds_mapping ds)). h_kind h = handler_kind_value kind \<longrightarrow>
        \<not> isl (by_kind kind (own_props (heap s) data) (h_filter h))) \<longrightarrow>
     (\<exists>s' more_blocks. indexData kind data ds getVM (s, trace) = Some (Inr (), s',
          trace @ map (\<lambda>h. (h, data)) (matching by_kind kind (own_props (heap s) data) ds))
        \<and> heap s' = heap s @ more_blocks))"

text \<open>
  A loop whose every round adds to the trace: \<open>J\<close> holds throughout, \<open>ext\<close> is how a round changes the state,
  and \<open>R x l s\<close>, what is known of the part \<open>l\<close> the round of \<open>x\<close> added, stays known.
\<close>

lemma iofor_logs_of:
  assumes ext: "\<And>s. ext s s" "\<And>s t u. ext s t \<Longrightarrow> ext t u \<Longrightarrow> ext s u"
    and stable: "\<And>x l s s'. ext s s' \<Longrightarrow> R x l s \<Longrightarrow> R x l s'"
    and round: "\<And>x s trace. x \<in> set xs \<Longrightarrow> J s \<Longrightarrow>
      \<exists>s' l. body x (s, trace) = Some (Inr (), s', trace @ l) \<and> J s' \<and> ext s s' \<and> R x l s'"
    and "J s"
  shows "\<exists>s' ls. iofor xs body (s, trace) = Some (Inr (), s', trace @ concat ls) \<and> J s' \<and> ext s s'
     \<and> list_all2 (\<lambda>x l. R x l s') xs ls"
  using round \<open>J s\<close>
proof (induction xs arbitrary: s trace)
  case Nil
  then show ?case using ext(1) by (simp add: ioret_def)
next
  case (Cons x xs)
  obtain s1 l where s1: "body x (s, trace) = Some (Inr (), s1, trace @ l)" "J s1" "ext s s1" "R x l s1"
    using Cons.prems(1) [of x s trace] Cons.prems(2) by auto
  have "\<exists>s' ls. iofor xs body (s1, trace @ l) = Some (Inr (), s', (trace @ l) @ concat ls) \<and> J s' \<and> ext s1 s'
      \<and> list_all2 (\<lambda>x l. R x l s') xs ls"
    by (rule Cons.IH) (use Cons.prems(1) s1(2) in auto)
  then obtain s' ls where s': "iofor xs body (s1, trace @ l) = Some (Inr (), s', trace @ concat (l # ls))" "J s'" "ext s1 s'"
    "list_all2 (\<lambda>x l. R x l s') xs ls" by auto
  have "R x l s'" by (rule stable [OF s'(3) s1(4)])
  moreover have "ext s s'" by (rule ext(2) [OF s1(3) s'(3)])
  ultimately show ?case using s1(1) s' by (intro exI [of _ s'] exI [of _ "l # ls"]) (simp add: iobind_def)
qed

lemma iofor_logs:
  assumes "\<And>x s trace. x \<in> set xs \<Longrightarrow> J s \<Longrightarrow> \<exists>s'. body x (s, trace) = Some (Inr (), s', trace @ g x) \<and> J s'"
    and "J s"
  shows "\<exists>s'. iofor xs body (s, trace) = Some (Inr (), s', trace @ concat (map g xs)) \<and> J s'"
proof -
  have "\<exists>s' ls. iofor xs body (s, trace) = Some (Inr (), s', trace @ concat ls) \<and> J s' \<and> True
      \<and> list_all2 (\<lambda>x l. l = g x) xs ls"
    by (rule iofor_logs_of [where ext = "\<lambda>_ _. True" and R = "\<lambda>x l _. l = g x"]) (use assms in auto)
  moreover have "ls = map g xs" if "list_all2 (\<lambda>x l. l = g x) xs ls" for ls
    using that by (auto simp: list_all2_conv_all_nth intro: nth_equalityI)
  ultimately show ?thesis by blast
qed

text \<open>A round over the datasources with one datum, whose properties \<open>props\<close> no handler changes.\<close>

lemma dataSources_log:
  assumes "runs_handlers by_kind indexData" "\<forall>ds \<in> set dss. isRuntimeDs ds"
    and "\<forall>ds \<in> set dss. \<forall>h \<in> set (m_handlers (ds_mapping ds)). h_kind h = handler_kind_value kind \<longrightarrow>
      \<not> isl (by_kind kind props (h_filter h))"
    and "\<And>s. J s \<Longrightarrow> own_props (heap s) data = props"
    and "\<And>s s' more_blocks. J s \<Longrightarrow> heap s' = heap s @ more_blocks \<Longrightarrow> J s'" and "J s"
  shows "\<exists>s'. iofor dss (\<lambda>ds. indexData kind data ds getVM) (s, trace) = Some (Inr (), s',
      trace @ concat (map (\<lambda>ds. map (\<lambda>h. (h, data)) (matching by_kind kind props ds)) dss)) \<and> J s'"
proof (rule iofor_logs)
  fix ds t l assume ds: "ds \<in> set dss" and t: "J t"
  then have "\<exists>t' more_blocks. indexData kind data ds getVM (t, l) = Some (Inr (), t',
      l @ map (\<lambda>h. (h, data)) (matching by_kind kind (own_props (heap t) data) ds)) \<and> heap t' = heap t @ more_blocks"
    using assms(1-4) unfolding runs_handlers_def by blast
  then show "\<exists>t'. indexData kind data ds getVM (t, l) = Some (Inr (), t',
      l @ map (\<lambda>h. (h, data)) (matching by_kind kind props ds)) \<and> J t'"
    using assms(4,5) t by metis
qed (rule assms(6))

text \<open>What a block of the heap owes the handlers, with its transactions \<open>txs\<close>.\<close>

definition block_log :: "(AlgorandHandlerKind \<Rightarrow> jsobj \<Rightarrow> jsval \<Rightarrow> bool res) \<Rightarrow> jsobj \<Rightarrow> nat \<Rightarrow> jsval list
    \<Rightarrow> AlgorandDataSource list \<Rightarrow> handler_log" where
  "block_log by_kind props block txs dss =
     concat (map (\<lambda>ds. map (\<lambda>h. (h, JRef block)) (matching by_kind Block props ds)) dss)
     @ concat (map (\<lambda>tx. concat (map (\<lambda>ds. map (\<lambda>h. (h, tx)) (matching by_kind Transaction (own_props [] tx) ds)) dss)) txs)"

lemma indexBlockData_log:
  fixes indexData :: "('w AlgorandApi \<times> handler_log, 'vm) indexData"
  assumes runs: "runs_handlers (FilterTypeMap fbt TT lget) indexData" and ds: "\<forall>ds \<in> set dss. isRuntimeDs ds"
    and b: "b < length (heap s)" "obj_get (deref (heap s) b) ''transactions'' = JArr txs"
    and tx: "\<And>tx H. tx \<in> set txs \<Longrightarrow> own_props H tx = own_props [] tx"
    and total: "\<forall>tx \<in> set txs. \<forall>ds \<in> set dss. \<forall>h \<in> set (m_handlers (ds_mapping ds)).
      h_kind h = handler_kind_value Transaction \<longrightarrow> \<not> isl (filterTransaction TT lget (own_props [] tx) (h_filter h))"
  shows "\<exists>t. indexBlockData (heap \<circ> fst) indexData b dss getVM (s, trace) = Some (Inr (), t,
      trace @ block_log (FilterTypeMap fbt TT lget) (deref (heap s) b) b txs dss)"
proof -
  let ?by = "FilterTypeMap fbt TT lget" and ?B = "deref (heap s) b"
  let ?J = "\<lambda>t :: 'w AlgorandApi. b < length (heap t) \<and> deref (heap t) b = ?B"
  have more: "?J t'" if "?J t" "heap t' = heap t @ more_blocks" for t t' :: "'w AlgorandApi" and more_blocks
    using that b(1) by (auto simp: deref_def nth_append)
  have "\<exists>t. iofor dss (\<lambda>ds. indexData Block (JRef b) ds getVM) (s, trace) = Some (Inr (), t,
      trace @ concat (map (\<lambda>ds. map (\<lambda>h. (h, JRef b)) (matching ?by Block ?B ds)) dss)) \<and> ?J t"
    by (rule dataSources_log [where J = ?J, OF runs ds _ _ more]) (use b in \<open>simp_all add: FilterTypeMap_def\<close>)
  then obtain t where t: "indexBlockContent indexData b dss getVM (s, trace) = Some (Inr (), t,
      trace @ concat (map (\<lambda>ds. map (\<lambda>h. (h, JRef b)) (matching ?by Block ?B ds)) dss))" "?J t"
    unfolding indexBlockContent_def by auto
  have "\<exists>u. iofor txs (\<lambda>tx. indexBlockTransactionContent indexData tx dss getVM) (t, l) = Some (Inr (), u, l @ concat
      (map (\<lambda>tx. concat (map (\<lambda>ds. map (\<lambda>h. (h, tx)) (matching ?by Transaction (own_props [] tx) ds)) dss)) txs)) \<and> True" for l
  proof (rule iofor_logs)
    fix x v l assume x: "x \<in> set txs"
    have "\<exists>u. iofor dss (\<lambda>ds. indexData Transaction x ds getVM) (v, l) = Some (Inr (), u,
        l @ concat (map (\<lambda>ds. map (\<lambda>h. (h, x)) (matching ?by Transaction (own_props [] x) ds)) dss)) \<and> True"
      by (rule dataSources_log [where J = "\<lambda>_. True", OF runs ds _ tx [OF x]]) (use total x in \<open>simp_all add: FilterTypeMap_def\<close>)
    then show "\<exists>u. indexBlockTransactionContent indexData x dss getVM (v, l) = Some (Inr (), u,
        l @ concat (map (\<lambda>ds. map (\<lambda>h. (h, x)) (matching ?by Transaction (own_props [] x) ds)) dss)) \<and> True"
      by (simp add: indexBlockTransactionContent_def)
  qed simp
  then show ?thesis
    using t b(2) by (simp add: indexBlockData_def blockTransactions_def iobind_def js_default_def block_log_def append_assoc [symmetric]
      del: append_assoc)
qed

section \<open>From the chain to the handlers\<close>

text \<open>A filter without arrays never throws.\<close>

definition scalar_filter :: "jsval \<Rightarrow> bool" where
  "scalar_filter f \<longleftrightarrow> (case f of JObj fo \<Rightarrow> list_all (\<lambda>(k, v). case v of JArr _ \<Rightarrow> False | _ \<Rightarrow> True) fo | _ \<Rightarrow> \<not> truthy f)"

lemma keys_loop_scalar:
  "\<forall>(k, v) \<in> set es. \<forall>xs. v \<noteq> JArr xs \<Longrightarrow> \<not> isl (keys_loop TT lget txn es)"
proof (induction es)
  case (Cons e es)
  obtain k v where e: "e = (k, v)" by (cases e)
  have v: "txComparator v x = Inr (strict_eq v x)" for x
    using Cons.prems e by (cases v) auto
  show ?case
    using Cons by (auto simp: e v split: option.splits)
qed simp

lemma scalar_filter_total: "scalar_filter f \<Longrightarrow> \<not> isl (filterTransaction TT lget txn f)"
proof (cases f)
  case (JObj fo)
  assume f: "scalar_filter f"
  have "\<forall>(k, v) \<in> set (filter (\<lambda>(k, v). k \<noteq> ''txType'') (own_entries fo)). \<forall>xs. v \<noteq> JArr xs"
    using f JObj by (fastforce simp: scalar_filter_def list_all_iff set_own_entries_get split: jsval.splits dest: map_of_SomeD)
  from keys_loop_scalar [OF this] show ?thesis
    by (simp add: JObj filterTransaction_def Let_def)
qed (simp_all add: scalar_filter_def filterTransaction_def)

lemma own_props_chain_tx:
  "own_props H (tx_object [] r v) = own_props [] (tx_object [] r v)"
  by simp

text \<open>
  No filter of a transaction handler throws on one of the transactions \<open>txs\<close> of a block. A filter on
  arguments can throw on a transaction that has none; a filter without arrays never does.
\<close>

definition filters_quiet :: "(TransactionType \<Rightarrow> string) \<Rightarrow> lodash_get \<Rightarrow> (string \<Rightarrow> string) \<Rightarrow> jsval list
    \<Rightarrow> AlgorandDataSource list \<Rightarrow> bool" where
  "filters_quiet TT lget cc txs dss \<longleftrightarrow> (\<forall>tx \<in> set txs. \<forall>ds \<in> set dss. \<forall>h \<in> set (m_handlers (ds_mapping ds)).
     h_kind h = handler_kind_value Transaction \<longrightarrow>
       (\<forall>r. \<not> isl (filterTransaction TT lget (own_props [] (tx_object [] r (camel_tree cc tx))) (h_filter h))))"

lemma scalar_filters_quiet:
  "(\<And>ds h. ds \<in> set dss \<Longrightarrow> h \<in> set (m_handlers (ds_mapping ds)) \<Longrightarrow> h_kind h = handler_kind_value Transaction
      \<Longrightarrow> scalar_filter (h_filter h)) \<Longrightarrow> filters_quiet TT lget cc txs dss"
  unfolding filters_quiet_def using scalar_filter_total by blast

text \<open>One height: what the worker fetches, and what the indexer then logs.\<close>

lemma worker_height:
  assumes "serves d C lastRound" "0 \<le> n" "n < lastRound" "chain_ok d C s"
    and "runs_handlers (FilterTypeMap fbt TT lget) indexData" "\<forall>ds \<in> set dss. isRuntimeDs ds"
    and "filters_quiet TT lget (lodash_camelCase d) (txns_of C n) dss"
  shows "\<exists>b s' t. fetchChainBlock (fetchBlocks d) n s = Some (Inr (Some b), s')
     \<and> chain_ok d C s' \<and> extends d C s s' \<and> is_block d C s' (ib_block b) n
     \<and> toBlockResponse (deref (heap s') (ib_block b)) = chain_header C n
     \<and> indexBlockData (heap \<circ> fst) indexData (ib_block b) dss getVM (s', trace) = Some (Inr (), t, trace @
         block_log (FilterTypeMap fbt TT lget) (deref (heap s') (ib_block b)) (ib_block b)
           (map (\<lambda>tx. tx_object [] (ib_block b) (camel_tree (lodash_camelCase d) tx)) (txns_of C n)) dss)"
proof -
  from fetchBlocks_run [OF assms(1) _ assms(4), of "[n]"] assms(2,3) obtain b s' where
    run: "fetchBlocks d [n] s = Some (Inr [b], s')" "chain_ok d C s'" "extends d C s s'"
    and is_b: "is_block d C s' (ib_block b) n" and hdr: "getHeader (heap s') b = chain_header C n"
    by (auto simp: list_all2_Cons1)
  let ?txs = "map (\<lambda>tx. tx_object [] (ib_block b) (camel_tree (lodash_camelCase d) tx)) (txns_of C n)"
  have "\<exists>t. indexBlockData (heap \<circ> fst) indexData (ib_block b) dss getVM (s', trace) = Some (Inr (), t, trace @
      block_log (FilterTypeMap fbt TT lget) (deref (heap s') (ib_block b)) (ib_block b) ?txs dss)"
  proof (rule indexBlockData_log [OF assms(5,6)])
    show "own_props H tx = own_props [] tx" if "tx \<in> set ?txs" for tx H
      using that own_props_chain_tx by auto
    show "\<forall>tx \<in> set ?txs. \<forall>ds \<in> set dss. \<forall>h \<in> set (m_handlers (ds_mapping ds)).
        h_kind h = handler_kind_value Transaction \<longrightarrow> \<not> isl (filterTransaction TT lget (own_props [] tx) (h_filter h))"
      using assms(7) unfolding filters_quiet_def by auto
  qed (use is_b in \<open>auto simp: is_block_def block_of_def\<close>)
  with run is_b hdr show ?thesis
    by (auto simp: fetchChainBlock_def iobind_def ioret_def toBlockResponse_def getHeader_def)
qed

text \<open>
  C3. The whole way of a block of a chain the node serves, for a project of runtime datasources no
  transaction filter of which throws on a transaction of the round, with node-core's \<open>indexData\<close> as
  documented and handlers that succeed and write to no block: the worker of a height fetches its block,
  and the indexer runs, for every datasource of the project in order, the block handlers whose filter
  lets the block pass, and then, transaction by transaction in the order of the round, the transaction
  handlers whose filter lets it pass, on that transaction of that round with the keys renamed and the
  reference to its block. Nothing else is run, and nothing twice.
\<close>

theorem worker_runs_handlers:
  assumes "serves d C lastRound" "0 \<le> n" "n < lastRound" "chain_ok d C s"
    and "runs_handlers (FilterTypeMap fbt TT lget) indexData" "\<forall>ds \<in> set dss. isRuntimeDs ds"
    and "filters_quiet TT lget (lodash_camelCase d) (txns_of C n) dss"
  shows "\<exists>b s' t. fetchChainBlock (fetchBlocks d) n s = Some (Inr (Some b), s')
     \<and> toBlockResponse (deref (heap s') (ib_block b)) = chain_header C n
     \<and> indexBlockData (heap \<circ> fst) indexData (ib_block b) dss getVM (s', []) = Some (Inr (), t,
         block_log (FilterTypeMap fbt TT lget) (deref (heap s') (ib_block b)) (ib_block b)
           (map (\<lambda>tx. tx_object [] (ib_block b) (camel_tree (lodash_camelCase d) tx)) (txns_of C n)) dss)"
  using worker_height [OF assms, of getVM "[]"] by auto

text \<open>An \<open>indexData\<close> that runs the handlers, on the demonstration node.\<close>

definition demo_runner :: "(nat AlgorandApi \<times> handler_log, unit) indexData" where
  "demo_runner kind data ds getVM = (\<lambda>(s, trace). Some (Inr (), s,
     trace @ map (\<lambda>h. (h, data)) (matching (FilterTypeMap (\<lambda>_ _. True) algosdk_TT get_ref) kind (own_props (heap s) data) ds)))"

lemma demo_runner_runs: "runs_handlers (FilterTypeMap (\<lambda>_ _. True) algosdk_TT get_ref) demo_runner"
  by (simp add: runs_handlers_def demo_runner_def)

definition pay_ds :: AlgorandDataSource where
  "pay_ds = demo_ds\<lparr>ds_mapping := \<lparr>m_file = ''./dist/index.js'', m_handlers =
     [\<lparr>h_kind = handler_kind_value Block, h_handler = ''onNinth'', h_filter = JObj [(''modulo'', JNum 9)]\<rparr>,
      \<lparr>h_kind = handler_kind_value Transaction, h_handler = ''onPay'', h_filter = JObj [(''txType'', JStr ''pay'')]\<rparr>,
      \<lparr>h_kind = handler_kind_value Transaction, h_handler = ''onCall'', h_filter = JObj [(''txType'', JStr ''appl'')]\<rparr>]\<rparr>\<rparr>"

lemma pay_ds_matching:
  "obj_get props ''round'' = JNum 9 \<Longrightarrow>
     matching (FilterTypeMap (\<lambda>_ _. True) algosdk_TT get_ref) Block props pay_ds = [''onNinth'']"
  "obj_get props ''txType'' = JStr ''pay'' \<Longrightarrow>
     matching (FilterTypeMap (\<lambda>_ _. True) algosdk_TT get_ref) Transaction props pay_ds = [''onPay'']"
  by (simp_all add: matching_def pay_ds_def FilterTypeMap_def filterBlock_def filterBlockModulo_def filterTransaction_def js_mod_def trunc_mod_def
      own_entries_def Let_def)

lemma demo_tx_type: "obj_get (own_props [] (tx_object [] r (camel_tree camel_ref (demo_tx i)))) ''txType'' = JStr ''pay''"
proof -
  let ?ob = "[(''id'', JStr i), (''group'', JStr ''g1''), (''tx-type'', JStr ''pay'')]"
  have cc: "camel_ref ''id'' = ''id''" "camel_ref ''group'' = ''group''" "camel_ref ''tx-type'' = ''txType''" by code_simp+
  have "obj_get (put_all (map (\<lambda>(k, u). (camel_ref k, camel_tree camel_ref u)) (own_entries ?ob))) (camel_ref ''tx-type'')
      = camel_tree camel_ref (obj_get ?ob ''tx-type'')"
    by (rule obj_get_rename) (auto simp: cc)
  moreover have "obj_has (put_all (map (\<lambda>(k, u). (camel_ref k, camel_tree camel_ref u)) (own_entries ?ob))) ''txType''"
    unfolding obj_has_rename by (rule exI [of _ "''tx-type''"]) (simp add: cc)
  ultimately show ?thesis by (simp add: demo_tx_def cc)
qed

theorem worker_runs_handlers_witness:
  "\<exists>b s' t trace. fetchChainBlock (fetchBlocks demo_deps) 9 (new_AlgorandApi 0) = Some (Inr (Some b), s')
     \<and> indexBlockData (heap \<circ> fst) demo_runner (ib_block b) [pay_ds] (\<lambda>_. ()) (s', []) = Some (Inr (), t, trace)
     \<and> map fst trace = [''onNinth'', ''onPay'', ''onPay'']"
proof -
  have ds: "\<forall>ds \<in> set [pay_ds]. isRuntimeDs ds"
    "filters_quiet algosdk_TT get_ref (lodash_camelCase demo_deps) (txns_of demo_chain 9) [pay_ds]"
    by (simp add: pay_ds_def demo_ds_def isRuntimeDs_def)
      (rule scalar_filters_quiet, auto simp: pay_ds_def scalar_filter_def)
  have "chain_ok demo_deps demo_chain (new_AlgorandApi 0)" by (simp add: chain_ok_def new_AlgorandApi_def)
  from worker_runs_handlers [OF demo_serves _ _ this demo_runner_runs ds, of "\<lambda>_. ()"]
  obtain b s' t where run: "fetchChainBlock (fetchBlocks demo_deps) 9 (new_AlgorandApi 0) = Some (Inr (Some b), s')"
    "toBlockResponse (deref (heap s') (ib_block b)) = chain_header demo_chain 9"
    "indexBlockData (heap \<circ> fst) demo_runner (ib_block b) [pay_ds] (\<lambda>_. ()) (s', []) = Some (Inr (), t,
       block_log (FilterTypeMap (\<lambda>_ _. True) algosdk_TT get_ref) (deref (heap s') (ib_block b)) (ib_block b)
         (map (\<lambda>tx. tx_object [] (ib_block b) (camel_tree (lodash_camelCase demo_deps) tx)) (txns_of demo_chain 9)) [pay_ds])"
    by auto
  from run(2) have "obj_get (deref (heap s') (ib_block b)) ''round'' = JNum 9"
    by (simp add: toBlockResponse_def algorandBlockToHeader_def chain_header_def)
  note matched = pay_ds_matching(1) [OF this] pay_ds_matching(2) [OF demo_tx_type]
  have "map fst (block_log (FilterTypeMap (\<lambda>_ _. True) algosdk_TT get_ref) (deref (heap s') (ib_block b)) (ib_block b)
      (map (\<lambda>tx. tx_object [] (ib_block b) (camel_tree (lodash_camelCase demo_deps) tx)) (txns_of demo_chain 9)) [pay_ds])
      = [''onNinth'', ''onPay'', ''onPay'']"
    by (simp add: block_log_def demo_chain_def demo_deps_def matched del: camel_tree_simps own_props_tx_object)
  then show ?thesis by (intro exI conjI) (rule run(1), rule run(3))
qed

text \<open>
  C19. What a handler gets from the API of its block: asked for the block, it answers with a copy of the
  block the handler was given, of the same round, with the same parent hash, time and transactions, each
  referring to the copy. The copy is a new object, and it lacks the hash the block itself has, unless
  the indexer names a \<open>hash\<close> of its own: the API reads the block again and never looks its hash up.
\<close>

theorem handler_api_block:
  assumes "serves d C lastRound" "0 < n" "n < lastRound" "chain_ok d C s"
    and "\<forall>k. obj_has (chain C n) k \<longrightarrow> lodash_camelCase d k \<noteq> ''hash''"
  shows "\<exists>b s' r t. fetchChainBlock (fetchBlocks d) n s = Some (Inr (Some b), s')
     \<and> processFetchedBlock (\<lambda>block dataSources getApi. iobind getApi (safe_getBlock d)) heap b dss s' = Some (Inr r, t)
     \<and> r \<noteq> ib_block b \<and> block_of d C r n (deref (heap t) r)
     \<and> block_of d C (ib_block b) n (deref (heap t) (ib_block b))
     \<and> obj_get (deref (heap t) (ib_block b)) ''hash'' = JStr (hash_of C n)
     \<and> obj_get (deref (heap t) r) ''hash'' = JUndef"
proof -
  from fetchBlocks_run [OF assms(1) _ assms(4), of "[n]"] assms(2,3) obtain b s' where
    run: "fetchBlocks d [n] s = Some (Inr [b], s')" and is_b: "is_block d C s' (ib_block b) n"
    and hdr: "getHeader (heap s') b = chain_header C n" by (auto simp: list_all2_Cons1)
  let ?r = "length (heap s')"
  let ?t = "s'\<lparr>heap := heap s' @ [chain_block d C ?r n], world := snd (lookupBlock_do d (JNum n) (world s'))\<rparr>"
  have n: "0 \<le> n" "n \<le> lastRound" using assms(2,3) by simp_all
  have ok: "reply_ok d C n" using assms(1) n by (simp add: serves_def)
  have "getApi heap (ib_block b) s' = Some (Inr (getSafeApi (JNum n)), s')"
    using is_b by (simp add: getApi_def is_block_def block_of_def)
  with safe_getBlock_run [OF assms(1) n, of s'] assms(2)
  have "processFetchedBlock (\<lambda>block dataSources getApi. iobind getApi (safe_getBlock d)) heap b dss s' = Some (Inr ?r, ?t)"
    by (simp add: processFetchedBlock_def indexBlock_def iobind_def)
  moreover have "obj_get (chain_block d C ?r n) ''hash'' = JUndef"
    using ok assms(5) by (simp add: chain_block_def block_object_get reply_ok_def Let_def obj_get_absent obj_has_rename)
  moreover have "obj_get (deref (heap s') (ib_block b)) ''hash'' = JStr (hash_of C n)"
    using hdr by (simp add: getHeader_def algorandBlockToHeader_def chain_header_def)
  moreover have "deref (heap ?t) ?r = chain_block d C ?r n" "deref (heap ?t) (ib_block b) = deref (heap s') (ib_block b)"
    using is_b by (simp_all add: deref_def nth_append is_block_def)
  ultimately show ?thesis
    using run is_b chain_block_of [OF ok, of ?r]
    by (intro exI [of _ b] exI [of _ s'] exI [of _ ?r] exI [of _ ?t])
      (auto simp: fetchChainBlock_def iobind_def ioret_def is_block_def)
qed

theorem handler_api_block_witness:
  "\<exists>b s' r t. fetchChainBlock (fetchBlocks demo_deps) 9 (new_AlgorandApi 0) = Some (Inr (Some b), s')
     \<and> processFetchedBlock (\<lambda>block dataSources getApi. iobind getApi (safe_getBlock demo_deps)) heap b [] s' = Some (Inr r, t)
     \<and> obj_get (deref (heap t) (ib_block b)) ''hash'' = JStr (demo_hash 9)
     \<and> obj_get (deref (heap t) r) ''hash'' = JUndef"
proof -
  have "chain_ok demo_deps demo_chain (new_AlgorandApi 0)" by (simp add: chain_ok_def new_AlgorandApi_def)
  moreover have "\<forall>k. obj_has (chain demo_chain 9) k \<longrightarrow> lodash_camelCase demo_deps k \<noteq> ''hash''"
    by (auto simp: demo_chain_def demo_block_def demo_deps_def)
  ultimately show ?thesis
    using handler_api_block [OF demo_serves, of 9 "new_AlgorandApi 0" "[]"] by (auto simp: demo_chain_def)
qed

end
