(* ===== verification/Skipping.thy ===== *)
theory Skipping
  imports Pipeline Dictionary
begin

text \<open>
  Indexing with a dictionary: a node that fetches only the rounds the dictionary lists for the project's
  queries, and those a block handler's modulo asks for, runs the handlers it would have run on every round.
\<close>

section \<open>A transaction with and without its block\<close>

text \<open>
  A path of a filter that leads to a property, or to a property of an object that may be missing; a
  transaction whose type the mapping knows and whose paths are such.
\<close>

definition plain_path :: "jsobj \<Rightarrow> string \<Rightarrow> bool" where
  "plain_path ob p = (let j = takeWhile (\<lambda>c. c \<noteq> CHR ''.'') p in
     path_key j \<and> j \<notin> {''block'', ''toJSON''} \<and> (case dropWhile (\<lambda>c. c \<noteq> CHR ''.'') p of
       [] \<Rightarrow> True
     | _ # k \<Rightarrow> path_key k \<and> \<not> obj_has ob p \<and> (case obj_get ob j of JUndef \<Rightarrow> True | JObj _ \<Rightarrow> True | _ \<Rightarrow> False)))"

definition known_tx :: "(TransactionType \<Rightarrow> string) \<Rightarrow> jsval \<Rightarrow> bool" where
  "known_tx TT v \<longleftrightarrow> (case v of
     JObj ob \<Rightarrow> (\<exists>ty. obj_get ob ''txType'' = JStr (TT ty) \<and> (\<forall>(key, p) \<in> set (filter_paths ty). plain_path ob p))
   | _ \<Rightarrow> False)"

lemma lget_plain_path:
  assumes get: "lodash_get_contract lget" and p: "plain_path ob p"
    and same: "\<And>k. k \<notin> {''block'', ''toJSON''} \<Longrightarrow> obj_get ob' k = obj_get ob k"
      "\<And>k. k \<notin> {''block'', ''toJSON''} \<Longrightarrow> obj_has ob' k = obj_has ob k"
  shows "lget ob' (Some p) = lget ob (Some p)"
proof -
  let ?j = "takeWhile (\<lambda>c. c \<noteq> CHR ''.'') p"
  have j: "path_key ?j" "?j \<notin> {''block'', ''toJSON''}" using p by (auto simp: plain_path_def Let_def)
  show ?thesis
  proof (cases "dropWhile (\<lambda>c. c \<noteq> CHR ''.'') p")
    case Nil
    then have "?j = p" by (metis takeWhile_dropWhile_id append_Nil2)
    with j same(1) get show ?thesis by (simp add: lodash_get_contract_def)
  next
    case (Cons c k)
    then have "c = CHR ''.''" by (metis (mono_tags, lifting) dropWhile_eq_Cons_conv)
    with Cons have eq: "p = ?j @ CHR ''.'' # k" by (metis takeWhile_dropWhile_id)
    with p Cons have k: "path_key k" "\<not> obj_has ob p" and obj: "obj_get ob ?j = JUndef \<or> (\<exists>ps. obj_get ob ?j = JObj ps)"
      by (auto simp: plain_path_def Let_def split: jsval.splits)
    have "CHR ''.'' \<in> set p" by (subst eq) simp
    then have "p \<notin> {''block'', ''toJSON''}" by auto
    then have no: "\<not> obj_has ob' p" using same(2) k(2) by blast
    have "lget o1 (Some p) = obj_get (own_props [] (obj_get o1 ?j)) k"
      if "\<not> obj_has o1 p" "obj_get o1 ?j = JUndef \<or> (\<exists>ps. obj_get o1 ?j = JObj ps)" for o1
      using get j(1) k(1) that eq unfolding lodash_get_contract_def by metis
    with no k(2) obj same(1) [OF j(2)] show ?thesis by simp
  qed
qed

lemma tx_object_get:
  "k \<notin> {''block'', ''toJSON''} \<Longrightarrow> obj_get (own_props [] (tx_object [] r (JObj ob))) k = obj_get ob k"
  "k \<notin> {''block'', ''toJSON''} \<Longrightarrow> obj_has (own_props [] (tx_object [] r (JObj ob))) k = obj_has ob k"
  by (auto simp: obj_get_absent)

lemma meets_tx_object:
  assumes get: "lodash_get_contract lget" and TT: "inj TT" and tx: "known_tx TT v"
  shows "meets TT lget (own_props [] (tx_object [] r v)) e \<longleftrightarrow> meets TT lget (own_props [] v) e"
proof -
  from tx obtain ob ty where v: "v = JObj ob" and ty: "obj_get ob ''txType'' = JStr (TT ty)"
    and paths: "\<forall>(key, p) \<in> set (filter_paths ty). plain_path ob p" by (auto simp: known_tx_def split: jsval.splits)
  let ?ob = "own_props [] (tx_object [] r v)"
  note same = tx_object_get [of _ r ob, folded v]
  have "lget ?ob (literal_get (filter_paths ty) key) = lget ob (literal_get (filter_paths ty) key)" for key
  proof (cases "literal_get (filter_paths ty) key")
    case None
    then show ?thesis using get same(1) [of "''undefined''"] by (simp add: lodash_get_contract_def)
  next
    case (Some p)
    then have "(key, p) \<in> set (filter_paths ty)" by (auto simp: literal_get_def dest: map_of_SomeD)
    with paths have "plain_path ob p" by blast
    from lget_plain_path [OF get this same] Some show ?thesis by simp
  qed
  moreover have "obj_get ?ob ''txType'' = JStr (TT ty)" using same(1) [of "''txType''"] ty by simp
  ultimately show ?thesis using ty TT by (simp add: meets_def field_value_def mapping_known v del: own_props_tx_object)
qed

section \<open>What every round is owed\<close>

text \<open>The trace of a round whose block has the address \<open>r\<close>.\<close>

definition round_log :: "(AlgorandHandlerKind \<Rightarrow> jsobj \<Rightarrow> jsval \<Rightarrow> bool res) \<Rightarrow> 'w deps \<Rightarrow> chain_spec
    \<Rightarrow> AlgorandDataSource list \<Rightarrow> int \<Rightarrow> nat \<Rightarrow> handler_log" where
  "round_log by_kind d C dss n r = block_log by_kind (chain_block d C r n) r
     (map (\<lambda>tx. tx_object [] r (camel_tree (lodash_camelCase d) tx)) (txns_of C n)) dss"

lemma matching_block_of:
  assumes "block_of d C r n b" "block_of d C r n b'"
  shows "matching (FilterTypeMap fbt TT lget) Block b ds = matching (FilterTypeMap fbt TT lget) Block b' ds"
  using assms by (simp add: matching_def FilterTypeMap_def filterBlock_def filterBlockModulo_def block_of_def)

text \<open>
  A project that gives the dictionary something to go by. The filters of its transaction handlers
  name a type or none, and the modulus of a block handler, where it has one, is positive.
\<close>

definition dictionary_project :: "AlgorandDataSource list \<Rightarrow> bool" where
  "dictionary_project dss \<longleftrightarrow> runtime_project dss \<and> (\<forall>ds \<in> set dss. \<forall>h \<in> set (m_handlers (ds_mapping ds)).
     (let f = own_props [] (h_filter h) in
     (h_kind h = handler_kind_value Transaction \<longrightarrow>
        obj_get f ''txType'' = JUndef \<or> truthy (obj_get f ''txType'')) \<and>
     (h_kind h = handler_kind_value Block \<longrightarrow>
        (case obj_get f ''modulo'' of JUndef \<Rightarrow> True | JNum m \<Rightarrow> 0 < m | _ \<Rightarrow> False))))"

lemma dictionary_projectD:
  assumes "dictionary_project dss" "ds \<in> set dss" "h \<in> set (m_handlers (ds_mapping ds))"
  shows "h_kind h = handler_kind_value Transaction \<Longrightarrow>
      obj_get (own_props [] (h_filter h)) ''txType'' = JUndef \<or> truthy (obj_get (own_props [] (h_filter h)) ''txType'')"
    and "h_kind h = handler_kind_value Block \<Longrightarrow> obj_get (own_props [] (h_filter h)) ''modulo'' \<noteq> JUndef \<Longrightarrow>
      \<exists>m. obj_get (own_props [] (h_filter h)) ''modulo'' = JNum m \<and> 0 < m"
  using assms(1) [unfolded dictionary_project_def Let_def, THEN conjunct2, THEN bspec, OF assms(2), THEN bspec, OF assms(3)]
  by (auto split: jsval.splits)

text \<open>
  The rounds of a range that the queries \<open>q\<close> make node-core fetch, as its documentation says: every round when
  there is no query, else those with a transaction one of the queries asks for and those the modulus of a
  block handler divides. It may fetch others of the range as well, and takes them in ascending order.
\<close>

definition worth_fetching :: "(TransactionType \<Rightarrow> string) \<Rightarrow> lodash_get \<Rightarrow> (string \<Rightarrow> string) \<Rightarrow> jsval list
    \<Rightarrow> AlgorandDataSource list \<Rightarrow> DictionaryQueryEntry list \<Rightarrow> int \<Rightarrow> bool" where
  "worth_fetching TT lget cc txns dss q n \<longleftrightarrow> q = []
     \<or> (\<exists>tx \<in> set txns. \<exists>e \<in> set q. meets TT lget (own_props [] (camel_tree cc tx)) e)
     \<or> (\<exists>ds \<in> set dss. \<exists>h \<in> set (m_handlers (ds_mapping ds)). h_kind h = handler_kind_value Block
          \<and> (case obj_get (own_props [] (h_filter h)) ''modulo'' of JNum m \<Rightarrow> m dvd n | _ \<Rightarrow> False))"

definition scheduled :: "(TransactionType \<Rightarrow> string) \<Rightarrow> lodash_get \<Rightarrow> 'w deps \<Rightarrow> chain_spec
    \<Rightarrow> AlgorandDataSource list \<Rightarrow> DictionaryQueryEntry list \<Rightarrow> int \<Rightarrow> int \<Rightarrow> int list \<Rightarrow> bool" where
  "scheduled TT lget d C dss q a b ns \<longleftrightarrow> sorted_wrt (<) ns \<and> set ns \<subseteq> {a..b}
     \<and> (\<forall>n \<in> {a..b}. worth_fetching TT lget (lodash_camelCase d) (txns_of C n) dss q n \<longrightarrow> n \<in> set ns)"

text \<open>A round none of the queries asks for is owed nothing.\<close>

lemma skipped_round:
  assumes get: "lodash_get_contract lget" and TT: "inj TT" and lo: "sortBy_ok lo" "uniqBy_ok lo" "3 \<le> stack"
    and P: "dictionary_project dss" and q: "buildDictionaryV1QueryEntries lo stack dss gp = Inr q"
    and ok: "reply_ok d C n" and txs: "\<forall>tx \<in> set (txns_of C n). known_tx TT (camel_tree (lodash_camelCase d) tx)"
    and w: "\<not> worth_fetching TT lget (lodash_camelCase d) (txns_of C n) dss q n"
  shows "round_log (FilterTypeMap fbt TT lget) d C dss n r = []"
proof -
  let ?by = "FilterTypeMap fbt TT lget"
  from P have run: "runtime_project dss" by (simp add: dictionary_project_def)
  from w have ne: "q \<noteq> []" by (simp add: worth_fetching_def)
  have "matching ?by Block (chain_block d C r n) ds = []" if ds: "ds \<in> set dss" for ds
  proof -
    have "?by Block (chain_block d C r n) (h_filter h) \<noteq> Inr True"
      if h: "h \<in> set (m_handlers (ds_mapping ds))" and kind: "h_kind h = handler_kind_value Block" for h
    proof -
      from dictionary_needs_filters [OF run q ne ds h] kind have t: "truthy (h_filter h)"
        "obj_get (own_props [] (h_filter h)) ''modulo'' \<noteq> JUndef" by auto
      from dictionary_projectD(2) [OF P ds h kind t(2)] obtain m
        where m: "obj_get (own_props [] (h_filter h)) ''modulo'' = JNum m" "0 < m" by blast
      from w [unfolded worth_fetching_def] ds h kind
      have "\<not> (case obj_get (own_props [] (h_filter h)) ''modulo'' of JNum m \<Rightarrow> m dvd n | _ \<Rightarrow> False)" by blast
      with m(1) have "\<not> m dvd n" by simp
      moreover have "obj_get (chain_block d C r n) ''round'' = JNum n"
        using chain_block_of [OF ok, of r] by (simp add: block_of_def)
      ultimately have "\<not> filterBlockModulo (chain_block d C r n) (h_filter h)"
        using m by (auto simp: filterBlockModulo_def js_mod_def trunc_mod_0_iff)
      with t(1) show ?thesis by (simp add: FilterTypeMap_def filterBlock_def)
    qed
    then show ?thesis by (auto simp: matching_def filter_empty_conv)
  qed
  moreover have "matching ?by Transaction (own_props [] (tx_object [] r (camel_tree (lodash_camelCase d) tx))) ds = []"
    if ds: "ds \<in> set dss" and tx: "tx \<in> set (txns_of C n)" for ds tx
  proof -
    let ?v = "camel_tree (lodash_camelCase d) tx"
    let ?txn = "own_props [] (tx_object [] r ?v)"
    from txs tx have known: "known_tx TT ?v" by blast
    then obtain ob ty where v: "?v = JObj ob" "obj_get ob ''txType'' = JStr (TT ty)"
      by (auto simp: known_tx_def split: jsval.splits)
    have ty: "literal_get (mappingFilterTransaction TT) (js_to_string (obj_get ?txn ''txType'')) = Some (filter_paths ty)"
      using tx_object_get(1) [of "''txType''" r ob] v TT by (simp add: mapping_known del: own_props_tx_object)
    have "filterTransaction TT lget ?txn (h_filter h) \<noteq> Inr True"
      if h: "h \<in> set (m_handlers (ds_mapping ds))" and kind: "h_kind h = handler_kind_value Transaction" for h
    proof
      assume f: "filterTransaction TT lget ?txn (h_filter h) = Inr True"
      from query_for_handler [OF lo run q ne ds h kind f ty dictionary_projectD(1) [OF P ds h kind]] meets_tx_object [OF get TT known]
      have "\<exists>e \<in> set q. meets TT lget (own_props [] ?v) e" by blast
      with w tx show False by (auto simp: worth_fetching_def)
    qed
    then show ?thesis by (auto simp: matching_def filter_empty_conv FilterTypeMap_def)
  qed
  ultimately show ?thesis by (simp add: round_log_def block_log_def)
qed

section \<open>Round after round\<close>

text \<open>A worker's rounds: each height is fetched, then indexed, before the next.\<close>

definition on_client :: "('w AlgorandApi, 'a) io \<Rightarrow> ('w AlgorandApi \<times> handler_log, 'a) io" where
  "on_client m = (\<lambda>(s, trace). map_option (\<lambda>(r, s'). (r, s', trace)) (m s))"

definition index_round :: "'w deps \<Rightarrow> ('w AlgorandApi \<times> handler_log, 'vm) indexData \<Rightarrow> AlgorandDataSource list
    \<Rightarrow> (AlgorandDataSource \<Rightarrow> 'vm) \<Rightarrow> int \<Rightarrow> ('w AlgorandApi \<times> handler_log, unit) io" where
  "index_round d indexData dss getVM n = iobind (on_client (fetchChainBlock (fetchBlocks d) n)) (\<lambda>block. case block of
     None \<Rightarrow> ioret ()
   | Some b \<Rightarrow> indexBlockData (heap \<circ> fst) indexData (ib_block b) dss getVM)"

text \<open>Handlers may ask the client for more blocks; they do not write to blocks or to the client's cache.\<close>

definition handlers_read :: "('w AlgorandApi \<times> handler_log, 'vm) indexData \<Rightarrow> bool" where
  "handlers_read indexData \<longleftrightarrow> (\<forall>kind data ds getVM s trace r s' trace'.
     indexData kind data ds getVM (s, trace) = Some (r, s', trace') \<longrightarrow>
       blockCache s' = blockCache s \<and> (\<exists>more_blocks. heap s' = heap s @ more_blocks))"

lemma indexBlockData_reads:
  assumes "handlers_read indexData" "indexBlockData heap_of indexData b dss getVM (s, trace) = Some (r, t, trace')"
  shows "blockCache t = blockCache s \<and> (\<exists>more_blocks. heap t = heap s @ more_blocks)"
proof -
  let ?I = "\<lambda>(t, trace :: handler_log). blockCache t = blockCache s \<and> (\<exists>more_blocks. heap t = heap s @ more_blocks)"
  have call: "keeps ?I (indexData kind data ds getVM)" for kind data ds
  proof (rule keepsI)
    fix p r p' assume "?I p" "indexData kind data ds getVM p = Some (r, p')"
    then show "?I p'" using assms(1) unfolding handlers_read_def by (cases p; cases p') fastforce
  qed
  have "keeps ?I (blockTransactions heap_of b)" by (rule keepsI) (auto simp: blockTransactions_def)
  with call have "keeps ?I (indexBlockData heap_of indexData b dss getVM)"
    unfolding indexBlockData_def indexBlockContent_def indexBlockTransactionContent_def
    by (intro keeps_bind keeps_iofor)
  from keepsD [OF this _ assms(2)] show ?thesis by simp
qed

lemma index_round_log:
  assumes S: "serves d C lastRound" and n: "0 \<le> n" "n < lastRound" and s: "chain_ok d C s"
    and run: "runs_handlers (FilterTypeMap fbt TT lget) indexData" "handlers_read indexData"
    and P: "runtime_project dss" and Q: "filters_quiet TT lget (lodash_camelCase d) (txns_of C n) dss"
  shows "\<exists>t r. index_round d indexData dss getVM n (s, trace) = Some (Inr (), t, trace @ round_log (FilterTypeMap fbt TT lget) d C dss n r)
     \<and> chain_ok d C t \<and> extends d C s t \<and> is_block d C t r n"
proof -
  from P have "\<forall>ds \<in> set dss. isRuntimeDs ds" by (simp add: runtime_project_def)
  then obtain b s' t where b: "fetchChainBlock (fetchBlocks d) n s = Some (Inr (Some b), s')" "chain_ok d C s'"
      "extends d C s s'" "is_block d C s' (ib_block b) n"
    and t: "indexBlockData (heap \<circ> fst) indexData (ib_block b) dss getVM (s', trace) = Some (Inr (), t, trace @
      block_log (FilterTypeMap fbt TT lget) (deref (heap s') (ib_block b)) (ib_block b)
        (map (\<lambda>tx. tx_object [] (ib_block b) (camel_tree (lodash_camelCase d) tx)) (txns_of C n)) dss)"
    using worker_height [OF S n s run(1) _ Q, of getVM trace] by blast
  have "block_of d C (ib_block b) n (deref (heap s') (ib_block b))" using b(4) by (simp add: is_block_def)
  moreover have "block_of d C (ib_block b) n (chain_block d C (ib_block b) n)"
    using S n by (simp add: serves_def chain_block_of)
  ultimately have "matching (FilterTypeMap fbt TT lget) Block (deref (heap s') (ib_block b)) ds
      = matching (FilterTypeMap fbt TT lget) Block (chain_block d C (ib_block b) n) ds" for ds
    by (rule matching_block_of)
  then have "block_log (FilterTypeMap fbt TT lget) (deref (heap s') (ib_block b)) (ib_block b)
        (map (\<lambda>tx. tx_object [] (ib_block b) (camel_tree (lodash_camelCase d) tx)) (txns_of C n)) dss
      = round_log (FilterTypeMap fbt TT lget) d C dss n (ib_block b)"
    unfolding round_log_def block_log_def by simp
  with b(1) t have "index_round d indexData dss getVM n (s, trace)
      = Some (Inr (), t, trace @ round_log (FilterTypeMap fbt TT lget) d C dss n (ib_block b))"
    by (simp add: index_round_def on_client_def iobind_def)
  moreover have frame: "blockCache t = blockCache s'" "\<exists>more_blocks. heap t = heap s' @ more_blocks"
    using indexBlockData_reads [OF run(2) t] by blast+
  have ext: "extends d C s' t" using frame(2) extends_append by blast
  moreover have "chain_ok d C t" by (rule chain_ok_cong [OF ext b(2)]) (simp add: frame(1))
  moreover have "extends d C s t" by (rule round.ext_trans [OF s b(3) ext])
  moreover have "is_block d C t (ib_block b) n" using ext b(4) by (simp add: extends_def)
  ultimately show ?thesis by blast
qed

lemma concat_map_skip: "(\<And>x. x \<in> set xs \<Longrightarrow> \<not> P x \<Longrightarrow> f x = []) \<Longrightarrow> concat (map f (filter P xs)) = concat (map f xs)"
  by (induction xs) simp_all

lemma ascending_filter:
  assumes "sorted_wrt (<) ns" "set ns \<subseteq> {a..b :: int}"
  shows "ns = filter (\<lambda>n. n \<in> set ns) [a..b]"
proof (rule sorted_distinct_set_unique)
  show "set ns = set (filter (\<lambda>n. n \<in> set ns) [a..b])" using assms(2) by auto
qed (use assms(1) in \<open>simp_all add: strict_sorted_iff sorted_filter [where f = id, simplified]\<close>)

lemma list_all2_choose:
  "list_all2 (\<lambda>x y. \<exists>r. P x r \<and> y = g x r) xs ys \<Longrightarrow> distinct xs \<Longrightarrow>
     \<exists>c. ys = map (\<lambda>x. g x (c x)) xs \<and> (\<forall>x \<in> set xs. P x (c x))"
proof (induction rule: list_all2_induct)
  case (Cons x xs y ys)
  then obtain c r where c: "ys = map (\<lambda>x. g x (c x)) xs" "\<forall>x \<in> set xs. P x (c x)" "P x r" "y = g x r" by auto
  with Cons.prems show ?case by (intro exI [of _ "c(x := r)"]) auto
qed simp

text \<open>Any rounds of the chain, one after another.\<close>

lemma rounds_run:
  assumes "serves d C lastRound" "chain_ok d C s" "distinct ns" "\<And>n. n \<in> set ns \<Longrightarrow> 0 \<le> n \<and> n < lastRound"
    and "runs_handlers (FilterTypeMap fbt TT lget) indexData" "handlers_read indexData" "runtime_project dss"
    and "\<And>n. n \<in> set ns \<Longrightarrow> filters_quiet TT lget (lodash_camelCase d) (txns_of C n) dss"
  shows "\<exists>t block_at. iofor ns (index_round d indexData dss getVM) (s, [])
       = Some (Inr (), t, concat (map (\<lambda>n. round_log (FilterTypeMap fbt TT lget) d C dss n (block_at n)) ns))
     \<and> (\<forall>n \<in> set ns. is_block d C t (block_at n) n)"
proof -
  let ?log = "round_log (FilterTypeMap fbt TT lget) d C dss"
  let ?J = "\<lambda>s :: 'a AlgorandApi. chain_ok d C s" and ?R = "\<lambda>n l t. \<exists>r. is_block d C t r n \<and> l = ?log n r"
  have "\<exists>t ls. iofor ns (index_round d indexData dss getVM) (s, []) = Some (Inr (), t, [] @ concat ls) \<and> ?J t
      \<and> extends d C s t \<and> list_all2 (\<lambda>n l. ?R n l t) ns ls"
  proof (rule iofor_logs_of)
    show "extends d C s s" "extends d C s t \<Longrightarrow> extends d C t u \<Longrightarrow> extends d C s u" for s t u :: "'a AlgorandApi"
      by (auto simp: extends_def)
    show "extends d C s t \<Longrightarrow> ?R n l s \<Longrightarrow> ?R n l t" for n l and s t :: "'a AlgorandApi"
      unfolding extends_def by blast
    fix n s trace assume n: "n \<in> set ns" and s: "?J s"
    from assms(4) [OF n] have "0 \<le> n" "n < lastRound" by auto
    from index_round_log [OF assms(1) this s assms(5-7) assms(8) [OF n], of getVM trace]
    show "\<exists>t l. index_round d indexData dss getVM n (s, trace) = Some (Inr (), t, trace @ l) \<and> ?J t \<and> extends d C s t \<and> ?R n l t"
      by blast
  qed (rule assms(2))
  then obtain t ls where run: "iofor ns (index_round d indexData dss getVM) (s, []) = Some (Inr (), t, concat ls)"
    and ls: "list_all2 (\<lambda>n l. ?R n l t) ns ls" by auto
  from list_all2_choose [where P = "\<lambda>n r. is_block d C t r n" and g = ?log, OF ls assms(3)] run show ?thesis by blast
qed

section \<open>Property\<close>

text \<open>
  C4. A dictionary hides nothing from the handlers. Take a chain the node serves whose transactions are of the
  types the mapping knows, and a project of runtime datasources with plain filters (scalars but for the
  arguments) that throw on none of them, name a type or none, and have a positive modulus or none; let the handlers succeed, write to
  no block and leave the client's cache alone, and let the dictionary's rounds be complete for the project's queries (\<open>scheduled\<close>). Then a
  worker that takes only the scheduled rounds ends, as one that takes every round of the range does, and both
  have run the same handlers: those that are owed by all the rounds of the range, in the order of the rounds
  and each on what it is owed, and none besides. The addresses of the blocks are all that may differ.
\<close>

theorem dictionary_skips_nothing:
  assumes "serves d C lastRound" "0 \<le> a" "b < lastRound" "chain_ok d C s"
    and "lodash_get_contract lget" "inj TT" "sortBy_ok lo" "uniqBy_ok lo" "3 \<le> stack"
    and "runs_handlers (FilterTypeMap fbt TT lget) indexData" "handlers_read indexData"
    and "dictionary_project dss" "buildDictionaryV1QueryEntries lo stack dss gp = Inr q"
    and "\<forall>n \<in> {a..b}. \<forall>tx \<in> set (txns_of C n). known_tx TT (camel_tree (lodash_camelCase d) tx)"
    and "\<forall>n \<in> {a..b}. filters_quiet TT lget (lodash_camelCase d) (txns_of C n) dss"
    and "scheduled TT lget d C dss q a b ns"
  shows "\<exists>t block_at u block_at'. iofor ns (index_round d indexData dss getVM) (s, [])
       = Some (Inr (), t, concat (map (\<lambda>n. round_log (FilterTypeMap fbt TT lget) d C dss n (block_at n)) [a..b]))
     \<and> (\<forall>n \<in> set ns. is_block d C t (block_at n) n)
     \<and> iofor [a..b] (index_round d indexData dss getVM) (s, [])
       = Some (Inr (), u, concat (map (\<lambda>n. round_log (FilterTypeMap fbt TT lget) d C dss n (block_at' n)) [a..b]))
     \<and> (\<forall>n \<in> {a..b}. is_block d C u (block_at' n) n)"
proof -
  let ?log = "round_log (FilterTypeMap fbt TT lget) d C dss" and ?run = "\<lambda>ns. iofor ns (index_round d indexData dss getVM) (s, [])"
  from assms(16) have ns: "sorted_wrt (<) ns" "set ns \<subseteq> {a..b}" by (simp_all add: scheduled_def)
  then have "distinct ns" by (simp add: strict_sorted_iff)
  have P: "runtime_project dss" using assms(12) by (simp add: dictionary_project_def)
  have run: "\<exists>t c. ?run ms = Some (Inr (), t, concat (map (\<lambda>n. ?log n (c n)) ms)) \<and> (\<forall>n \<in> set ms. is_block d C t (c n) n)"
    if "distinct ms" "set ms \<subseteq> {a..b}" for ms
    by (rule rounds_run [OF assms(1,4) that(1) _ assms(10,11) P]) (use assms(2,3,15) that(2) in auto)
  from run [OF \<open>distinct ns\<close> ns(2)] obtain t c where t: "?run ns = Some (Inr (), t, concat (map (\<lambda>n. ?log n (c n)) ns))"
    "\<forall>n \<in> set ns. is_block d C t (c n) n" by blast
  from run [of "[a..b]"] obtain u c' where u: "?run [a..b] = Some (Inr (), u, concat (map (\<lambda>n. ?log n (c' n)) [a..b]))"
    "\<forall>n \<in> {a..b}. is_block d C u (c' n) n" by auto
  have "?log n (c n) = []" if "n \<in> set [a..b]" "n \<notin> set ns" for n
  proof (rule skipped_round [OF assms(5-9,12,13)])
    show "reply_ok d C n" using assms(1-3) that(1) by (simp add: serves_def)
    show "\<not> worth_fetching TT lget (lodash_camelCase d) (txns_of C n) dss q n"
      using assms(16) that by (auto simp: scheduled_def)
  qed (use assms(14) that(1) in auto)
  then have skip: "concat (map (\<lambda>n. ?log n (c n)) (filter (\<lambda>n. n \<in> set ns) [a..b])) = concat (map (\<lambda>n. ?log n (c n)) [a..b])"
    by (rule concat_map_skip)
  have "concat (map (\<lambda>n. ?log n (c n)) ns) = concat (map (\<lambda>n. ?log n (c n)) [a..b])"
    by (subst ascending_filter [OF ns]) (rule skip)
  from t(1) [unfolded this] have "?run ns = Some (Inr (), t, concat (map (\<lambda>n. ?log n (c n)) [a..b]))" .
  from this t(2) u show ?thesis by (intro exI conjI)
qed

text \<open>A project that wants application calls, which the demonstration chain has none of, and each ninth block.\<close>

definition rare_ds :: AlgorandDataSource where
  "rare_ds = demo_ds\<lparr>ds_mapping := \<lparr>m_file = ''./dist/index.js'', m_handlers =
     [\<lparr>h_kind = handler_kind_value Block, h_handler = ''onNinth'', h_filter = JObj [(''modulo'', JNum 9)]\<rparr>,
      \<lparr>h_kind = handler_kind_value Transaction, h_handler = ''onCall'', h_filter = JObj [(''txType'', JStr ''appl'')]\<rparr>]\<rparr>\<rparr>"

abbreviation rare_query :: DictionaryQueryEntry where
  "rare_query \<equiv> entry_of (JObj [(''txType'', JStr ''appl'')])"

lemma rare_project: "dictionary_project [rare_ds]"
  by (simp add: dictionary_project_def runtime_project_def rare_ds_def demo_ds_def isRuntimeDs_def plain_filter_def)

lemma rare_build: "buildDictionaryV1QueryEntries lodash_ref 20 [rare_ds] no_processor = Inr [rare_query]"
proof -
  have "\<not> isCustomDs rare_ds" "isRuntimeDs rare_ds"
    by (simp_all add: isCustomDs_def isRuntimeDs_def rare_ds_def demo_ds_def)
  then have es: "dataSources_entries [rare_ds] no_processor = Inr (Some [rare_query])"
    by (simp add: dataSources_entries_def handler_entries_def getBaseHandlerKind_def isBaseHandler_def
        handler_kind_values_list handler_filterList_def Let_def) (simp add: rare_ds_def)
  have "runtime_project [rare_ds]" using rare_project by (simp add: dictionary_project_def)
  from plain_entries_scalar [OF runtime_plain [OF this] es, of rare_query] obtain k where "entry_key lodash_ref 20 rare_query = Inr k"
    using entry_key_text(1) [OF lodash_ref_ok(1), of 20 rare_query] by auto
  with es show ?thesis by (simp add: buildDictionaryV1QueryEntries_def lodash_ref_def)
qed

lemma demo_tx_renamed:
  "camel_tree camel_ref (demo_tx i) = JObj [(''id'', JStr i), (''group'', JStr ''g1''), (''txType'', JStr ''pay'')]"
proof -
  have cc: "camel_ref ''id'' = ''id''" "camel_ref ''group'' = ''group''" "camel_ref ''tx-type'' = ''txType''" by code_simp+
  show ?thesis
    by (simp add: demo_tx_def cc put_all_def obj_put_def spread_into_def own_entries_def is_index_def is_digit_def)
qed

lemma demo_known: "known_tx algosdk_TT (camel_tree camel_ref (demo_tx i))"
  unfolding demo_tx_renamed known_tx_def
  by (simp, rule exI [of _ Pay]) (simp add: algosdk_TT_def plain_path_def path_key_def)

lemma rare_scheduled: "scheduled algosdk_TT get_ref demo_deps demo_chain [rare_ds] [rare_query] 5 12 [9]"
proof -
  have "\<not> meets algosdk_TT get_ref (own_props [] (camel_tree camel_ref (demo_tx i))) rare_query" for i
    unfolding demo_tx_renamed by (simp add: meets_def field_value_def entry_of_def conditions_of_def own_entries_def is_index_def is_digit_def)
  then have "worth_fetching algosdk_TT get_ref camel_ref (txns_of demo_chain n) [rare_ds] [rare_query] n \<longleftrightarrow> 9 dvd n" for n
    by (simp add: worth_fetching_def demo_chain_def) (simp add: rare_ds_def)
  then show ?thesis by (auto simp: scheduled_def)
qed

lemma rare_log:
  assumes "0 \<le> n" "n \<le> 100"
  shows "map fst (round_log (FilterTypeMap (\<lambda>_ _. True) algosdk_TT get_ref) demo_deps demo_chain [rare_ds] n r)
    = (if 9 dvd n then [''onNinth''] else [])"
proof -
  have "reply_ok demo_deps demo_chain n" using demo_serves assms by (simp add: serves_def)
  from chain_block_of [OF this, of r] have "obj_get (chain_block demo_deps demo_chain r n) ''round'' = JNum n"
    by (simp add: block_of_def)
  then have "matching (FilterTypeMap (\<lambda>_ _. True) algosdk_TT get_ref) Block (chain_block demo_deps demo_chain r n) rare_ds
      = (if 9 dvd n then [''onNinth''] else [])"
    by (simp add: matching_def rare_ds_def FilterTypeMap_def filterBlock_def filterBlockModulo_def js_mod_def trunc_mod_0_iff)
  moreover have "matching (FilterTypeMap (\<lambda>_ _. True) algosdk_TT get_ref) Transaction
      (own_props [] (tx_object [] r (camel_tree camel_ref (demo_tx i)))) rare_ds = []" for i
    unfolding demo_tx_renamed
    by (simp add: matching_def rare_ds_def FilterTypeMap_def filterTransaction_def own_entries_def Let_def)
  ultimately show ?thesis
    by (simp add: round_log_def block_log_def demo_chain_def demo_deps_def del: camel_tree_simps own_props_tx_object)
qed

theorem dictionary_skips_nothing_witness:
  "\<exists>t trace. iofor [9] (index_round demo_deps demo_runner [rare_ds] (\<lambda>_. ())) (new_AlgorandApi 0, [])
       = Some (Inr (), t, trace) \<and> map fst trace = [''onNinth'']"
proof -
  have "chain_ok demo_deps demo_chain (new_AlgorandApi 0)" by (simp add: chain_ok_def new_AlgorandApi_def)
  moreover have "handlers_read demo_runner" by (simp add: handlers_read_def demo_runner_def)
  moreover have "\<forall>n \<in> {5..12}. \<forall>tx \<in> set (txns_of demo_chain n). known_tx algosdk_TT (camel_tree (lodash_camelCase demo_deps) tx)"
    using demo_known by (simp add: demo_chain_def demo_deps_def del: camel_tree_simps)
  moreover have "\<forall>n \<in> {5..12}. filters_quiet algosdk_TT get_ref (lodash_camelCase demo_deps) (txns_of demo_chain n) [rare_ds]"
    by (intro ballI scalar_filters_quiet) (auto simp: rare_ds_def scalar_filter_def)
  ultimately obtain t block_at where
    "iofor [9] (index_round demo_deps demo_runner [rare_ds] (\<lambda>_. ())) (new_AlgorandApi 0, [])
       = Some (Inr (), t, concat (map (\<lambda>n. round_log (FilterTypeMap (\<lambda>_ _. True) algosdk_TT get_ref) demo_deps demo_chain
           [rare_ds] n (block_at n)) [5..12]))"
    using dictionary_skips_nothing [OF demo_serves _ _ _ get_ref_contract inj_algosdk_TT lodash_ref_ok _
        demo_runner_runs _ rare_project rare_build _ _ rare_scheduled, of "new_AlgorandApi 0" "\<lambda>_. ()"] by auto
  moreover have "concat (map (\<lambda>n. if 9 dvd n then [''onNinth''] else []) [5..12]) = [''onNinth'']" by (simp add: upto_rec1)
  ultimately show ?thesis
    by (auto simp: map_concat comp_def rare_log cong: map_cong)
qed

end
