(* ===== verification/NestModules.thy ===== *)
theory NestModules
  imports Prelude
begin

text \<open>
  The NestJS modules of the programs: \<^verbatim>\<open>app.module.ts\<close>, \<^verbatim>\<open>indexer/*.module.ts\<close>,
  \<^verbatim>\<open>indexer/worker/*.module.ts\<close> and \<^verbatim>\<open>subcommands/*.module.ts\<close> of
  \<^verbatim>\<open>packages/node/src\<close>. A module lists what it imports, provides and exports; a program starts
  only when everything its providers ask for is in sight. The modules and classes of the libraries are
  parameters: \<open>lib\<close> says of a module of a library whether it is global and what it exports, \<open>asks\<close> what
  the constructor of a class of a library asks for.
\<close>

section \<open>Tokens and providers\<close>

text \<open>A provider is known by a text, by a class of this repository or by a class of a library.\<close>

datatype token = Named string | Own string | Lib string

datatype implementation = UseClass token | UseFactory string "token list" | UseValue string

record provider =
  p_token :: token
  p_impl :: implementation

abbreviation class_provider :: "token \<Rightarrow> provider" where
  "class_provider c \<equiv> \<lparr>p_token = c, p_impl = UseClass c\<rparr>"

text \<open>What the constructors of this repository ask for; those of the libraries are a parameter.\<close>

definition BlockchainService_needs :: "token list" where
  "BlockchainService_needs = [Named ''APIService'']"

definition IndexerManager_needs :: "token list" where
  "IndexerManager_needs = [Named ''APIService'', Lib ''NodeConfig'', Lib ''SandboxService'', Lib ''DsProcessorService'',
     Lib ''DynamicDsService'', Named ''IUnfinalizedBlocksService'', Named ''IBlockchainService'']"

definition WorkerService_needs :: "token list" where
  "WorkerService_needs = [Named ''APIService'', Own ''IndexerManager'', Named ''IProjectService'',
     Named ''IProjectUpgradeService'', Lib ''NodeConfig'']"

definition AlgorandDictionaryService_needs :: "token list" where
  "AlgorandDictionaryService_needs = [Named ''ISubqueryProject'', Lib ''NodeConfig'', Lib ''EventEmitter2'', Lib ''DsProcessorService'']"

definition ForceCleanService_needs :: "token list" where
  "ForceCleanService_needs = [Lib ''Sequelize'', Lib ''NodeConfig'', Named ''ISubqueryProject'']"

definition constructor_needs :: "(string \<times> token list) list" where
  "constructor_needs = [(''BlockchainService'', BlockchainService_needs), (''IndexerManager'', IndexerManager_needs),
     (''WorkerService'', WorkerService_needs), (''AlgorandDictionaryService'', AlgorandDictionaryService_needs),
     (''ForceCleanService'', ForceCleanService_needs)]"

type_synonym constructors = "string \<Rightarrow> token list"

fun needs :: "constructors \<Rightarrow> implementation \<Rightarrow> token list" where
  "needs asks (UseClass (Own c)) = (case map_of constructor_needs c of None \<Rightarrow> [] | Some ts \<Rightarrow> ts)"
| "needs asks (UseClass (Lib c)) = asks c"
| "needs asks (UseClass (Named s)) = []"
| "needs asks (UseFactory f ts) = ts"
| "needs asks (UseValue v) = []"

section \<open>The modules\<close>

datatype nest_module =
    LibModule string
  | OwnModule string (own_imports: "nest_module list") (own_providers: "provider list") (own_exports: "token list") bool

definition api_provider :: provider where
  "api_provider = \<lparr>p_token = Named ''APIService'', p_impl = UseFactory ''AlgorandApiService.init''
     [Named ''ISubqueryProject'', Lib ''ConnectionPoolService'', Lib ''EventEmitter2'']\<rparr>"

definition ConfigureModule :: nest_module where
  "ConfigureModule = OwnModule ''ConfigureModule'' [] [
       \<lparr>p_token = Lib ''NodeConfig'', p_impl = UseValue ''nodeConfig''\<rparr>,
       \<lparr>p_token = Named ''ISubqueryProject'', p_impl = UseValue ''project''\<rparr>,
       \<lparr>p_token = Named ''IProjectUpgradeService'', p_impl = UseValue ''project''\<rparr>,
       \<lparr>p_token = Named ''Null'', p_impl = UseValue ''null''\<rparr>]
     [Lib ''NodeConfig'', Named ''ISubqueryProject'', Named ''IProjectUpgradeService'', Named ''Null''] True"

definition FetchModule :: nest_module where
  "FetchModule = OwnModule ''FetchModule'' [LibModule ''CoreModule''] [
       api_provider,
       \<lparr>p_token = Named ''IBlockchainService'', p_impl = UseClass (Own ''BlockchainService'')\<rparr>,
       class_provider (Lib ''DsProcessorService''),
       class_provider (Lib ''DynamicDsService''),
       \<lparr>p_token = Named ''IUnfinalizedBlocksService'', p_impl = UseClass (Lib ''UnfinalizedBlocksService'')\<rparr>,
       \<lparr>p_token = Named ''IProjectService'', p_impl = UseClass (Lib ''ProjectService'')\<rparr>,
       class_provider (Lib ''MultiChainRewindService''),
       class_provider (Own ''IndexerManager''),
       \<lparr>p_token = Named ''IBlockDispatcher'', p_impl = UseFactory ''blockDispatcherFactory''
         [Lib ''NodeConfig'', Lib ''EventEmitter2'', Named ''IProjectService'', Named ''IProjectUpgradeService'',
          Lib ''InMemoryCacheService'', Lib ''StoreService'', Named ''IStoreModelProvider'', Lib ''PoiSyncService'',
          Named ''ISubqueryProject'', Lib ''DynamicDsService'', Named ''IUnfinalizedBlocksService'',
          Lib ''ConnectionPoolStateManager'', Named ''IBlockchainService'', Own ''IndexerManager'',
          Lib ''MultiChainRewindService'', Lib ''MonitorService'']\<rparr>,
       class_provider (Lib ''FetchService''),
       \<lparr>p_token = Lib ''DictionaryService'', p_impl = UseClass (Own ''AlgorandDictionaryService'')\<rparr>] [] False"

definition AppModule :: nest_module where
  "AppModule = OwnModule ''AppModule'' [LibModule ''DbModule'', LibModule ''EventEmitterModule'', ConfigureModule,
     LibModule ''ScheduleModule'', LibModule ''CoreModule'', FetchModule, LibModule ''MetaModule''] [] [] False"

definition WorkerFetchModule :: nest_module where
  "WorkerFetchModule = OwnModule ''WorkerFetchModule'' [LibModule ''WorkerCoreModule''] [
       class_provider (Lib ''DsProcessorService''),
       class_provider (Own ''IndexerManager''),
       api_provider,
       \<lparr>p_token = Named ''IProjectService'', p_impl = UseClass (Lib ''ProjectService'')\<rparr>,
       \<lparr>p_token = Named ''IBlockchainService'', p_impl = UseClass (Own ''BlockchainService'')\<rparr>,
       class_provider (Own ''WorkerService'')] [] False"

definition WorkerModule :: nest_module where
  "WorkerModule = OwnModule ''WorkerModule'' [LibModule ''EventEmitterModule'', ConfigureModule,
     LibModule ''ScheduleModule'', LibModule ''WorkerCoreModule'', WorkerFetchModule] [] [] False"

definition ForceCleanModule :: nest_module where
  "ForceCleanModule = OwnModule ''ForceCleanModule'' [LibModule ''DbModule'', ConfigureModule,
     LibModule ''ForceCleanFeatureModule''] [] [] False"

definition ReindexFeatureModule :: nest_module where
  "ReindexFeatureModule = OwnModule ''ReindexFeatureModule'' [] [
       \<lparr>p_token = Named ''IStoreModelProvider'', p_impl = UseFactory ''storeModelFactory''
         [Lib ''NodeConfig'', Lib ''EventEmitter2'', Lib ''Sequelize'']\<rparr>,
       class_provider (Lib ''StoreService''),
       class_provider (Lib ''ReindexService''),
       class_provider (Lib ''PoiService''),
       class_provider (Lib ''ForceCleanService''),
       \<lparr>p_token = Named ''UnfinalizedBlocksService'', p_impl = UseClass (Lib ''UnfinalizedBlocksService'')\<rparr>,
       \<lparr>p_token = Named ''DynamicDsService'', p_impl = UseClass (Lib ''DynamicDsService'')\<rparr>,
       class_provider (Lib ''DsProcessorService''),
       class_provider (Lib ''ConnectionPoolStateManager''),
       class_provider (Lib ''ConnectionPoolService''),
       api_provider,
       \<lparr>p_token = Named ''IBlockchainService'', p_impl = UseClass (Own ''BlockchainService'')\<rparr>,
       class_provider (Lib ''MultiChainRewindService''),
       class_provider (Lib ''SchedulerRegistry'')] [] False"

definition ReindexModule :: nest_module where
  "ReindexModule = OwnModule ''ReindexModule'' [LibModule ''DbModule'', ConfigureModule, ReindexFeatureModule,
     LibModule ''EventEmitterModule''] [] [] False"

definition TestingFeatureModule :: nest_module where
  "TestingFeatureModule = OwnModule ''TestingFeatureModule'' [LibModule ''TestingCoreModule''] [
       \<lparr>p_token = Named ''IProjectService'', p_impl = UseClass (Lib ''ProjectService'')\<rparr>,
       api_provider,
       \<lparr>p_token = Named ''IUnfinalizedBlocksService'', p_impl = UseClass (Lib ''UnfinalizedBlocksService'')\<rparr>,
       \<lparr>p_token = Named ''IBlockchainService'', p_impl = UseClass (Own ''BlockchainService'')\<rparr>,
       class_provider (Lib ''TestRunner''),
       \<lparr>p_token = Named ''IIndexerManager'', p_impl = UseClass (Own ''IndexerManager'')\<rparr>,
       class_provider (Lib ''DsProcessorService''),
       class_provider (Lib ''DynamicDsService'')] [Lib ''TestRunner''] False"

definition TestingModule :: nest_module where
  "TestingModule = OwnModule ''TestingModule'' [LibModule ''DbModule'', ConfigureModule, LibModule ''EventEmitterModule'',
     LibModule ''ScheduleModule'', TestingFeatureModule] [] [] False"

section \<open>What a program asks of the libraries\<close>

type_synonym library = "string \<Rightarrow> bool \<times> token list"

fun modules_of :: "nest_module \<Rightarrow> nest_module list" where
  "modules_of (LibModule n) = [LibModule n]"
| "modules_of (OwnModule n ms ps es g) = OwnModule n ms ps es g # concat (map modules_of ms)"

fun imports_of :: "nest_module \<Rightarrow> nest_module list" where
  "imports_of (LibModule n) = []"
| "imports_of (OwnModule n ms ps es g) = ms"

fun providers_of :: "nest_module \<Rightarrow> provider list" where
  "providers_of (LibModule n) = []"
| "providers_of (OwnModule n ms ps es g) = ps"

fun exports_of :: "library \<Rightarrow> nest_module \<Rightarrow> token list" where
  "exports_of lib (LibModule n) = snd (lib n)"
| "exports_of lib (OwnModule n ms ps es g) = es"

fun is_global :: "library \<Rightarrow> nest_module \<Rightarrow> bool" where
  "is_global lib (LibModule n) = fst (lib n)"
| "is_global lib (OwnModule n ms ps es g) = g"

text \<open>
  As NestJS documents it, a provider sees the providers of its own module, what the imported modules
  export, and what the global modules of the program export.
\<close>

definition in_sight :: "nest_module \<Rightarrow> nest_module \<Rightarrow> library \<Rightarrow> nest_module list" where
  "in_sight root m lib = imports_of m @ filter (is_global lib) (modules_of root)"

definition visible :: "library \<Rightarrow> nest_module \<Rightarrow> nest_module \<Rightarrow> token list" where
  "visible lib root m = map p_token (providers_of m) @ concat (map (exports_of lib) (in_sight root m lib))"

definition asked :: "constructors \<Rightarrow> nest_module \<Rightarrow> token list" where
  "asked asks m = concat (map (\<lambda>p. needs asks (p_impl p)) (providers_of m))"

definition missing :: "constructors \<Rightarrow> library \<Rightarrow> nest_module \<Rightarrow> nest_module \<Rightarrow> token list" where
  "missing asks lib root m = filter (\<lambda>t. t \<notin> set (visible lib root m)) (remdups (asked asks m))"

text \<open>Every provider of a module of this repository gets what it asks for.\<close>

definition resolves :: "constructors \<Rightarrow> library \<Rightarrow> nest_module \<Rightarrow> bool" where
  "resolves asks lib root \<longleftrightarrow> list_all (\<lambda>m. missing asks lib root m = []) (modules_of root)"

text \<open>
  What the modules of this repository leave open by their own constructors and factories, the classes of the
  libraries they build, and what the libraries answer to a module.
\<close>

definition no_constructor :: constructors where
  "no_constructor c = []"

fun library_class :: "implementation \<Rightarrow> string list" where
  "library_class (UseClass (Lib c)) = [c]"
| "library_class i = []"

definition library_classes :: "nest_module \<Rightarrow> string list" where
  "library_classes m = concat (map (\<lambda>p. library_class (p_impl p)) (providers_of m))"

definition no_library :: library where
  "no_library n = (False, [])"

definition from_library :: "library \<Rightarrow> nest_module \<Rightarrow> nest_module \<Rightarrow> token set" where
  "from_library lib root m = {t. \<exists>n. (LibModule n \<in> set (imports_of m) \<or> LibModule n \<in> set (modules_of root) \<and> fst (lib n))
     \<and> t \<in> set (snd (lib n))}"

lemma visible_split: "set (visible lib root m) = set (visible no_library root m) \<union> from_library lib root m"
proof -
  have "t \<in> set (visible lib root m) \<longleftrightarrow> t \<in> set (visible no_library root m) \<or> t \<in> from_library lib root m" for t
  proof -
    have own: "(\<exists>x \<in> set ms. P x \<and> t \<in> set (exports_of lib x)) \<longleftrightarrow>
        (\<exists>n ms' ps es g. OwnModule n ms' ps es g \<in> set ms \<and> P (OwnModule n ms' ps es g) \<and> t \<in> set es)
        \<or> (\<exists>n. LibModule n \<in> set ms \<and> P (LibModule n) \<and> t \<in> set (snd (lib n)))" for lib :: library and ms P
      by (metis exports_of.simps nest_module.exhaust)
    show ?thesis
      using own [of "imports_of m" "\<lambda>_. True" lib] own [of "modules_of root" "is_global lib" lib]
        own [of "imports_of m" "\<lambda>_. True" no_library] own [of "modules_of root" "is_global no_library" no_library]
      by (auto simp: visible_def in_sight_def from_library_def no_library_def)
  qed
  then show ?thesis by blast
qed

lemma needs_split: "set (needs asks i) = set (needs no_constructor i) \<union> (\<Union>c \<in> set (library_class i). set (asks c))"
  by (induction asks i rule: needs.induct) (simp_all add: no_constructor_def split: option.splits)

lemma asked_split: "set (asked asks m) = set (asked no_constructor m) \<union> (\<Union>c \<in> set (library_classes m). set (asks c))"
  using needs_split [of asks] by (auto simp: asked_def library_classes_def)

lemma missing_library: "missing asks lib root m = [] \<longleftrightarrow>
    set (missing no_constructor no_library root m) \<subseteq> from_library lib root m
    \<and> (\<forall>c \<in> set (library_classes m). set (asks c) \<subseteq> set (visible no_library root m) \<union> from_library lib root m)"
proof -
  have "missing asks lib root m = [] \<longleftrightarrow> set (asked asks m) \<subseteq> set (visible no_library root m) \<union> from_library lib root m"
    by (auto simp: missing_def visible_split [of lib] filter_empty_conv)
  also have "\<dots> \<longleftrightarrow> set (asked no_constructor m) \<subseteq> set (visible no_library root m) \<union> from_library lib root m
      \<and> (\<forall>c \<in> set (library_classes m). set (asks c) \<subseteq> set (visible no_library root m) \<union> from_library lib root m)"
    by (simp only: asked_split [of asks] Un_subset_iff UN_subset_iff)
  also have "set (asked no_constructor m) \<subseteq> set (visible no_library root m) \<union> from_library lib root m
      \<longleftrightarrow> set (missing no_constructor no_library root m) \<subseteq> from_library lib root m"
    by (auto simp: missing_def)
  finally show ?thesis .
qed

text \<open>Only the modules with providers that ask for something matter.\<close>

lemma missing_none: "asked asks m = [] \<Longrightarrow> missing asks lib root m = []"
  by (simp add: missing_def)

lemma asked_nothing [simp]:
  "asked asks (LibModule n) = []" "asked asks ConfigureModule = []" "asked asks AppModule = []" "asked asks WorkerModule = []"
  "asked asks ReindexModule = []" "asked asks TestingModule = []" "asked asks ForceCleanModule = []"
  by (simp_all add: asked_def ConfigureModule_def AppModule_def WorkerModule_def ReindexModule_def TestingModule_def
      ForceCleanModule_def)

lemma own_module: "modules_of (OwnModule n ms ps es g) = OwnModule n ms ps es g # concat (map modules_of ms)"
  by (rule modules_of.simps)

lemma modules_of_features [simp]:
  "modules_of ConfigureModule = [ConfigureModule]" "modules_of FetchModule = [FetchModule, LibModule ''CoreModule'']"
  "modules_of WorkerFetchModule = [WorkerFetchModule, LibModule ''WorkerCoreModule'']"
  "modules_of ReindexFeatureModule = [ReindexFeatureModule]"
  "modules_of TestingFeatureModule = [TestingFeatureModule, LibModule ''TestingCoreModule'']"
  unfolding ConfigureModule_def FetchModule_def WorkerFetchModule_def ReindexFeatureModule_def TestingFeatureModule_def
    own_module by (simp_all only: modules_of.simps list.map concat.simps append_Nil append_Cons)

lemma modules_of_programs:
  "modules_of AppModule = AppModule # concat (map modules_of (imports_of AppModule))"
  "modules_of WorkerModule = WorkerModule # concat (map modules_of (imports_of WorkerModule))"
  "modules_of ReindexModule = ReindexModule # concat (map modules_of (imports_of ReindexModule))"
  "modules_of TestingModule = TestingModule # concat (map modules_of (imports_of TestingModule))"
  "modules_of ForceCleanModule = ForceCleanModule # concat (map modules_of (imports_of ForceCleanModule))"
  unfolding AppModule_def WorkerModule_def ReindexModule_def TestingModule_def ForceCleanModule_def
  by (simp_all only: modules_of.simps imports_of.simps)

lemma imports_of_programs:
  "imports_of AppModule = [LibModule ''DbModule'', LibModule ''EventEmitterModule'', ConfigureModule,
     LibModule ''ScheduleModule'', LibModule ''CoreModule'', FetchModule, LibModule ''MetaModule'']"
  "imports_of WorkerModule = [LibModule ''EventEmitterModule'', ConfigureModule, LibModule ''ScheduleModule'',
     LibModule ''WorkerCoreModule'', WorkerFetchModule]"
  "imports_of ReindexModule = [LibModule ''DbModule'', ConfigureModule, ReindexFeatureModule, LibModule ''EventEmitterModule'']"
  "imports_of TestingModule = [LibModule ''DbModule'', ConfigureModule, LibModule ''EventEmitterModule'',
     LibModule ''ScheduleModule'', TestingFeatureModule]"
  "imports_of ForceCleanModule = [LibModule ''DbModule'', ConfigureModule, LibModule ''ForceCleanFeatureModule'']"
  by (simp_all add: AppModule_def WorkerModule_def ReindexModule_def TestingModule_def ForceCleanModule_def)

lemma resolves_feature:
  "resolves asks lib AppModule \<longleftrightarrow> missing asks lib AppModule FetchModule = []"
  "resolves asks lib WorkerModule \<longleftrightarrow> missing asks lib WorkerModule WorkerFetchModule = []"
  "resolves asks lib ReindexModule \<longleftrightarrow> missing asks lib ReindexModule ReindexFeatureModule = []"
  "resolves asks lib TestingModule \<longleftrightarrow> missing asks lib TestingModule TestingFeatureModule = []"
  "resolves asks lib ForceCleanModule"
  unfolding resolves_def modules_of_programs imports_of_programs
  by (simp_all add: missing_none)

text \<open>
  Of each program: what its own code leaves open, the classes of the libraries it builds, and the tokens the
  modules of this repository show to the module of its providers.
\<close>

definition app_open :: "token list" where
  "app_open = [Lib ''SandboxService'', Lib ''InMemoryCacheService'',
     Lib ''StoreService'', Named ''IStoreModelProvider'', Lib ''PoiSyncService'', Lib ''ConnectionPoolStateManager'', Lib ''MonitorService'',
     Lib ''ConnectionPoolService'', Lib ''EventEmitter2'']"

definition app_builds :: "string list" where
  "app_builds = [''DsProcessorService'', ''DynamicDsService'', ''UnfinalizedBlocksService'', ''ProjectService'',
     ''MultiChainRewindService'', ''FetchService'']"

text \<open>The module of the configuration is global: its tokens are shown to every module of a program.\<close>

definition configured :: "token list" where
  "configured = [Lib ''NodeConfig'', Named ''ISubqueryProject'', Named ''IProjectUpgradeService'', Named ''Null'']"

definition app_shown :: "token list" where
  "app_shown = configured @ [Named ''APIService'', Named ''IBlockchainService'', Lib ''DsProcessorService'', Lib ''DynamicDsService'',
     Named ''IUnfinalizedBlocksService'', Named ''IProjectService'', Lib ''MultiChainRewindService'', Own ''IndexerManager'',
     Named ''IBlockDispatcher'', Lib ''FetchService'', Lib ''DictionaryService'']"

definition worker_open :: "token list" where
  "worker_open = [Lib ''SandboxService'', Lib ''DynamicDsService'', Named ''IUnfinalizedBlocksService'',
     Lib ''ConnectionPoolService'', Lib ''EventEmitter2'']"

definition worker_builds :: "string list" where
  "worker_builds = [''DsProcessorService'', ''ProjectService'']"

definition worker_shown :: "token list" where
  "worker_shown = configured @ [Lib ''DsProcessorService'', Own ''IndexerManager'', Named ''APIService'', Named ''IProjectService'',
     Named ''IBlockchainService'', Own ''WorkerService'']"

definition testing_open :: "token list" where
  "testing_open = [Lib ''ConnectionPoolService'', Lib ''EventEmitter2'', Lib ''SandboxService'']"

definition testing_builds :: "string list" where
  "testing_builds = [''ProjectService'', ''UnfinalizedBlocksService'', ''TestRunner'', ''DsProcessorService'', ''DynamicDsService'']"

definition testing_shown :: "token list" where
  "testing_shown = configured @ [Named ''IProjectService'', Named ''APIService'', Named ''IUnfinalizedBlocksService'',
     Named ''IBlockchainService'', Lib ''TestRunner'', Named ''IIndexerManager'', Lib ''DsProcessorService'', Lib ''DynamicDsService'']"

definition reindex_open :: "token list" where
  "reindex_open = [Lib ''EventEmitter2'', Lib ''Sequelize'']"

definition reindex_builds :: "string list" where
  "reindex_builds = [''StoreService'', ''ReindexService'', ''PoiService'', ''ForceCleanService'', ''UnfinalizedBlocksService'',
     ''DynamicDsService'', ''DsProcessorService'', ''ConnectionPoolStateManager'', ''ConnectionPoolService'',
     ''MultiChainRewindService'', ''SchedulerRegistry'']"

text \<open>Reindexing knows two services by a text that is not their class: \<open>DynamicDsService\<close> and \<open>UnfinalizedBlocksService\<close>.\<close>

definition reindex_shown :: "token list" where
  "reindex_shown = configured @ [Named ''IStoreModelProvider'', Lib ''StoreService'', Lib ''ReindexService'', Lib ''PoiService'',
     Lib ''ForceCleanService'', Named ''UnfinalizedBlocksService'', Named ''DynamicDsService'', Lib ''DsProcessorService'',
     Lib ''ConnectionPoolStateManager'', Lib ''ConnectionPoolService'', Named ''APIService'', Named ''IBlockchainService'',
     Lib ''MultiChainRewindService'', Lib ''SchedulerRegistry'']"

lemma app_evaluated:
  "set (missing no_constructor no_library AppModule FetchModule) = set app_open"
  "set (library_classes FetchModule) = set app_builds"
  "set (visible no_library AppModule FetchModule) = set app_shown"
  by code_simp+

lemma worker_evaluated:
  "set (missing no_constructor no_library WorkerModule WorkerFetchModule) = set worker_open"
  "set (library_classes WorkerFetchModule) = set worker_builds"
  "set (visible no_library WorkerModule WorkerFetchModule) = set worker_shown"
  by code_simp+

lemma testing_evaluated:
  "set (missing no_constructor no_library TestingModule TestingFeatureModule) = set testing_open"
  "set (library_classes TestingFeatureModule) = set testing_builds"
  "set (visible no_library TestingModule TestingFeatureModule) = set testing_shown"
  by code_simp+

lemma reindex_evaluated:
  "set (missing no_constructor no_library ReindexModule ReindexFeatureModule) = set reindex_open"
  "set (library_classes ReindexFeatureModule) = set reindex_builds"
  "set (visible no_library ReindexModule ReindexFeatureModule) = set reindex_shown"
  by code_simp+

text \<open>
  C39. Whether a program can be put together, whatever the libraries export and whatever the constructors of
  their classes ask for: the providers of the node, of a worker, of the tests and of the reindexing get
  what they ask for exactly when the libraries show the module of the providers the listed open tokens,
  and everything the library classes it builds ask for is among the listed tokens this repository shows it
  or comes from the libraries too. The modules of a forced clean ask for nothing. (What the modules
  of the libraries ask for themselves is not looked at.)
\<close>

theorem programs_resolve:
  "(resolves asks lib AppModule \<longleftrightarrow> set app_open \<subseteq> from_library lib AppModule FetchModule
      \<and> (\<forall>c \<in> set app_builds. set (asks c) \<subseteq> set app_shown \<union> from_library lib AppModule FetchModule))
   \<and> (resolves asks lib WorkerModule \<longleftrightarrow> set worker_open \<subseteq> from_library lib WorkerModule WorkerFetchModule
      \<and> (\<forall>c \<in> set worker_builds. set (asks c) \<subseteq> set worker_shown \<union> from_library lib WorkerModule WorkerFetchModule))
   \<and> (resolves asks lib TestingModule \<longleftrightarrow> set testing_open \<subseteq> from_library lib TestingModule TestingFeatureModule
      \<and> (\<forall>c \<in> set testing_builds. set (asks c) \<subseteq> set testing_shown \<union> from_library lib TestingModule TestingFeatureModule))
   \<and> (resolves asks lib ReindexModule \<longleftrightarrow> set reindex_open \<subseteq> from_library lib ReindexModule ReindexFeatureModule
      \<and> (\<forall>c \<in> set reindex_builds. set (asks c) \<subseteq> set reindex_shown \<union> from_library lib ReindexModule ReindexFeatureModule))
   \<and> resolves asks lib ForceCleanModule"
  unfolding resolves_feature missing_library [of asks lib] app_evaluated worker_evaluated testing_evaluated reindex_evaluated
  by (intro conjI refl resolves_feature(5))

text \<open>The modules of the libraries in a list, to evaluate what they show.\<close>

fun lib_names :: "nest_module list \<Rightarrow> string list" where
  "lib_names [] = []"
| "lib_names (LibModule n # ms) = n # lib_names ms"
| "lib_names (OwnModule n is ps es g # ms) = lib_names ms"

lemma set_lib_names: "n \<in> set (lib_names ms) \<longleftrightarrow> LibModule n \<in> set ms"
  by (induction ms rule: lib_names.induct) auto

lemma from_library_names: "from_library lib root m = set (concat (map (\<lambda>n. snd (lib n)) (lib_names (imports_of m))))
    \<union> set (concat (map (\<lambda>n. if fst (lib n) then snd (lib n) else []) (lib_names (modules_of root))))"
  by (auto simp: from_library_def set_lib_names split: if_splits)

text \<open>A constructor that asks for a class the reindexing knows by a text is not served; by the text it is.\<close>

theorem programs_resolve_witness:
  "\<not> resolves (\<lambda>c. if c = ''ReindexService'' then [Lib ''DynamicDsService''] else [])
       (\<lambda>n. if n = ''DbModule'' then (True, [Lib ''Sequelize'']) else if n = ''EventEmitterModule'' then (True, [Lib ''EventEmitter2''])
          else (False, [])) ReindexModule
   \<and> resolves (\<lambda>c. if c = ''ReindexService'' then [Named ''DynamicDsService'', Lib ''StoreService''] else [])
       (\<lambda>n. if n = ''DbModule'' then (True, [Lib ''Sequelize'']) else if n = ''EventEmitterModule'' then (True, [Lib ''EventEmitter2''])
          else (False, [])) ReindexModule"
proof -
  let ?lib = "\<lambda>n. if n = ''DbModule'' then (True, [Lib ''Sequelize'']) else if n = ''EventEmitterModule'' then (True, [Lib ''EventEmitter2''])
          else (False, [])"
  have shown: "from_library ?lib ReindexModule ReindexFeatureModule = {Lib ''Sequelize'', Lib ''EventEmitter2''}"
  proof -
    have names: "lib_names (imports_of ReindexFeatureModule) = []" "lib_names (modules_of ReindexModule) = [''DbModule'', ''EventEmitterModule'']"
      by code_simp+
    show ?thesis unfolding from_library_names names by simp
  qed
  have reindex: "resolves asks ?lib ReindexModule \<longleftrightarrow> set reindex_open \<subseteq> {Lib ''Sequelize'', Lib ''EventEmitter2''}
      \<and> (\<forall>c \<in> set reindex_builds. set (asks c) \<subseteq> set reindex_shown \<union> {Lib ''Sequelize'', Lib ''EventEmitter2''})" for asks
    using programs_resolve [of asks ?lib] unfolding shown by blast
  show ?thesis
    unfolding reindex by (auto simp: reindex_open_def reindex_builds_def reindex_shown_def configured_def)
qed

text \<open>The forced clean of this repository is in no module: the program of that name runs node-core's.\<close>

definition all_providers :: "nest_module \<Rightarrow> provider list" where
  "all_providers root = concat (map providers_of (modules_of root))"

lemma ForceCleanService_unused:
  "list_all (\<lambda>root. list_all (\<lambda>p. p_token p \<noteq> Own ''ForceCleanService'' \<and> p_impl p \<noteq> UseClass (Own ''ForceCleanService''))
     (all_providers root)) [AppModule, WorkerModule, TestingModule, ReindexModule, ForceCleanModule]"
  by code_simp

end
