(* ===== verification/ApiTasks.thy ===== *)
theory ApiTasks
  imports ApiFacts Tasks
begin

text \<open>
  The methods of the client as tasks. \<open>AlgorandApi\<close> runs a method to its end before another one
  starts; here every \<open>await\<close> is a point at which other calls may run, on the same cache and the same
  blocks. The answer of a request is a section of its own: the node answers, and later the code goes on.
  Where the code runs on without waiting a section may end too, so that every order of the sections of the
  code is an order of these; what the code reads and writes without waiting in between is one section.
\<close>

section \<open>Requests\<close>

definition getHeaderOnly_t :: "'w deps \<Rightarrow> jsval \<Rightarrow> ('w AlgorandApi, nat) task" where
  "getHeaderOnly_t d block =
     catchT (bindT (atomic (request (lookupBlock_headerOnly_do d block))) (\<lambda>v. atomic (constructBlock v)))
       (\<lambda>e. Done (Inl e))"

text \<open>
  A page is asked for, or it is there and is looked at. The pages before it wait for the recursive call;
  they are concatenated when it comes back, the last of them first.
\<close>

fun concat_pages :: "jsval list \<Rightarrow> jsval \<Rightarrow> jsval res" where
  "concat_pages [] transactions = Inr transactions"
| "concat_pages (page # pages) transactions = bindR (concat_pages pages transactions) (js_concat page)"

lemma concat_pages_append: "concat_pages (ps @ qs) ts = bindR (concat_pages qs ts) (concat_pages ps)"
proof (induction ps)
  case Nil
  then show ?case by (cases "concat_pages qs ts") simp_all
qed (simp add: bindR_assoc)

datatype page_state = Ask jsval | Got jsval

fun page_section :: "'w deps \<Rightarrow> jsval \<Rightarrow> page_state \<times> jsval list \<Rightarrow> ('w, (page_state \<times> jsval list) + jsval) api" where
  "page_section d h (Ask tok, pages) s = iobind
     (\<lambda>s. request (searchForTransactions_do d h (paginationLimit s) (if truthy tok then tok else JUndef)) s)
     (\<lambda>result. ioret (Inl (Got result, pages))) s"
| "page_section d h (Got result, pages) s = iores
     (bindR (js_read (heap s) result ''transactions'') (\<lambda>transactions.
      bindR (has_transactions transactions) (\<lambda>nonempty.
        if nonempty then Inr (Inl (Ask (obj_get (own_props (heap s) result) ''next-token''), pages @ [transactions]))
        else bindR (concat_pages pages transactions) (\<lambda>ts. Inr (Inr ts))))) s"

definition paginatedTransactions_t :: "'w deps \<Rightarrow> jsval \<Rightarrow> jsval \<Rightarrow> ('w AlgorandApi, jsval) task" where
  "paginatedTransactions_t d h tok = loopT (page_section d h) (Ask tok, [])"

definition combinePaginateBlock_t :: "'w deps \<Rightarrow> jsval \<Rightarrow> ('w AlgorandApi, nat) task" where
  "combinePaginateBlock_t d height =
     catchT (bindT (bothT (settles d) (getHeaderOnly_t d height) (paginatedTransactions_t d height JUndef))
       (\<lambda>(blockHeader, paginatedTransactionsResults). atomic
         (iobind (renameKeys d (JRef blockHeader)) (\<lambda>header.
          iobind (renameKeys d paginatedTransactionsResults) (\<lambda>transactions.
          constructBlock (JObj (obj_put (spread_into [] (spread_props [] header))
            ''transactions'' transactions))))))) (\<lambda>e. Done (Inl e))"

definition getBlockByHeight_t :: "'w deps \<Rightarrow> jsval \<Rightarrow> ('w AlgorandApi, nat) task" where
  "getBlockByHeight_t d height =
     catchT (bindT (atomic (request (lookupBlock_do d height))) (\<lambda>blockInfo.
             atomic (iobind (renameKeys d blockInfo) constructBlock)))
       (\<lambda>error. if js_includes (emessage error) max_transactions_message
                then combinePaginateBlock_t d height
                else Done (Inl error))"

definition healthRound_t :: "'w deps \<Rightarrow> ('w AlgorandApi, jsval) task" where
  "healthRound_t d = bindT (atomic (request (makeHealthCheck_do d)))
     (\<lambda>checkHealth. atomic (\<lambda>s. Some (js_read (heap s) checkHealth ''round'', s)))"

definition getLatestBlockHeader_t :: "'w deps \<Rightarrow> ('w AlgorandApi, nat) task" where
  "getLatestBlockHeader_t d = bindT (healthRound_t d) (getHeaderOnly_t d)"

section \<open>Fetching blocks with their hashes\<close>

text \<open>The loop that waits for the chain: it looks at the round it has, asks the node, reads the answer.\<close>

datatype wait_state = Waiting jsval | Asking | Answered jsval

fun wait_section :: "'w deps \<Rightarrow> jsval \<Rightarrow> wait_state \<Rightarrow> ('w, wait_state + unit) api" where
  "wait_section d target (Waiting currentRound) s =
     (if js_less currentRound target then Some (Inr (Inl Asking), s\<lparr>world := delay_do d 1 (world s)\<rparr>)
      else Some (Inr (Inr ()), s))"
| "wait_section d target Asking s =
     iobind (request (makeHealthCheck_do d)) (\<lambda>checkHealth. ioret (Inl (Answered checkHealth))) s"
| "wait_section d target (Answered checkHealth) s =
     Some (bindR (js_read (heap s) checkHealth ''round'') (\<lambda>next. Inr (Inl (Waiting next))), s)"

definition waitForRound_t :: "'w deps \<Rightarrow> jsval \<Rightarrow> jsval \<Rightarrow> ('w AlgorandApi, unit) task" where
  "waitForRound_t d currentRound target = loopT (wait_section d target) (Waiting currentRound)"

text \<open>The hash the batch has for a round, read without waiting.\<close>

definition hashInBatch :: "jsval \<Rightarrow> nat list \<Rightarrow> ('w, jsval option) api" where
  "hashInBatch n blocks s = (case find (has_round (heap s) (js_plus1 n)) blocks of
     Some block \<Rightarrow> iobind (readBlock block ''previousBlockHash'') (\<lambda>hash. ioret (Some hash)) s
   | None \<Rightarrow> ioret None s)"

definition getBlockHash_t :: "'w deps \<Rightarrow> jsval \<Rightarrow> nat list \<Rightarrow> ('w AlgorandApi, jsval) task" where
  "getBlockHash_t d n blocks = bindT (atomic (hashInBatch n blocks)) (\<lambda>found. case found of
     Some hash \<Rightarrow> Done (Inr hash)
   | None \<Rightarrow> catchT
       (bindT (getBlockByHeight_t d (js_plus1 n)) (\<lambda>fetchedBlock.
        atomic (iobind (pushCache fetchedBlock) (\<lambda>_. readBlock fetchedBlock ''previousBlockHash''))))
       (\<lambda>e. bindT (healthRound_t d) (\<lambda>currentRound.
          if js_geq currentRound (js_plus1 n) then Done (Inl e)
          else bindT (waitForRound_t d currentRound (js_plus1 n))
                 (\<lambda>_. Done (Inl (Error (unable_message n)))))))"

definition takeCached :: "int list \<Rightarrow> ('w, nat option list) api" where
  "takeCached ns s = (case blocksInCache ns s of (founds, s') \<Rightarrow> Some (Inr founds, s'))"

definition fetchOne_t :: "'w deps \<Rightarrow> int \<times> nat option \<Rightarrow> ('w AlgorandApi, nat) task" where
  "fetchOne_t d = (\<lambda>(num, found). case found of
     Some block \<Rightarrow> Done (Inr block)
   | None \<Rightarrow> getBlockByHeight_t d (JNum num))"

definition setHash_t :: "'w deps \<Rightarrow> nat list \<Rightarrow> nat \<Rightarrow> ('w AlgorandApi, IBlock) task" where
  "setHash_t d blocks block =
     bindT (bindT (atomic (readBlock block ''round'')) (\<lambda>n. getBlockHash_t d n blocks))
       (\<lambda>hash. atomic (iobind (writeBlock block ''hash'' hash) (\<lambda>_. ioret (formatBlockUtil block))))"

definition fetchBlocks_t :: "'w deps \<Rightarrow> int list \<Rightarrow> ('w AlgorandApi, IBlock list) task" where
  "fetchBlocks_t d blockNums =
     bindT (atomic (takeCached blockNums)) (\<lambda>founds.
     bindT (allT (settles d) (map (fetchOne_t d) (zip blockNums founds))) (\<lambda>blocks.
     allT (settles d) (map (setHash_t d blocks) blocks)))"

definition safe_getBlock_t :: "'w deps \<Rightarrow> SafeAPIService \<Rightarrow> ('w AlgorandApi, nat) task" where
  "safe_getBlock_t d this =
     catchT (bindT (getBlockByHeight_t d (safe_height this)) (\<lambda>block. atomic
              (iobind (readBlock block ''round'') (\<lambda>n.
               if \<not> truthy n then iothrow (Error []) else ioret block))))
       (\<lambda>error. Done (Inl (Error ''ERROR: failed to get block from safe api service.'')))"

definition safe_getTxns_t :: "'w deps \<Rightarrow> SafeAPIService \<Rightarrow> ('w AlgorandApi, jsval) task" where
  "safe_getTxns_t d this =
     catchT (bindT (getBlockByHeight_t d (safe_height this)) (\<lambda>block. atomic
              (iobind (readBlock block ''transactions'') (\<lambda>txns.
               if \<not> truthy txns then iothrow (Error []) else ioret txns))))
       (\<lambda>error. Done (Inl (Error ''ERROR: failed to get transactions from safe api service.'')))"

section \<open>Alone\<close>

text \<open>With nothing else running, the tasks are the methods.\<close>

lemma alone_getHeaderOnly: "alone (getHeaderOnly_t d n) = getHeaderOnly d n"
  by (simp add: getHeaderOnly_t_def getHeaderOnly_def iothrow_def [abs_def] iocatch_def fun_eq_iff
      split: option.splits sum.splits)

lemma alone_healthRound: "alone (healthRound_t d) = healthRound d"
  by (simp add: healthRound_t_def healthRound_def)

lemma alone_getLatestBlockHeader: "alone (getLatestBlockHeader_t d) = getLatestBlockHeader d"
  by (simp add: getLatestBlockHeader_t_def getLatestBlockHeader_def alone_healthRound alone_getHeaderOnly)

lemma alone_Ask: "alone (loopT (page_section d h) (Ask tok, pages)) s =
   (case searchForTransactions_do d h (paginationLimit s) (if truthy tok then tok else JUndef) (world s) of
      (Inl e, w) \<Rightarrow> Some (Inl e, s\<lparr>world := w\<rparr>)
    | (Inr result, w) \<Rightarrow> alone (loopT (page_section d h) (Got result, pages)) (s\<lparr>world := w\<rparr>))"
  by (subst alone_loopT) (simp add: request_def iobind_def ioret_def split: prod.split sum.split)

lemma alone_Got: "alone (loopT (page_section d h) (Got result, pages)) s =
   (case js_read (heap s) result ''transactions'' of Inl e \<Rightarrow> Some (Inl e, s)
    | Inr transactions \<Rightarrow> (case has_transactions transactions of Inl e \<Rightarrow> Some (Inl e, s)
       | Inr nonempty \<Rightarrow> if nonempty
           then alone (loopT (page_section d h)
                  (Ask (obj_get (own_props (heap s) result) ''next-token''), pages @ [transactions])) s
           else Some (concat_pages pages transactions, s)))"
  by (subst alone_loopT) (auto simp: iores_def bindR_def split: sum.split)

lemma alone_pages_settle:
  "paginatedTransactions d h tok s = Some y \<Longrightarrow> alone (loopT (page_section d h) (Ask tok, pages)) s =
     Some (bindR (fst y) (concat_pages pages), snd y)"
proof (induction arbitrary: pages rule: paginated_induct)
  case (page f d h tok s y)
  obtain r w where req: "searchForTransactions_do d h (paginationLimit s) (if truthy tok then tok else JUndef) (world s) = (r, w)"
    by (cases "searchForTransactions_do d h (paginationLimit s) (if truthy tok then tok else JUndef) (world s)")
  let ?alone = "\<lambda>c. alone (loopT (page_section d h) c)"
  show ?case
  proof (cases "\<exists>result txs. r = Inr result \<and> js_read (heap s) result ''transactions'' = Inr txs \<and> has_transactions txs = Inr True")
    case True
    then obtain result txs where r: "r = Inr result" "js_read (heap s) result ''transactions'' = Inr txs"
      "has_transactions txs = Inr True" by blast
    let ?tok = "obj_get (own_props (heap s) result) ''next-token''"
    from page(2) req r obtain z where z: "f d h ?tok (s\<lparr>world := w\<rparr>) = Some z"
      "y = (bindR (fst z) (js_concat txs), snd z)"
      by (auto simp: page_step_def bind_eq_Some_conv)
    have "?alone (Ask tok, pages) s = ?alone (Ask ?tok, pages @ [txs]) (s\<lparr>world := w\<rparr>)"
      using req r by (simp add: alone_Ask [of d h tok pages s] alone_Got)
    with page.IH [OF z(1), of "pages @ [txs]"] z(2) show ?thesis by (cases "fst z") (simp_all add: concat_pages_append)
  next
    case False
    with page(2) req show ?thesis
      by (auto simp: alone_Ask [of d h tok pages s] alone_Got page_step_def split: sum.splits if_splits)
  qed
qed

lemma alone_pages_settled:
  assumes "alone (loopT (page_section d h) c) s \<noteq> None"
  shows "case c of (Ask tok, pages) \<Rightarrow> paginatedTransactions d h tok s \<noteq> None
     | (Got result, pages) \<Rightarrow> \<forall>txs. js_read (heap s) result ''transactions'' = Inr txs \<longrightarrow> has_transactions txs = Inr True \<longrightarrow>
         paginatedTransactions d h (obj_get (own_props (heap s) result) ''next-token'') s \<noteq> None"
  using assms
proof (induction rule: alone_loopT_induct)
  case (section_run c s)
  show ?case
  proof (cases c)
    case (Pair st pages)
    show ?thesis
    proof (cases st)
      case (Ask tok)
      then obtain r w where req: "searchForTransactions_do d h (paginationLimit s) (if truthy tok then tok else JUndef) (world s) = (r, w)"
        by (cases "searchForTransactions_do d h (paginationLimit s) (if truthy tok then tok else JUndef) (world s)")
      with section_run.IH [of "(Got (projr r), pages)" "s\<lparr>world := w\<rparr>"] show ?thesis
        by (cases r; subst paginatedTransactions.simps)
          (auto simp: Pair Ask request_def iobind_def ioret_def split: sum.split)
    next
      case (Got result)
      then show ?thesis
        using section_run.IH [of "(Ask (obj_get (own_props (heap s) result) ''next-token''), _)" s]
        by (auto simp: Pair iores_def)
    qed
  qed
qed

lemma alone_paginated: "alone (paginatedTransactions_t d h tok) = paginatedTransactions d h tok"
proof
  fix s show "alone (paginatedTransactions_t d h tok) s = paginatedTransactions d h tok s"
  proof (cases "paginatedTransactions d h tok s")
    case None
    with alone_pages_settled [of d h "(Ask tok, [])" s] show ?thesis
      by (cases "alone (loopT (page_section d h) (Ask tok, [])) s") (auto simp: paginatedTransactions_t_def)
  next
    case (Some y)
    with alone_pages_settle [OF Some, of "[]"] show ?thesis
      by (cases y; cases "fst y") (simp_all add: paginatedTransactions_t_def)
  qed
qed

lemma alone_wait: "alone (loopT (wait_section d target) (Waiting c)) s =
   (if js_less c target then (case healthRound d (s\<lparr>world := delay_do d 1 (world s)\<rparr>) of
      None \<Rightarrow> None
    | Some (Inl e, s') \<Rightarrow> Some (Inl e, s')
    | Some (Inr next, s') \<Rightarrow> alone (loopT (wait_section d target) (Waiting next)) s')
    else Some (Inr (), s))"
  by (subst alone_loopT, subst alone_loopT, subst alone_loopT)
    (auto simp: healthRound_def request_def iobind_def ioret_def bindR_def split: prod.split sum.split)

lemma alone_wait_settle: "waitForRound d c target s = Some y \<Longrightarrow> alone (loopT (wait_section d target) (Waiting c)) s = Some y"
proof (rule waitForRound.raw_induct [where P = "\<lambda>d c target s y. alone (loopT (wait_section d target) (Waiting c)) s = Some y"])
  fix f :: "'a deps \<Rightarrow> jsval \<Rightarrow> jsval \<Rightarrow> 'a AlgorandApi \<Rightarrow> (unit res \<times> 'a AlgorandApi) option"
    and d :: "'a deps" and c target and s :: "'a AlgorandApi" and y
  assume IH: "\<And>d c target s y. f d c target s = Some y \<Longrightarrow> alone (loopT (wait_section d target) (Waiting c)) s = Some y"
    and "(if js_less c target
      then (case healthRound d (s\<lparr>world := delay_do d 1 (world s)\<rparr>) of
              None \<Rightarrow> None
            | Some (Inl e, s') \<Rightarrow> Some (Inl e, s')
            | Some (Inr next, s') \<Rightarrow> f d next target s')
      else Some (Inr (), s)) = Some y"
  then show "alone (loopT (wait_section d target) (Waiting c)) s = Some y"
    by (subst alone_wait) (auto split: option.splits sum.splits if_splits dest: IH)
qed

lemma alone_wait_settled:
  assumes "alone (loopT (wait_section d target) c) s \<noteq> None"
  shows "case c of Waiting cur \<Rightarrow> waitForRound d cur target s \<noteq> None
     | Asking \<Rightarrow> (\<forall>next s'. healthRound d s = Some (Inr next, s') \<longrightarrow> waitForRound d next target s' \<noteq> None)
     | Answered v \<Rightarrow> (\<forall>next. js_read (heap s) v ''round'' = Inr next \<longrightarrow> waitForRound d next target s \<noteq> None)"
  using assms
proof (induction rule: alone_loopT_induct)
  case (section_run c s)
  show ?case
  proof (cases c)
    case (Waiting cur)
    then show ?thesis
      using section_run.IH [of Asking "s\<lparr>world := delay_do d 1 (world s)\<rparr>"]
      by (subst waitForRound.simps) (auto simp: healthRound_def request_def iobind_def split: prod.splits sum.splits option.splits)
  next
    case Asking
    obtain r w where req: "makeHealthCheck_do d (world s) = (r, w)" by (cases "makeHealthCheck_do d (world s)")
    then show ?thesis
      using section_run.IH [of "Answered (projr r)" "s\<lparr>world := w\<rparr>"]
      by (cases r) (auto simp: Asking healthRound_def request_def iobind_def ioret_def)
  next
    case (Answered v)
    then show ?thesis using section_run.IH [of "Waiting _" s] by auto
  qed
qed

lemma alone_waitForRound: "alone (waitForRound_t d c target) = waitForRound d c target"
proof
  fix s show "alone (waitForRound_t d c target) s = waitForRound d c target s"
    using alone_wait_settled [of d target "Waiting c" s] alone_wait_settle [of d c target s]
    by (cases "waitForRound d c target s"; cases "alone (loopT (wait_section d target) (Waiting c)) s")
      (auto simp: waitForRound_t_def)
qed

end
