(* ===== verification/ApiOverlap.thy ===== *)
theory ApiOverlap
  imports ApiProps ApiTasks
begin

text \<open>
  Calls of the client that overlap: the sections of any number of calls, in any order.
\<close>

section \<open>Sections on a chain\<close>

text \<open>
  How the cache may change meanwhile is left open: \<open>allowed\<close> relates it before and after, and \<open>kept\<close> is what
  becomes of a block that was put into it. Putting a block is allowed; taking one out is not asked for.
\<close>

locale cache_growth =
  fixes allowed :: "nat list \<Rightarrow> nat list \<Rightarrow> bool" and kept :: "nat \<Rightarrow> nat list \<Rightarrow> bool"
  assumes allowed_refl: "allowed xs xs"
    and allowed_trans: "allowed xs ys \<Longrightarrow> allowed ys zs \<Longrightarrow> allowed xs zs"
    and allowed_put: "allowed xs (xs @ [b])"
    and kept_put: "kept b (xs @ [b])"
    and kept_allowed: "kept b xs \<Longrightarrow> allowed xs ys \<Longrightarrow> kept b ys"

definition grown :: "(nat list \<Rightarrow> nat list \<Rightarrow> bool) \<Rightarrow> 'w deps \<Rightarrow> chain_spec \<Rightarrow> 'w AlgorandApi \<Rightarrow> 'w AlgorandApi \<Rightarrow> bool" where
  "grown allowed d C s s' \<longleftrightarrow> extends d C s s' \<and> allowed (blockCache s) (blockCache s')"

text \<open>The block after a round was put into the cache.\<close>

definition next_put :: "(nat \<Rightarrow> nat list \<Rightarrow> bool) \<Rightarrow> 'w deps \<Rightarrow> chain_spec \<Rightarrow> int \<Rightarrow> 'w AlgorandApi \<Rightarrow> bool" where
  "next_put kept d C n s \<longleftrightarrow> (\<exists>c. kept c (blockCache s) \<and> is_block d C s c (n + 1))"

lemma world_settled: "extends d C s (s\<lparr>world := w\<rparr>)" "chain_ok d C s \<Longrightarrow> chain_ok d C (s\<lparr>world := w\<rparr>)"
  by (simp_all add: extends_def chain_ok_def has_hash_def is_block_heap [of "s\<lparr>world := w\<rparr>" s])

text \<open>What a block of a call is when the call is done, and stays: the block of its round, with its hash.\<close>

definition hashed :: "'w deps \<Rightarrow> chain_spec \<Rightarrow> int \<Rightarrow> IBlock \<Rightarrow> 'w AlgorandApi \<Rightarrow> bool" where
  "hashed d C n y s \<longleftrightarrow> (\<exists>b. y = formatBlockUtil b \<and> is_block d C s b n \<and> has_hash C s b n)"

lemma hashed_extends: "extends d C s s' \<Longrightarrow> hashed d C n y s \<Longrightarrow> hashed d C n y s'"
  unfolding hashed_def extends_def by blast

lemma hashed_header: "hashed d C n y s \<Longrightarrow> getHeader (heap s) y = chain_header C n \<and> is_block d C s (ib_block y) n"
  unfolding hashed_def using getHeader_chain by (auto simp: formatBlockUtil_def)

context cache_growth
begin

lemma grown_same: "extends d C s s' \<Longrightarrow> blockCache s' = blockCache s \<Longrightarrow> grown allowed d C s s'"
  by (simp add: grown_def allowed_refl)

lemma grown_round: "task_round (chain_ok d C) (grown allowed d C) (settles d)"
proof
  fix s t u :: "'a AlgorandApi" and n
  assume s: "chain_ok d C s"
  show "grown allowed d C s s" by (rule grown_same [OF round.ext_refl [OF s] refl])
  show "grown allowed d C s u" if "grown allowed d C s t" "grown allowed d C t u"
    using that round.ext_trans [OF s] allowed_trans by (auto simp: grown_def)
  show "chain_ok d C (snd (settles d n s)) \<and> grown allowed d C s (snd (settles d n s))"
    using round.pick_ok [OF s, of n] by (simp add: grown_same)
qed

lemma grown_is_block: "grown allowed d C s s' \<Longrightarrow> is_block d C s b n \<Longrightarrow> is_block d C s' b n"
  by (simp add: grown_def extends_def)

lemma grown_batch: "grown allowed d C s s' \<Longrightarrow> batch_of d C s bs ns \<Longrightarrow> batch_of d C s' bs ns"
  unfolding grown_def by (blast intro: batch_of_extends)

lemma grown_next_put: "grown allowed d C s s' \<Longrightarrow> next_put kept d C n s \<Longrightarrow> next_put kept d C n s'"
  unfolding next_put_def grown_def extends_def using kept_allowed by blast

lemma grown_section:
  assumes "\<And>t. chain_ok d C t \<Longrightarrow> grown allowed d C s t \<Longrightarrow> \<exists>x u. m t = Some (Inr x, u) \<and> chain_ok d C u \<and> extends d C t u
     \<and> allowed (blockCache t) (blockCache u) \<and> P x u"
  shows "conforms (chain_ok d C) (grown allowed d C) (yields P) 1 (atomic m) s"
  by (rule conforms_atomic) (use assms in \<open>fastforce simp: grown_def\<close>)

lemma request_conforms:
  assumes "\<And>w. fst (f w) = Inr v"
  shows "conforms (chain_ok d C) (grown allowed d C) (yields (\<lambda>x s. x = v)) 1 (atomic (request f)) s"
proof (rule grown_section)
  fix t :: "'a AlgorandApi" assume "chain_ok d C t"
  with assms [of "world t"] world_settled [of d C t] allowed_refl
  show "\<exists>x u. request f t = Some (Inr x, u) \<and> chain_ok d C u \<and> extends d C t u
     \<and> allowed (blockCache t) (blockCache u) \<and> x = v"
    by (auto simp: request_def split: prod.split)
qed

lemma getBlockByHeight_t_chain:
  assumes S: "serves d C lastRound" and n: "0 \<le> n" "n \<le> lastRound"
  shows "conforms (chain_ok d C) (grown allowed d C) (yields (\<lambda>b s. is_block d C s b n)) (1 + 1) (getBlockByHeight_t d (JNum n)) s"
  unfolding getBlockByHeight_t_def
proof (rule conforms_catch_yields, rule conforms_bind_yields, rule request_conforms)
  from S n have ok: "reply_ok d C n" and "\<And>w. fst (lookupBlock_do d (JNum n) w) = Inr (JObj (chain C n))"
    by (auto simp: serves_def)
  then show "\<And>w. fst (lookupBlock_do d (JNum n) w) = Inr (JObj (chain C n))" by blast
  fix v s assume v: "v = JObj (chain C n)"
  show "conforms (chain_ok d C) (grown allowed d C) (yields (\<lambda>b s. is_block d C s b n)) 1
    (atomic (iobind (renameKeys d v) constructBlock)) s"
  proof (rule grown_section)
    fix t assume t: "chain_ok d C t"
    let ?u = "t\<lparr>heap := heap t @ [chain_block d C (length (heap t)) n]\<rparr>"
    have "is_block d C ?u (length (heap t)) n" by (simp add: is_block_def chain_block_of [OF ok])
    moreover have "extends d C t ?u" by (rule extends_append) simp
    ultimately show "\<exists>x u. iobind (renameKeys d v) constructBlock t = Some (Inr x, u) \<and> chain_ok d C u \<and> extends d C t u
        \<and> allowed (blockCache t) (blockCache u) \<and> is_block d C u x n"
      using t v construct_reply [OF ok, of t] chain_ok_cong [of d C t ?u] allowed_refl by auto
  qed
qed

lemma fetchOne_t_chain:
  assumes S: "serves d C lastRound" "0 \<le> n" "n \<le> lastRound"
    and found: "\<And>b. found = Some b \<Longrightarrow> is_block d C s b n"
  shows "conforms (chain_ok d C) (grown allowed d C) (yields (\<lambda>b s. is_block d C s b n)) 2 (fetchOne_t d (n, found)) s"
  using getBlockByHeight_t_chain [OF S, of s] found
  by (cases found) (simp_all add: fetchOne_t_def one_add_one)

end

lemma hashInBatch_chain:
  assumes bs: "batch_of d C s blocks ns"
  shows "\<exists>v. hashInBatch (JNum n) blocks s = Some (Inr v, s)
    \<and> (if n + 1 \<in> set ns then v = Some (JStr (hash_of C n)) else v = None)"
proof -
  have has: "has_round (heap s) (JNum (n + 1)) b \<longleftrightarrow> is_block d C s b (n + 1)" if "b \<in> set blocks" for b
    using batch_of_mem [OF bs that] is_block_round by fastforce
  have len: "length blocks = length ns" using bs by (simp add: batch_of_def list_all2_lengthD)
  have mem: "(\<exists>b \<in> set blocks. is_block d C s b (n + 1)) \<longleftrightarrow> n + 1 \<in> set ns"
    using batch_of_nth [OF bs] len is_block_unique by (metis in_set_conv_nth)
  show ?thesis
  proof (cases "find (has_round (heap s) (JNum (n + 1))) blocks")
    case (Some b)
    then have "b \<in> set blocks" "is_block d C s b (n + 1)" using has by (auto simp: find_Some_iff)
    with mem Some show ?thesis by (auto simp: hashInBatch_def readBlock_def io_simps is_block_def block_of_def)
  next
    case None
    then have "\<not> (\<exists>b \<in> set blocks. is_block d C s b (n + 1))" using has by (auto simp: find_None_iff)
    with mem None show ?thesis by (simp add: hashInBatch_def io_simps)
  qed
qed

context cache_growth
begin

lemma getBlockHash_t_chain:
  assumes S: "serves d C lastRound" and n: "0 \<le> n" "n + 1 \<le> lastRound" and bs: "batch_of d C s blocks ns"
  shows "conforms (chain_ok d C) (grown allowed d C)
    (yields (\<lambda>v s. v = JStr (hash_of C n) \<and> (n + 1 \<notin> set ns \<longrightarrow> next_put kept d C n s))) (1 + 3) (getBlockHash_t d (JNum n) blocks) s"
  unfolding getBlockHash_t_def
proof (rule conforms_bind_yields)
  let ?found = "\<lambda>v. if n + 1 \<in> set ns then v = Some (JStr (hash_of C n)) else v = None"
  let ?hash = "yields (\<lambda>v s :: 'a AlgorandApi. v = JStr (hash_of C n) \<and> (n + 1 \<notin> set ns \<longrightarrow> next_put kept d C n s))"
  show "conforms (chain_ok d C) (grown allowed d C) (yields (\<lambda>v s. ?found v)) 1 (atomic (hashInBatch (JNum n) blocks)) s"
  proof (rule grown_section)
    fix t assume t: "chain_ok d C t" "grown allowed d C s t"
    from hashInBatch_chain [OF grown_batch [OF t(2) bs], of n] round.ext_refl [OF t(1)] t(1) allowed_refl
    show "\<exists>v u. hashInBatch (JNum n) blocks t = Some (Inr v, u) \<and> chain_ok d C u \<and> extends d C t u
        \<and> allowed (blockCache t) (blockCache u) \<and> ?found v" by blast
  qed
  fix v s assume v: "?found v"
  have "conforms (chain_ok d C) (grown allowed d C) ?hash (2 + 1)
      (bindT (getBlockByHeight_t d (js_plus1 (JNum n))) (\<lambda>fetchedBlock.
        atomic (iobind (pushCache fetchedBlock) (\<lambda>_. readBlock fetchedBlock ''previousBlockHash'')))) s"
  proof (rule conforms_bind_yields)
    show "conforms (chain_ok d C) (grown allowed d C) (yields (\<lambda>b s. is_block d C s b (n + 1))) 2
        (getBlockByHeight_t d (js_plus1 (JNum n))) s"
      using getBlockByHeight_t_chain [OF S, of "n + 1" s] n by (simp add: one_add_one)
    fix b s assume b: "is_block d C s b (n + 1)"
    show "conforms (chain_ok d C) (grown allowed d C) ?hash 1
        (atomic (iobind (pushCache b) (\<lambda>_. readBlock b ''previousBlockHash''))) s"
    proof (rule grown_section)
      fix t assume t: "chain_ok d C t" "grown allowed d C s t"
      have b: "is_block d C t b (n + 1)" by (rule grown_is_block [OF t(2) b])
      have "extends d C t (pushed b t)" by (rule extends_append [of _ _ "[]"]) (simp add: pushed_def)
      moreover have "chain_ok d C (pushed b t)" using t(1) b by (auto simp: chain_ok_def pushed_def is_block_def)
      moreover have "next_put kept d C n (pushed b t)"
        using b kept_put unfolding next_put_def by (intro exI [of _ b]) (simp add: pushed_def is_block_def)
      moreover have "iobind (pushCache b) (\<lambda>_. readBlock b ''previousBlockHash'') t = Some (Inr (JStr (hash_of C n)), pushed b t)"
        using b by (simp add: io_simps pushCache_pushed readBlock_def pushed_def is_block_def block_of_def)
      moreover have "allowed (blockCache t) (blockCache (pushed b t))" using allowed_put by (simp add: pushed_def)
      ultimately show "\<exists>x u. iobind (pushCache b) (\<lambda>_. readBlock b ''previousBlockHash'') t = Some (Inr x, u)
          \<and> chain_ok d C u \<and> extends d C t u \<and> allowed (blockCache t) (blockCache u)
          \<and> x = JStr (hash_of C n) \<and> (n + 1 \<notin> set ns \<longrightarrow> next_put kept d C n u)" by blast
    qed
  qed
  from conforms_catch_yields [OF this] v
  show "conforms (chain_ok d C) (grown allowed d C) ?hash 3 (case v of
     Some hash \<Rightarrow> Done (Inr hash)
   | None \<Rightarrow> catchT
       (bindT (getBlockByHeight_t d (js_plus1 (JNum n))) (\<lambda>fetchedBlock.
        atomic (iobind (pushCache fetchedBlock) (\<lambda>_. readBlock fetchedBlock ''previousBlockHash''))))
       (\<lambda>e. bindT (healthRound_t d) (\<lambda>currentRound.
          if js_geq currentRound (js_plus1 (JNum n)) then Done (Inl e)
          else bindT (waitForRound_t d currentRound (js_plus1 (JNum n)))
                 (\<lambda>_. Done (Inl (Error (unable_message (JNum n)))))))) s"
    by (simp split: if_splits)
qed

lemma setHash_t_chain:
  assumes S: "serves d C lastRound" and n: "0 \<le> n" "n + 1 \<le> lastRound"
    and b: "is_block d C s b n" and bs: "batch_of d C s blocks ns"
  shows "conforms (chain_ok d C) (grown allowed d C)
    (yields (\<lambda>y s. hashed d C n y s \<and> (n + 1 \<notin> set ns \<longrightarrow> next_put kept d C n s))) (1 + 4 + 1) (setHash_t d blocks b) s"
  unfolding setHash_t_def
proof (rule conforms_bind_yields, rule conforms_bind_yields)
  let ?noted = "\<lambda>s. n + 1 \<notin> set ns \<longrightarrow> next_put kept d C n s"
  show "conforms (chain_ok d C) (grown allowed d C) (yields (\<lambda>v s. v = JNum n \<and> is_block d C s b n \<and> batch_of d C s blocks ns)) 1
     (atomic (readBlock b ''round'')) s"
  proof (rule grown_section)
    fix t assume t: "chain_ok d C t" "grown allowed d C s t"
    have k: "is_block d C t b n" "batch_of d C t blocks ns" using grown_is_block [OF t(2) b] grown_batch [OF t(2) bs] by auto
    then have "readBlock b ''round'' t = Some (Inr (JNum n), t)"
      by (simp add: readBlock_def is_block_def block_of_def)
    with k t(1) round.ext_refl [OF t(1)] allowed_refl
    show "\<exists>x u. readBlock b ''round'' t = Some (Inr x, u) \<and> chain_ok d C u \<and> extends d C t u
        \<and> allowed (blockCache t) (blockCache u) \<and> x = JNum n \<and> is_block d C u b n \<and> batch_of d C u blocks ns" by blast
  qed
  fix v s assume v: "v = JNum n \<and> is_block d C s b n \<and> batch_of d C s blocks ns"
  show "conforms (chain_ok d C) (grown allowed d C) (yields (\<lambda>v s. v = JStr (hash_of C n) \<and> ?noted s \<and> is_block d C s b n)) 4
      (getBlockHash_t d v blocks) s"
  proof (rule conforms_weaken)
    from v have "conforms (chain_ok d C) (grown allowed d C) (yields (\<lambda>v s. v = JStr (hash_of C n) \<and> ?noted s)) (1 + 3) (getBlockHash_t d v blocks) s"
      using getBlockHash_t_chain [OF S n, of s blocks ns] by blast
    then show "conforms (chain_ok d C) (grown allowed d C)
        (\<lambda>r s. yields (\<lambda>v s. v = JStr (hash_of C n) \<and> ?noted s) r s \<and> is_block d C s b n) (1 + 3) (getBlockHash_t d v blocks) s"
      by (rule conforms_frame) (use v grown_is_block in blast)+
  qed (auto simp: yields_def)
next
  fix v s assume v: "v = JStr (hash_of C n) \<and> (n + 1 \<notin> set ns \<longrightarrow> next_put kept d C n s) \<and> is_block d C s b n"
  show "conforms (chain_ok d C) (grown allowed d C) (yields (\<lambda>y s. hashed d C n y s \<and> (n + 1 \<notin> set ns \<longrightarrow> next_put kept d C n s))) 1
     (atomic (iobind (writeBlock b ''hash'' v) (\<lambda>_. ioret (formatBlockUtil b)))) s"
  proof (rule grown_section)
    fix t assume t: "chain_ok d C t" "grown allowed d C s t"
    have b: "is_block d C t b n" using v grown_is_block [OF t(2)] by blast
    from writeHash_chain [OF t(1) b] obtain u where
      u: "writeBlock b ''hash'' (JStr (hash_of C n)) t = Some (Inr (), u)" "chain_ok d C u" "extends d C t u"
      "is_block d C u b n" "has_hash C u b n" "blockCache u = blockCache t" by blast
    have "n + 1 \<notin> set ns \<longrightarrow> next_put kept d C n u"
      using v grown_next_put [OF t(2)] grown_next_put [OF grown_same [OF u(3,6)]] by blast
    with u v allowed_refl show "\<exists>x u. iobind (writeBlock b ''hash'' v) (\<lambda>_. ioret (formatBlockUtil b)) t = Some (Inr x, u) \<and> chain_ok d C u
        \<and> extends d C t u \<and> allowed (blockCache t) (blockCache u) \<and> hashed d C n x u \<and> (n + 1 \<notin> set ns \<longrightarrow> next_put kept d C n u)"
      by (auto simp: io_simps hashed_def)
  qed
qed

end

text \<open>What \<open>fetchBlocks\<close> does with what it found in the cache.\<close>

definition fetchFound_t :: "'w deps \<Rightarrow> int list \<Rightarrow> nat option list \<Rightarrow> ('w AlgorandApi, IBlock list) task" where
  "fetchFound_t d ns founds = bindT (allT (settles d) (map (fetchOne_t d) (zip ns founds))) (\<lambda>blocks.
     allT (settles d) (map (setHash_t d blocks) blocks))"

definition founds_ok :: "'w deps \<Rightarrow> chain_spec \<Rightarrow> int list \<Rightarrow> nat option list \<Rightarrow> 'w AlgorandApi \<Rightarrow> bool" where
  "founds_ok d C ns founds s \<longleftrightarrow> chain_ok d C s \<and> list_all2 (\<lambda>n found. \<forall>b. found = Some b \<longrightarrow> is_block d C s b n) ns founds"

lemma takeCached_chain:
  assumes "chain_ok d C t"
  shows "\<exists>founds u. takeCached ns t = Some (Inr founds, u) \<and> extends d C t u \<and> founds_ok d C ns founds u"
proof -
  obtain founds u where f: "blocksInCache ns t = (founds, u)" by (cases "blocksInCache ns t")
  from blocksInCache_chain [OF assms f] have u: "heap u = heap t" "chain_ok d C u"
    and fs: "list_all2 (\<lambda>n found. \<forall>b. found = Some b \<longrightarrow> is_block d C t b n) ns founds" by blast+
  have "extends d C t u" by (rule extends_append [of _ _ "[]"]) (simp add: u(1))
  with u(2) fs f is_block_heap [OF u(1), of d C] show ?thesis by (simp add: takeCached_def founds_ok_def)
qed

text \<open>What a call leaves: its blocks, with their hashes, and every block it had to ask for to have a hash.\<close>

definition fetched :: "(nat \<Rightarrow> nat list \<Rightarrow> bool) \<Rightarrow> 'w deps \<Rightarrow> chain_spec \<Rightarrow> int list \<Rightarrow> IBlock list \<Rightarrow> 'w AlgorandApi \<Rightarrow> bool" where
  "fetched kept d C ns ys s \<longleftrightarrow>
     list_all2 (\<lambda>n y. hashed d C n y s) ns ys \<and> (\<forall>n \<in> set ns. n + 1 \<notin> set ns \<longrightarrow> next_put kept d C n s)"

context cache_growth
begin

lemma grown_hashed: "grown allowed d C s s' \<Longrightarrow> hashed d C n y s \<Longrightarrow> hashed d C n y s'"
  unfolding grown_def by (blast intro: hashed_extends)

lemma grown_fetched:
  assumes g: "grown allowed d C s s'" and f: "fetched kept d C ns ys s"
  shows "fetched kept d C ns ys s'"
  using f grown_next_put [OF g] unfolding fetched_def by (auto elim!: list_all2_mono intro: grown_hashed [OF g])

lemma found_phase:
  assumes S: "serves d C lastRound" and ns: "\<forall>n \<in> set ns. 0 \<le> n \<and> n < lastRound" and fs: "founds_ok d C ns founds s"
  shows "conforms (chain_ok d C) (grown allowed d C) (yields (\<lambda>bs s. batch_of d C s bs ns \<and> chain_ok d C s))
     (of_nat (length ns) * 2) (allT (settles d) (map (fetchOne_t d) (zip ns founds))) s"
proof -
  from fs have s: "chain_ok d C s" and fs: "list_all2 (\<lambda>n found. \<forall>b. found = Some b \<longrightarrow> is_block d C s b n) ns founds"
    by (simp_all add: founds_ok_def)
  have len: "length (zip ns founds) = length ns" using list_all2_lengthD [OF fs] by simp
  have "conforms (chain_ok d C) (grown allowed d C) (yields (\<lambda>bs s. list_all2 (\<lambda>x b. is_block d C s b (fst x)) (zip ns founds) bs))
      (of_nat (length (zip ns founds)) * 2) (allT (settles d) (map (fetchOne_t d) (zip ns founds))) s"
  proof (rule task_round.conforms_all_yields [OF grown_round _ s])
    fix x assume mem: "x \<in> set (zip ns founds)"
    obtain n found where x: "x = (n, found)" by (cases x)
    with mem fs have "n \<in> set ns" "\<And>b. found = Some b \<Longrightarrow> is_block d C s b n"
      by (auto simp: list_all2_iff dest: set_zip_leftD)
    moreover from this(1) ns have "0 \<le> n" "n \<le> lastRound" by auto
    ultimately show
      "conforms (chain_ok d C) (grown allowed d C) (yields (\<lambda>b s. is_block d C s b (fst x))) 2 (fetchOne_t d x) s"
      using fetchOne_t_chain [OF S, of n found s] x by simp
  qed (rule grown_is_block)
  moreover have "list_all2 (is_block d C t) bs ns" if "list_all2 (\<lambda>x b. is_block d C t b (fst x)) (zip ns founds) bs" for bs t
    using that list_all2_lengthD [OF fs] by (simp add: list_all2_conv_all_nth)
  ultimately have "conforms (chain_ok d C) (grown allowed d C) (yields (\<lambda>bs s. batch_of d C s bs ns))
      (of_nat (length ns) * 2) (allT (settles d) (map (fetchOne_t d) (zip ns founds))) s"
    unfolding len batch_of_def by (blast intro: conforms_weaken yields_mono)
  from conforms_ok [OF this s] show ?thesis by (rule conforms_weaken) (auto simp: yields_def)
qed

lemma hash_phase_t:
  assumes S: "serves d C lastRound" and ns: "\<forall>n \<in> set ns. 0 \<le> n \<and> n < lastRound"
    and bs: "batch_of d C s bs ns" and s: "chain_ok d C s"
  shows "conforms (chain_ok d C) (grown allowed d C) (yields (fetched kept d C ns))
     (of_nat (length ns) * 6) (allT (settles d) (map (setHash_t d bs) bs)) s"
proof -
  let ?P = "\<lambda>x y s. hashed d C (snd x) y s \<and> (snd x + 1 \<notin> set ns \<longrightarrow> next_put kept d C (snd x) s)"
  have len: "length bs = length ns" using bs by (simp add: batch_of_def list_all2_lengthD)
  then have tasks: "map (setHash_t d bs) bs = map (\<lambda>(b, n). setHash_t d bs b) (zip bs ns)"
    by (intro nth_equalityI) simp_all
  have "conforms (chain_ok d C) (grown allowed d C) (yields (\<lambda>ys s. list_all2 (\<lambda>x y. ?P x y s) (zip bs ns) ys))
      (of_nat (length (zip bs ns)) * 6) (allT (settles d) (map (\<lambda>(b, n). setHash_t d bs b) (zip bs ns))) s"
  proof (rule task_round.conforms_all_yields [OF grown_round _ s])
    fix x assume mem: "x \<in> set (zip bs ns)"
    obtain b n where x: "x = (b, n)" by (cases x)
    with mem bs have m: "n \<in> set ns" "is_block d C s b n"
      by (auto simp: batch_of_def list_all2_iff dest: set_zip_rightD)
    from ns m(1) have "0 \<le> n" "n + 1 \<le> lastRound" by auto
    from setHash_t_chain [OF S this m(2) bs]
    show "conforms (chain_ok d C) (grown allowed d C) (yields (?P x)) 6 ((\<lambda>(b, n). setHash_t d bs b) x) s"
      by (simp add: x)
  qed (use grown_hashed grown_next_put in blast)
  moreover have "fetched kept d C ns ys t" if "list_all2 (\<lambda>x y. ?P x y t) (zip bs ns) ys" for ys t
    using that len by (auto simp: fetched_def list_all2_conv_all_nth in_set_conv_nth)
  ultimately show ?thesis unfolding tasks using len by (elim conforms_weaken) (auto simp: yields_def)
qed

lemma fetchFound_t_chain:
  assumes S: "serves d C lastRound" and ns: "\<forall>n \<in> set ns. 0 \<le> n \<and> n < lastRound" and fs: "founds_ok d C ns founds s"
  shows "conforms (chain_ok d C) (grown allowed d C) (yields (fetched kept d C ns)) (enat (8 * length ns)) (fetchFound_t d ns founds) s"
proof -
  have "conforms (chain_ok d C) (grown allowed d C) (yields (fetched kept d C ns))
      (of_nat (length ns) * 2 + of_nat (length ns) * 6) (fetchFound_t d ns founds) s"
    unfolding fetchFound_t_def
    by (rule conforms_bind_yields, rule found_phase [OF S ns fs], elim conjE) (rule hash_phase_t [OF S ns])
  moreover have "of_nat (length ns) * 2 + of_nat (length ns) * 6 = enat (8 * length ns)"
    by (simp add: of_nat_eq_enat flip: distrib_left) (simp add: numeral_eq_enat)
  ultimately show ?thesis by simp
qed

end

section \<open>Calls of \<open>fetchBlocks\<close>\<close>

interpretation any_cache: cache_growth "\<lambda>_ _. True" "\<lambda>_ _. True"
  by unfold_locales simp_all

lemma grown_any: "grown (\<lambda>_ _. True) d C = extends d C"
  by (simp add: grown_def fun_eq_iff)

lemma fetchBlocks_t_found: "fetchBlocks_t d ns = bindT (atomic (takeCached ns)) (fetchFound_t d ns)"
  by (simp only: fetchBlocks_t_def fetchFound_t_def [abs_def])

lemma fetchBlocks_t_chain:
  assumes S: "serves d C lastRound" and ns: "\<forall>n \<in> set ns. 0 \<le> n \<and> n < lastRound"
  shows "conforms (chain_ok d C) (extends d C) (yields (fetched (\<lambda>_ _. True) d C ns)) (enat (1 + 8 * length ns)) (fetchBlocks_t d ns) s"
proof -
  have "conforms (chain_ok d C) (extends d C) (yields (fetched (\<lambda>_ _. True) d C ns)) (1 + enat (8 * length ns)) (fetchBlocks_t d ns) s"
    unfolding fetchBlocks_t_found
  proof (rule conforms_bind_yields)
    show "conforms (chain_ok d C) (extends d C) (yields (founds_ok d C ns)) 1 (atomic (takeCached ns)) s"
      by (rule conforms_atomic) (use takeCached_chain in \<open>fastforce simp: founds_ok_def\<close>)
  qed (rule any_cache.fetchFound_t_chain [OF S ns, unfolded grown_any])
  then show ?thesis by (simp add: one_enat_def)
qed

lemma overlapping_run:
  assumes S: "serves d C lastRound" and ns: "\<forall>ns \<in> set nss. \<forall>n \<in> set ns. 0 \<le> n \<and> n < lastRound" and s: "chain_ok d C s"
  shows "\<exists>bss s'. alone (allT (settles d) (map (fetchBlocks_t d) nss)) s = Some (Inr bss, s')
     \<and> list_all2 (\<lambda>ns bs. fetched (\<lambda>_ _. True) d C ns bs s') nss bss"
proof -
  let ?k = "1 + 8 * sum_list (map length nss)" and ?P = "\<lambda>ns ys s. fetched (\<lambda>_ _. True) d C ns ys s"
  have len: "1 + 8 * length ns \<le> ?k" if "ns \<in> set nss" for ns
    using that by (simp add: member_le_sum_list)
  have "conforms (chain_ok d C) (extends d C) (yields (\<lambda>yss s. list_all2 (\<lambda>ns ys. ?P ns ys s) nss yss))
      (of_nat (length nss) * enat ?k) (allT (settles d) (map (fetchBlocks_t d) nss)) s"
  proof (rule round.conforms_all_yields [OF _ s])
    fix x assume x: "x \<in> set nss"
    with ns have "\<forall>n \<in> set x. 0 \<le> n \<and> n < lastRound" by blast
    from fetchBlocks_t_chain [OF S this] show "conforms (chain_ok d C) (extends d C) (yields (?P x)) (enat ?k) (fetchBlocks_t d x) s"
      by (rule conforms_weaken) (use len [OF x] in simp_all)
  qed (rule any_cache.grown_fetched [unfolded grown_any])
  then have "conforms (chain_ok d C) (extends d C) (yields (\<lambda>yss s. list_all2 (\<lambda>ns ys. ?P ns ys s) nss yss))
      (enat (length nss * ?k)) (allT (settles d) (map (fetchBlocks_t d) nss)) s"
    by (simp add: of_nat_eq_enat)
  from round.conforms_alone [OF this s] show ?thesis by (auto simp: yields_def)
qed

lemma fetched_headers:
  assumes "fetched kept d C ns bs s"
  shows "map (getHeader (heap s)) bs = map (chain_header C) ns \<and> list_all2 (\<lambda>n b. is_block d C s (ib_block b) n) ns bs"
proof -
  have "list_all2 (\<lambda>n y. hashed d C n y s) ns bs" using assms by (simp add: fetched_def)
  then have "list_all2 (\<lambda>n b. getHeader (heap s) b = chain_header C n \<and> is_block d C s (ib_block b) n) ns bs"
    by (rule list_all2_mono) (rule hashed_header)
  then show ?thesis by (auto simp: list_all2_conv_all_nth list_eq_iff_nth_eq)
qed

text \<open>
  C2. On a chain the node serves, any number of calls of \<open>fetchBlocks\<close> may overlap: whatever the order in which the
  event loop runs their sections, from one \<open>await\<close> to the next, and in spite of the cache they share and
  the blocks they take out of it, put into it and write to, every call ends, and returns one block per
  number asked, in that order, each the block of its round with the header of its round.
\<close>

theorem overlapping_fetches:
  assumes "serves d C lastRound" "\<forall>ns \<in> set nss. \<forall>n \<in> set ns. 0 \<le> n \<and> n < lastRound" "chain_ok d C s"
  shows "\<exists>bss s'. alone (allT (settles d) (map (fetchBlocks_t d) nss)) s = Some (Inr bss, s')
     \<and> list_all2 (\<lambda>ns bs. map (getHeader (heap s')) bs = map (chain_header C) ns
          \<and> list_all2 (\<lambda>n b. is_block d C s' (ib_block b) n) ns bs) nss bss"
proof -
  from overlapping_run [OF assms] obtain bss s' where
    run: "alone (allT (settles d) (map (fetchBlocks_t d) nss)) s = Some (Inr bss, s')"
    and all: "list_all2 (\<lambda>ns bs. fetched (\<lambda>_ _. True) d C ns bs s') nss bss" by blast
  show ?thesis by (intro exI conjI, rule run, rule list_all2_mono [OF all], rule fetched_headers)
qed

theorem overlapping_fetches_witness:
  "\<exists>bs cs s'. alone (allT (settles demo_deps) (map (fetchBlocks_t demo_deps) [[5, 6], [6, 7]])) (new_AlgorandApi 0)
       = Some (Inr [bs, cs], s')
     \<and> map (getHeader (heap s')) bs = map (chain_header demo_chain) [5, 6]
     \<and> map (getHeader (heap s')) cs = map (chain_header demo_chain) [6, 7]"
  using overlapping_fetches [OF demo_serves, of "[[5, 6], [6, 7]]" "new_AlgorandApi 0"]
  by (auto simp: chain_ok_def new_AlgorandApi_def list_all2_Cons1)

section \<open>Calls started together\<close>

text \<open>
  A call of an async function runs its first section at once. Calls started together have all looked into
  the cache before any of them puts a block there, and none of them takes a block out afterwards.
\<close>

fun start_all :: "('s, 'a) task list \<Rightarrow> 's \<Rightarrow> ('s, 'a) task list \<times> 's" where
  "start_all [] s = ([], s)"
| "start_all (Done r # ts) s = (case start_all ts s of (us, s2) \<Rightarrow> (Done r # us, s2))"
| "start_all (Await f # ts) s = (case f s of (t, s1) \<Rightarrow> case start_all ts s1 of (us, s2) \<Rightarrow> (t # us, s2))"

interpretation cache_grows: cache_growth "\<lambda>xs ys. set xs \<subseteq> set ys" "\<lambda>b xs. b \<in> set xs"
  by unfold_locales auto

lemma start_fetchBlocks:
  "takeCached ns s = Some (Inr founds, t) \<Longrightarrow> start_all (fetchBlocks_t d ns # ts) s
     = (case start_all ts t of (us, s2) \<Rightarrow> (fetchFound_t d ns founds # us, s2))"
  by (simp add: fetchBlocks_t_found atomic_def bindT_def)

lemma started_fetches:
  "chain_ok d C s \<Longrightarrow> \<exists>foundss s1. start_all (map (fetchBlocks_t d) nss) s = (map2 (fetchFound_t d) nss foundss, s1)
     \<and> chain_ok d C s1 \<and> extends d C s s1 \<and> list_all2 (\<lambda>ns founds. founds_ok d C ns founds s1) nss foundss"
proof (induction nss arbitrary: s)
  case Nil
  then show ?case using round.ext_refl by auto
next
  case (Cons ns nss)
  from takeCached_chain [OF Cons.prems, of ns] obtain founds t where
    t: "takeCached ns s = Some (Inr founds, t)" "extends d C s t" "founds_ok d C ns founds t" by blast
  then have ok: "chain_ok d C t" by (simp add: founds_ok_def)
  from Cons.IH [OF ok] obtain foundss s1 where
    s1: "start_all (map (fetchBlocks_t d) nss) t = (map2 (fetchFound_t d) nss foundss, s1)" "chain_ok d C s1" "extends d C t s1"
    "list_all2 (\<lambda>ns founds. founds_ok d C ns founds s1) nss foundss" by blast
  have "founds_ok d C ns founds s1"
    using t(3) s1(2,3) by (auto simp: founds_ok_def extends_def elim!: list_all2_mono)
  with s1 t(1) round.ext_trans [OF Cons.prems t(2) s1(3)] show ?case
    by (intro exI [of _ "founds # foundss"] exI [of _ s1]) (simp add: start_fetchBlocks)
qed

lemma started_run:
  assumes S: "serves d C lastRound" and ns: "\<forall>ns \<in> set nss. \<forall>n \<in> set ns. 0 \<le> n \<and> n < lastRound" and s: "chain_ok d C s"
    and st: "start_all (map (fetchBlocks_t d) nss) s = (ts, s1)"
  shows "\<exists>bss s'. alone (allT (settles d) ts) s1 = Some (Inr bss, s')
     \<and> list_all2 (\<lambda>ns bs. fetched (\<lambda>b xs. b \<in> set xs) d C ns bs s') nss bss"
proof -
  from started_fetches [OF s, of nss] st obtain foundss where
    ts: "ts = map2 (fetchFound_t d) nss foundss" and s1: "chain_ok d C s1"
    and fs: "list_all2 (\<lambda>ns founds. founds_ok d C ns founds s1) nss foundss" by auto
  let ?k = "8 * sum_list (map length nss)" and ?g = "grown (\<lambda>xs ys. set xs \<subseteq> set ys) d C"
    and ?P = "\<lambda>x ys s. fetched (\<lambda>b xs. b \<in> set xs) d C (fst x) ys s"
  have "conforms (chain_ok d C) ?g (yields (\<lambda>yss s. list_all2 (\<lambda>x ys. ?P x ys s) (zip nss foundss) yss))
      (of_nat (length (zip nss foundss)) * enat ?k) (allT (settles d) ts) s1"
    unfolding ts
  proof (rule task_round.conforms_all_yields [OF cache_grows.grown_round _ s1])
    fix x assume mem: "x \<in> set (zip nss foundss)"
    obtain ns founds where x: "x = (ns, founds)" by (cases x)
    from mem fs x have m: "ns \<in> set nss" "founds_ok d C ns founds s1"
      by (auto simp: list_all2_iff dest: set_zip_leftD)
    then have "\<forall>n \<in> set ns. 0 \<le> n \<and> n < lastRound" using ns by blast
    from cache_grows.fetchFound_t_chain [OF S this m(2)]
    show "conforms (chain_ok d C) ?g (yields (?P x)) (enat ?k) ((\<lambda>(ns, founds). fetchFound_t d ns founds) x) s1"
      unfolding x using m(1) by (auto elim!: conforms_weaken simp: member_le_sum_list)
  qed (rule cache_grows.grown_fetched)
  then have "conforms (chain_ok d C) ?g (yields (\<lambda>yss s. list_all2 (\<lambda>x ys. ?P x ys s) (zip nss foundss) yss))
      (enat (length (zip nss foundss) * ?k)) (allT (settles d) ts) s1"
    by (simp add: of_nat_eq_enat)
  from task_round.conforms_alone [OF cache_grows.grown_round this s1] show ?thesis
    using list_all2_lengthD [OF fs] by (fastforce simp: yields_def list_all2_conv_all_nth)
qed

lemma next_put_count:
  assumes "\<forall>n \<in> N. next_put (\<lambda>b xs. b \<in> set xs) d C n s"
  shows "card N \<le> length (blockCache s)"
proof -
  from assms obtain c where c: "\<forall>n \<in> N. c n \<in> set (blockCache s) \<and> is_block d C s (c n) (n + 1)"
    unfolding next_put_def by metis
  have "inj_on c N"
  proof (rule inj_onI)
    fix m n assume "m \<in> N" "n \<in> N" "c m = c n"
    with c is_block_unique [of d C s "c m" "m + 1" "n + 1"] show "m = n" by auto
  qed
  then have "card N \<le> card (set (blockCache s))" by (rule card_inj_on_le) (use c in auto)
  also have "\<dots> \<le> length (blockCache s)" by (rule card_length)
  finally show ?thesis .
qed

text \<open>
  C9. Calls of \<open>fetchBlocks\<close> that are started together leave blocks behind, on consecutive rounds too: each
  call has looked into the cache before any other has put a block there, so the block it asks for to get
  the hash of the last round of a batch is not there for the call it was kept for. When all calls have
  ended, in whatever order their sections ran, the cache holds at least one block per round whose
  successor was not in the same batch; calls for consecutive rounds made one after the other leave one.
\<close>

theorem calls_together_leave_blocks:
  assumes "serves d C lastRound" "\<forall>ns \<in> set nss. \<forall>n \<in> set ns. 0 \<le> n \<and> n < lastRound" "chain_ok d C s"
    and "start_all (map (fetchBlocks_t d) nss) s = (ts, s1)"
  shows "\<exists>bss s'. alone (allT (settles d) ts) s1 = Some (Inr bss, s')
     \<and> list_all2 (\<lambda>ns bs. map (getHeader (heap s')) bs = map (chain_header C) ns) nss bss
     \<and> card {n. \<exists>ns \<in> set nss. n \<in> set ns \<and> n + 1 \<notin> set ns} \<le> length (blockCache s')"
proof -
  from started_run [OF assms] obtain bss s' where
    run: "alone (allT (settles d) ts) s1 = Some (Inr bss, s')"
    and all: "list_all2 (\<lambda>ns bs. fetched (\<lambda>b xs. b \<in> set xs) d C ns bs s') nss bss" by blast
  have "list_all2 (\<lambda>ns bs. map (getHeader (heap s')) bs = map (chain_header C) ns) nss bss"
    by (rule list_all2_mono [OF all]) (use fetched_headers in blast)
  moreover have "card {n. \<exists>ns \<in> set nss. n \<in> set ns \<and> n + 1 \<notin> set ns} \<le> length (blockCache s')"
  proof (rule next_put_count [of _ d C], intro ballI, elim CollectE bexE conjE)
    fix n ns assume "ns \<in> set nss" and n: "n \<in> set ns" "n + 1 \<notin> set ns"
    with all obtain bs where "fetched (\<lambda>b xs. b \<in> set xs) d C ns bs s'" by (metis list_all2_conv_all_nth in_set_conv_nth)
    with n show "next_put (\<lambda>b xs. b \<in> set xs) d C n s'" by (simp add: fetched_def)
  qed
  ultimately show ?thesis using run by blast
qed

theorem calls_together_leave_blocks_witness:
  "\<exists>bss s'. alone (allT (settles demo_deps) (fst (start_all (map (fetchBlocks_t demo_deps) [[5], [6], [7]]) (new_AlgorandApi 0))))
        (snd (start_all (map (fetchBlocks_t demo_deps) [[5], [6], [7]]) (new_AlgorandApi 0))) = Some (Inr bss, s')
     \<and> 3 \<le> length (blockCache s')"
proof -
  have card: "{n. \<exists>ns \<in> set [[5], [6], [7 :: int]]. n \<in> set ns \<and> n + 1 \<notin> set ns} = {5, 6, 7}" by auto
  from calls_together_leave_blocks [OF demo_serves _ _ prod.collapse [symmetric], of "[[5], [6], [7]]" "new_AlgorandApi 0", unfolded card]
  show ?thesis by (auto simp: chain_ok_def new_AlgorandApi_def)
qed

end
