(* ===== verification/ApiFlight.thy ===== *)
theory ApiFlight
  imports ApiProps ApiTasks
begin

text \<open>
  Calls of the client in flight at the same time, for any answers of the node: the invariant of the client
  holds after every section of every call, by rely and guarantee over the states of \<open>in_flight\<close>.
\<close>

section \<open>What every section keeps\<close>

text \<open>
  Whatever the node answers: every section of every method keeps the invariant, blocks stay, and a block a
  method returns is one of the client.
\<close>

definition grows :: "'w AlgorandApi \<Rightarrow> 'w AlgorandApi \<Rightarrow> bool" where
  "grows s s' \<longleftrightarrow> length (heap s) \<le> length (heap s')"

interpretation growing: task_round api_wf grows "settles d" for d :: "'w deps"
  by unfold_locales (auto simp: grows_def wf_from_0 wf_from_settles)

definition gives :: "('a \<Rightarrow> 's \<Rightarrow> bool) \<Rightarrow> 'a res \<Rightarrow> 's \<Rightarrow> bool" where
  "gives P r s \<longleftrightarrow> (\<forall>x. r = Inr x \<longrightarrow> P x s)"

lemma gives_simps [simp]: "gives P (Inr x) s = P x s" "gives P (Inl e) s"
  by (simp_all add: gives_def)

abbreviation sound :: "('a \<Rightarrow> 'w AlgorandApi \<Rightarrow> bool) \<Rightarrow> ('w AlgorandApi, 'a) task \<Rightarrow> 'w AlgorandApi \<Rightarrow> bool" where
  "sound P \<equiv> conforms api_wf grows (gives P) \<infinity>"

lemma live_grows: "live b s \<Longrightarrow> grows s s' \<Longrightarrow> live b s'"
  by (simp add: live_def grows_def)

text \<open>What follows a task may rely on the invariant.\<close>

lemma sound_bind:
  assumes "api_wf s" "sound P t s" "\<And>x s. api_wf s \<Longrightarrow> P x s \<Longrightarrow> sound Q (f x) s"
  shows "sound Q (bindT t f) s"
proof -
  have "sound Q (bindT t f) s = conforms api_wf grows (gives Q) (\<infinity> + \<infinity>) (bindT t f) s" by simp
  also have "\<dots>"
    by (rule conforms_bindT, rule conforms_weaken [OF conforms_ok [OF assms(2,1)]])
      (auto simp: assms(3) gives_def split: sum.split)
  finally show ?thesis by simp
qed

lemma sound_catch:
  assumes "api_wf s" "sound P t s" "\<And>e s. api_wf s \<Longrightarrow> sound P (h e) s"
  shows "sound P (catchT t h) s"
proof -
  have "sound P (catchT t h) s = conforms api_wf grows (gives P) (\<infinity> + \<infinity>) (catchT t h) s" by simp
  also have "\<dots>"
    by (rule conforms_catchT, rule conforms_weaken [OF conforms_ok [OF assms(2,1)]])
      (auto simp: assms(3) gives_def split: sum.split)
  finally show ?thesis by simp
qed

lemma sound_atomic:
  fixes s :: "'w AlgorandApi" and m :: "('w, 'a) api"
  assumes m: "\<And>k. triple (\<lambda>s. wf_from k s \<and> R s) m (\<lambda>x s. wf_from k s \<and> P x s) (\<lambda>_. wf_from k)"
    and R: "R s" "\<And>s'. grows s s' \<Longrightarrow> R s'"
  shows "sound P (atomic m) s"
  unfolding atomic_def
proof (subst eSuc_infinity [symmetric], rule waiting)
  fix s' u :: "'w AlgorandApi" and t :: "('w AlgorandApi, 'a) task" assume s': "api_wf s'" "grows s s'"
    and run: "(case m s' of None \<Rightarrow> (diverge, s') | Some (r, v) \<Rightarrow> (Done r, v)) = (t, u)"
  have wf: "wf_from (length (heap s')) s' \<and> R s'" using s' R(2) by (simp add: wf_from_def)
  show "api_wf u \<and> grows s' u \<and> sound P t u"
  proof (cases "m s'")
    case None
    with run have "t = diverge" "u = s'" by auto
    moreover have "sound P diverge u" by (rule conforms_diverge) (rule growing.ext_refl)
    ultimately show ?thesis using s'(1) growing.ext_refl [OF s'(1)] by simp
  next
    case (Some z)
    with run triple_Inr [OF m wf, of "projr (fst z)" u] triple_Inl [OF m wf, of "projl (fst z)" u] show ?thesis
      by (cases z; cases "fst z") (auto simp: wf_from_def grows_def)
  qed
qed

lemma sound_any:
  assumes "\<And>k. triple (wf_from k) m (\<lambda>x s. wf_from k s \<and> P x s) (\<lambda>_. wf_from k)"
  shows "sound P (atomic m) s"
  by (rule sound_atomic [where R = "\<lambda>_. True"]) (use assms in simp_all)

lemma sound_keeps: "(\<And>k. keeps (wf_from k) m) \<Longrightarrow> sound (\<lambda>_ _. True) (atomic m) s"
  by (rule sound_any) simp

lemma sound_weaken: "sound P t s \<Longrightarrow> (\<And>x s. P x s \<Longrightarrow> Q x s) \<Longrightarrow> sound Q t s"
  by (erule conforms_weaken) (auto simp: gives_def)

lemma list_all2_right: "list_all2 (\<lambda>_ y. P y) xs ys \<Longrightarrow> y \<in> set ys \<Longrightarrow> P y"
  by (induction rule: list_all2_induct) auto

lemma sound_all:
  fixes d :: "'w deps"
  assumes "\<And>x y s s'. grows s s' \<Longrightarrow> P x y s \<Longrightarrow> P x y s'" "api_wf s"
    and task: "\<And>x. x \<in> set xs \<Longrightarrow> sound (P x) (f x) s"
  shows "sound (\<lambda>ys s. list_all2 (\<lambda>x y. P x y s) xs ys) (allT (settles d) (map f xs)) s"
proof -
  have "conforms api_wf grows (gives (P (xs ! i))) \<infinity> (map f xs ! i) s" if "i < length (map f xs)" for i
    using that task by simp
  from growing.conforms_allT [of "\<lambda>i. gives (P (xs ! i))", OF _ this \<open>api_wf s\<close>, of d] assms(1)
  have "conforms api_wf grows (\<lambda>r s. case r of
       Inl e \<Rightarrow> \<exists>i < length (map f xs). gives (P (xs ! i)) (Inl e) s
     | Inr ys \<Rightarrow> length ys = length (map f xs) \<and> (\<forall>i < length (map f xs). gives (P (xs ! i)) (Inr (ys ! i)) s))
     (\<Sum>i < length (map f xs). \<infinity>) (allT (settles d) (map f xs)) s"
    by (auto simp: gives_def)
  then show ?thesis
    by (rule conforms_weaken) (auto simp: gives_def list_all2_conv_all_nth split: sum.splits)
qed

lemma getHeaderOnly_t_sound: "api_wf s \<Longrightarrow> sound live (getHeaderOnly_t d h) s"
  unfolding getHeaderOnly_t_def
  by (rule sound_catch, assumption, rule sound_bind, assumption, rule sound_keeps, rule keeps_request,
      rule sound_any, rule triple_constructBlock, simp)

lemma page_section_world: "page_section d h c s = Some (r, u) \<Longrightarrow> \<exists>w. u = s\<lparr>world := w\<rparr>"
proof (induction d h c s rule: page_section.induct)
  case (2 d h result pages s)
  then have "u = s\<lparr>world := world s\<rparr>" by (simp add: iores_def)
  then show ?case by blast
qed (auto simp: request_def iobind_def ioret_def split: prod.splits sum.splits)

lemma wait_section_world: "wait_section d n c s = Some (r, u) \<Longrightarrow> \<exists>w. u = s\<lparr>world := w\<rparr>"
proof (induction d n c s rule: wait_section.induct)
  case (1 d n c s)
  then have "u = s\<lparr>world := delay_do d 1 (world s)\<rparr> \<or> u = s\<lparr>world := world s\<rparr>" by (auto split: if_splits)
  then show ?case by blast
next
  case (3 d n v s)
  then have "u = s\<lparr>world := world s\<rparr>" by simp
  then show ?case by blast
qed (auto simp: request_def iobind_def ioret_def split: prod.splits sum.splits)

lemma sound_loop:
  fixes body :: "'c \<Rightarrow> ('w, 'c + 'a) api"
  assumes "\<And>c s r u. body c s = Some (r, u) \<Longrightarrow> \<exists>w. u = s\<lparr>world := w\<rparr>"
  shows "sound (\<lambda>_ _. True) (loopT body c) s"
proof (rule conforms_loopT [OF growing.ext_refl])
  fix c and s u :: "'w AlgorandApi" and r
  assume s: "api_wf s" and "body c s = Some (r, u)"
  then obtain w where "u = s\<lparr>world := w\<rparr>" using assms by blast
  with s show "api_wf u \<and> grows s u \<and> (case r of Inl e \<Rightarrow> gives (\<lambda>_ _. True) (Inl e) u
      | Inr (Inl c') \<Rightarrow> True | Inr (Inr x) \<Rightarrow> gives (\<lambda>_ _. True) (Inr x) u)"
    by (auto simp: api_wf_def grows_def split: sum.split)
qed

lemma paginated_t_sound: "sound (\<lambda>_ _. True) (paginatedTransactions_t d h tok) s"
  and waitForRound_t_sound: "sound (\<lambda>_ _. True) (waitForRound_t d cur n) s"
  unfolding paginatedTransactions_t_def waitForRound_t_def
  by (rule sound_loop, erule page_section_world) (rule sound_loop, erule wait_section_world)

lemma combine_t_sound:
  assumes "api_wf s"
  shows "sound live (combinePaginateBlock_t d h) s"
  unfolding combinePaginateBlock_t_def
proof (intro sound_catch [OF assms] sound_bind [OF assms])
  have "conforms api_wf grows (\<lambda>r s. case r of Inl e \<Rightarrow> gives live (Inl e) s \<or> gives (\<lambda>_ _. True) (Inl e :: jsval res) s
     | Inr (x, y) \<Rightarrow> gives live (Inr x) s \<and> gives (\<lambda>_ _. True) (Inr y) s) (\<infinity> + \<infinity>)
     (bothT (settles d) (getHeaderOnly_t d h) (paginatedTransactions_t d h JUndef)) s"
    by (rule growing.conforms_bothT [OF getHeaderOnly_t_sound [OF assms] paginated_t_sound assms])
      (auto simp: gives_def live_grows)
  then show "sound (\<lambda>_ _. True) (bothT (settles d) (getHeaderOnly_t d h) (paginatedTransactions_t d h JUndef)) s"
    by (rule conforms_weaken) (auto simp: gives_def)
  fix x s
  show "sound live (case x of (blockHeader, paginatedTransactionsResults) \<Rightarrow> atomic
         (iobind (renameKeys d (JRef blockHeader)) (\<lambda>header.
          iobind (renameKeys d paginatedTransactionsResults) (\<lambda>transactions.
          constructBlock (JObj (obj_put (spread_into [] (spread_props [] header))
            ''transactions'' transactions)))))) s"
    by (cases x) (auto intro!: sound_any triple_bind [OF keeps_renameKeys] triple_constructBlock)
qed simp

lemma getBlockByHeight_t_sound: "api_wf s \<Longrightarrow> sound live (getBlockByHeight_t d h) s"
  unfolding getBlockByHeight_t_def
proof (rule sound_catch, assumption, rule sound_bind, assumption, rule sound_keeps, rule keeps_request, rule sound_any)
  show "triple (wf_from k) (iobind (renameKeys d v) constructBlock) (\<lambda>b s. wf_from k s \<and> live b s) (\<lambda>_. wf_from k)" for k v
    by (rule triple_bind [OF keeps_renameKeys triple_constructBlock])
qed (simp_all add: combine_t_sound)

lemma healthRound_t_sound: "api_wf s \<Longrightarrow> sound (\<lambda>_ _. True) (healthRound_t d) s"
  unfolding healthRound_t_def
  by (rule sound_bind, assumption, rule sound_keeps, rule keeps_request, rule sound_keeps) (auto intro: keepsI)

lemma getLatestBlockHeader_t_sound: "api_wf s \<Longrightarrow> sound live (getLatestBlockHeader_t d) s"
  unfolding getLatestBlockHeader_t_def
  by (rule sound_bind [OF _ healthRound_t_sound getHeaderOnly_t_sound])

lemma keeps_hashInBatch: "keeps (wf_from k) (hashInBatch n blocks)"
  by (rule keepsI) (auto simp: hashInBatch_def readBlock_def io_simps split: option.splits)

lemma getBlockHash_t_sound:
  assumes "api_wf s"
  shows "sound (\<lambda>_ _. True) (getBlockHash_t d n blocks) s"
  unfolding getBlockHash_t_def
proof (rule sound_bind [OF assms])
  show "sound (\<lambda>_ _. True) (atomic (hashInBatch n blocks)) s" by (rule sound_keeps) (rule keeps_hashInBatch)
  fix v and s :: "'a AlgorandApi" assume s: "api_wf s"
  have push: "sound (\<lambda>_ _. True) (atomic (iobind (pushCache b) (\<lambda>_. readBlock b ''previousBlockHash''))) s"
    if "live b s" for b and s :: "'a AlgorandApi"
  proof (rule sound_atomic [where R = "live b"])
    show "triple (\<lambda>s. wf_from k s \<and> live b s) (iobind (pushCache b) (\<lambda>_. readBlock b ''previousBlockHash''))
        (\<lambda>x s. wf_from k s \<and> True) (\<lambda>_. wf_from k)" for k
      by (rule triple_bind [OF triple_pushCache], rule triple_conseq [OF keeps_readBlock]) auto
  qed (use that live_grows in blast)+
  have "sound (\<lambda>_ _. True) (catchT
       (bindT (getBlockByHeight_t d (js_plus1 n)) (\<lambda>fetchedBlock.
        atomic (iobind (pushCache fetchedBlock) (\<lambda>_. readBlock fetchedBlock ''previousBlockHash''))))
       (\<lambda>e. bindT (healthRound_t d) (\<lambda>currentRound.
          if js_geq currentRound (js_plus1 n) then Done (Inl e)
          else bindT (waitForRound_t d currentRound (js_plus1 n))
                 (\<lambda>_. Done (Inl (Error (unable_message n))))))) s"
    by (rule sound_catch [OF s], rule sound_bind [OF s getBlockByHeight_t_sound [OF s]], rule push, assumption,
        rule sound_bind, assumption, rule healthRound_t_sound, assumption)
      (auto intro: sound_bind [OF _ waitForRound_t_sound])
  then show "sound (\<lambda>_ _. True) (case v of
     Some hash \<Rightarrow> Done (Inr hash)
   | None \<Rightarrow> catchT
       (bindT (getBlockByHeight_t d (js_plus1 n)) (\<lambda>fetchedBlock.
        atomic (iobind (pushCache fetchedBlock) (\<lambda>_. readBlock fetchedBlock ''previousBlockHash''))))
       (\<lambda>e. bindT (healthRound_t d) (\<lambda>currentRound.
          if js_geq currentRound (js_plus1 n) then Done (Inl e)
          else bindT (waitForRound_t d currentRound (js_plus1 n))
                 (\<lambda>_. Done (Inl (Error (unable_message n))))))) s"
    by (simp split: option.split)
qed

lemma blocksInCache_live:
  "api_wf s \<Longrightarrow> Some b \<in> set (fst (blocksInCache ns s)) \<Longrightarrow> live b (snd (blocksInCache ns s))"
proof (induction ns arbitrary: s)
  case (Cons n ns)
  obtain c t where c: "blockInCache n s = (c, t)" by (cases "blockInCache n s")
  have t: "api_wf t" using keeps_blockInCache_state [of 0 s n] Cons.prems(1) c by (simp add: wf_from_0)
  have "heap (snd (blocksInCache ns t)) = heap t"
  proof (induction ns arbitrary: t)
    case (Cons m ns)
    then show ?case by (simp add: case_prod_beta' blockInCache_def)
  qed simp
  moreover have "heap t = heap s" using c by (auto simp: blockInCache_def split: prod.splits)
  moreover have "live b s" if "c = Some b"
    using that Cons.prems(1) c cache.fetch_mem [of n s b t] by (simp add: api_wf_def live_def)
  ultimately show ?case using Cons.IH [OF t] Cons.prems(2) c by (auto simp: live_def split: prod.splits)
qed simp

lemma takeCached_sound: "sound (\<lambda>founds s. \<forall>b. Some b \<in> set founds \<longrightarrow> live b s) (atomic (takeCached ns)) s"
proof (rule sound_any, rule tripleI)
  fix k and s s' :: "'a AlgorandApi" and founds
  assume s: "wf_from k s" and run: "takeCached ns s = Some (Inr founds, s')"
  then have "blocksInCache ns s = (founds, s')" by (simp add: takeCached_def split: prod.splits)
  with blocksInCache_wf [OF s, of ns] blocksInCache_live [of s _ ns] s
  show "wf_from k s' \<and> (\<forall>b. Some b \<in> set founds \<longrightarrow> live b s')" by (auto simp: wf_from_def)
qed (simp add: takeCached_def split: prod.splits)

lemma setHash_t_sound:
  assumes "api_wf s" "live b s"
  shows "sound (\<lambda>y s. live (ib_block y) s) (setHash_t d blocks b) s"
  unfolding setHash_t_def
proof (rule sound_bind [OF assms(1)])
  have "sound (\<lambda>_ _. True) (bindT (atomic (readBlock b ''round'')) (\<lambda>n. getBlockHash_t d n blocks)) s"
    by (rule sound_bind [OF assms(1)], rule sound_keeps, rule keeps_readBlock, rule getBlockHash_t_sound)
  then have "conforms api_wf grows (\<lambda>r s. gives (\<lambda>_ _. True) r s \<and> live b s) \<infinity>
      (bindT (atomic (readBlock b ''round'')) (\<lambda>n. getBlockHash_t d n blocks)) s"
    by (rule conforms_frame) (use assms(2) live_grows in blast)+
  then show "sound (\<lambda>_ s. live b s) (bindT (atomic (readBlock b ''round'')) (\<lambda>n. getBlockHash_t d n blocks)) s"
    by (rule conforms_weaken) (auto simp: gives_def)
  fix v and s :: "'a AlgorandApi" assume "live b s"
  then show "sound (\<lambda>y s. live (ib_block y) s)
     (atomic (iobind (writeBlock b ''hash'' v) (\<lambda>_. ioret (formatBlockUtil b)))) s"
  proof (intro sound_atomic [where R = "live b"])
    show "triple (\<lambda>s :: 'a AlgorandApi. wf_from k s \<and> live b s) (iobind (writeBlock b ''hash'' v) (\<lambda>_. ioret (formatBlockUtil b)))
        (\<lambda>y s. wf_from k s \<and> live (ib_block y) s) (\<lambda>_. wf_from k)" for k
    proof (rule tripleI)
      fix s s' :: "'a AlgorandApi" and y assume s: "wf_from k s \<and> live b s"
        and "iobind (writeBlock b ''hash'' v) (\<lambda>_. ioret (formatBlockUtil b)) s = Some (Inr y, s')"
      then have w: "writeBlock b ''hash'' v s = Some (Inr (), s')" and y: "y = formatBlockUtil b"
        by (auto simp: iobind_def ioret_def writeBlock_def)
      from keepsD [OF keeps_writeHash _ w] s have "wf_from k s'" by blast
      moreover have "live b s'" using w s by (auto simp: writeBlock_def live_def)
      ultimately show "wf_from k s' \<and> live (ib_block y) s'" by (simp add: y formatBlockUtil_def)
    qed (auto simp: iobind_def ioret_def writeBlock_def)
  qed (use live_grows in blast)+
qed

lemma fetchOne_t_sound:
  "api_wf s \<Longrightarrow> (\<And>b. snd x = Some b \<Longrightarrow> live b s) \<Longrightarrow> sound live (fetchOne_t d x) s"
  by (cases x; cases "snd x") (auto simp: fetchOne_t_def getBlockByHeight_t_sound)

lemma fetchBlocks_t_sound:
  assumes "api_wf s"
  shows "sound (\<lambda>ys s. \<forall>y \<in> set ys. live (ib_block y) s) (fetchBlocks_t d ns) s"
  unfolding fetchBlocks_t_def
proof (rule sound_bind [OF assms takeCached_sound], rule sound_bind, assumption)
  fix founds and s :: "'a AlgorandApi" assume s: "api_wf s" and founds: "\<forall>b. Some b \<in> set founds \<longrightarrow> live b s"
  have "sound (\<lambda>bs s. list_all2 (\<lambda>_ b. live b s) (zip ns founds) bs) (allT (settles d) (map (fetchOne_t d) (zip ns founds))) s"
    by (rule sound_all [OF live_grows s], assumption, assumption, rule fetchOne_t_sound [OF s])
      (use founds in \<open>auto dest: set_zip_rightD\<close>)
  then show "sound (\<lambda>bs s. \<forall>b \<in> set bs. live b s) (allT (settles d) (map (fetchOne_t d) (zip ns founds))) s"
    by (rule sound_weaken) (blast dest: list_all2_right)
next
  fix bs and s :: "'a AlgorandApi" assume s: "api_wf s" and bs: "\<forall>b \<in> set bs. live b s"
  have "sound (\<lambda>ys s. list_all2 (\<lambda>_ y. live (ib_block y) s) bs ys) (allT (settles d) (map (setHash_t d bs) bs)) s"
    by (rule sound_all [OF live_grows s], assumption, assumption) (use s bs setHash_t_sound in blast)
  then show "sound (\<lambda>ys s. \<forall>y \<in> set ys. live (ib_block y) s) (allT (settles d) (map (setHash_t d bs) bs)) s"
    by (rule sound_weaken) (blast dest: list_all2_right)
qed

lemma safe_getBlock_t_sound:
  assumes "api_wf s"
  shows "sound live (safe_getBlock_t d this) s"
  unfolding safe_getBlock_t_def
proof (rule sound_catch [OF assms], rule sound_bind [OF assms getBlockByHeight_t_sound [OF assms]])
  fix b and s :: "'a AlgorandApi" assume "live b s"
  then show "sound live (atomic (iobind (readBlock b ''round'')
      (\<lambda>n. if \<not> truthy n then iothrow (Error []) else ioret b))) s"
  proof (intro sound_atomic [where R = "live b"])
    show "triple (\<lambda>s. wf_from k s \<and> live b s) (iobind (readBlock b ''round'')
      (\<lambda>n. if \<not> truthy n then iothrow (Error []) else ioret b)) (\<lambda>b s. wf_from k s \<and> live b s) (\<lambda>_. wf_from k)" for k
      by (rule tripleI) (auto simp: readBlock_def iobind_def iothrow_def ioret_def split: if_splits)
  qed (use live_grows in blast)+
qed simp

lemma safe_getTxns_t_sound:
  assumes "api_wf s"
  shows "sound (\<lambda>_ _. True) (safe_getTxns_t d this) s"
  unfolding safe_getTxns_t_def
proof (rule sound_catch [OF assms], rule sound_bind [OF assms getBlockByHeight_t_sound [OF assms]], rule sound_keeps)
  fix b k
  show "keeps (wf_from k) (iobind (readBlock b ''transactions'')
      (\<lambda>txns. if \<not> truthy txns then iothrow (Error []) else ioret txns))"
    by (rule keeps_bind [OF keeps_readBlock]) auto
qed simp

section \<open>Every state with calls in flight\<close>

text \<open>The calls of the services and of project code; a call gives the blocks it returns.\<close>

datatype api_call = ByHeight jsval | HeaderOnly jsval | LatestHeader | Blocks "int list" 
  | SafeBlock SafeAPIService | SafeTxns SafeAPIService

fun api_call_t :: "'w deps \<Rightarrow> api_call \<Rightarrow> ('w AlgorandApi, nat list) task" where
  "api_call_t d (ByHeight h) = bindT (getBlockByHeight_t d h) (\<lambda>b. Done (Inr [b]))"
| "api_call_t d (HeaderOnly h) = bindT (getHeaderOnly_t d h) (\<lambda>b. Done (Inr [b]))"
| "api_call_t d LatestHeader = bindT (getLatestBlockHeader_t d) (\<lambda>b. Done (Inr [b]))"
| "api_call_t d (Blocks ns) = bindT (fetchBlocks_t d ns) (\<lambda>bs. Done (Inr (map ib_block bs)))"
| "api_call_t d (SafeBlock this) = bindT (safe_getBlock_t d this) (\<lambda>b. Done (Inr [b]))"
| "api_call_t d (SafeTxns this) = bindT (safe_getTxns_t d this) (\<lambda>txns. Done (Inr []))"

inductive in_flight :: "'w deps \<Rightarrow> ('w AlgorandApi, nat list) task list \<Rightarrow> 'w AlgorandApi \<Rightarrow> bool" for d where
  flight_created: "indexer_config url_port endpoint config = Inr c \<Longrightarrow> Indexer c = d \<Longrightarrow>
    create Indexer url_port endpoint config w = Inr s \<Longrightarrow> in_flight d [] s"
| flight_outside: "in_flight d ts s \<Longrightarrow> in_flight d ts (s\<lparr>world := w\<rparr>)"
| flight_call: "in_flight d ts s \<Longrightarrow> in_flight d (ts @ [api_call_t d c]) s"
| flight_section: "in_flight d ts s \<Longrightarrow> i < length ts \<Longrightarrow> ts ! i = Await f \<Longrightarrow> f s = (t, s') \<Longrightarrow>
    in_flight d (ts[i := t]) s'"

abbreviation returns_live :: "nat list \<Rightarrow> 'w AlgorandApi \<Rightarrow> bool" where
  "returns_live bs s \<equiv> \<forall>b \<in> set bs. live b s"

lemma api_call_sound: "api_wf s \<Longrightarrow> sound returns_live (api_call_t d c) s"
proof (cases c)
  case (Blocks ns)
  assume s: "api_wf s"
  show ?thesis unfolding Blocks api_call_t.simps by (rule sound_bind [OF s fetchBlocks_t_sound [OF s]]) simp
qed (auto intro!: sound_bind [OF _ getBlockByHeight_t_sound] sound_bind [OF _ getHeaderOnly_t_sound]
       sound_bind [OF _ getLatestBlockHeader_t_sound] sound_bind [OF _ safe_getBlock_t_sound]
       sound_bind [OF _ safe_getTxns_t_sound])

lemma sound_Await:
  "sound P (Await f) s \<longleftrightarrow> (\<forall>s' t u. api_wf s' \<longrightarrow> grows s s' \<longrightarrow> f s' = (t, u) \<longrightarrow> api_wf u \<and> grows s' u \<and> sound P t u)"
  using eSuc_inject [of \<infinity>] by (auto simp: conforms_Await)

lemma call_stays: "sound returns_live t s \<Longrightarrow> api_wf s \<Longrightarrow> grows s s' \<Longrightarrow> sound returns_live t s'"
  by (erule growing.conforms_stable) (auto simp: gives_def intro: live_grows)

lemma in_flight_sound: "in_flight d ts s \<Longrightarrow> api_wf s \<and> (\<forall>t \<in> set ts. sound returns_live t s)"
proof (induction rule: in_flight.induct)
  case (flight_created url_port endpoint config c Indexer w s)
  then show ?case by (simp add: create_wf)
next
  case (flight_outside ts s w)
  have "api_wf (s\<lparr>world := w\<rparr>)" "grows s (s\<lparr>world := w\<rparr>)" using flight_outside.IH by (simp_all add: api_wf_def grows_def)
  with flight_outside.IH call_stays show ?case by blast
next
  case (flight_call ts s c)
  then show ?case by (simp add: api_call_sound)
next
  case (flight_section ts s i f t s')
  then have s: "api_wf s" and "sound returns_live (Await f) s" by (auto dest: nth_mem)
  with flight_section(4) growing.ext_refl [OF s] have s': "api_wf s'" "grows s s'" "sound returns_live t s'"
    by (auto simp: sound_Await)
  have "sound returns_live u s'" if "u \<in> set ts" for u
    using call_stays [OF _ s s'(2)] flight_section.IH that by blast
  with s' show ?case by (auto dest!: set_update_subset_insert [THEN subsetD])
qed

text \<open>
  C5. Whatever the node answers, and however the sections of the calls in flight are ordered, with new calls
  starting at any time: every block of the client keeps its own methods and the transactions that refer to it, every block
  of the cache is one of the client, and so is every block a call returns.
\<close>

theorem in_flight_wf:
  "in_flight d ts s \<Longrightarrow> (\<forall>i < length (heap s). block_wf i (heap s ! i)) \<and> (\<forall>b \<in> set (blockCache s). b < length (heap s))
     \<and> (\<forall>bs. Done (Inr bs) \<in> set ts \<longrightarrow> (\<forall>b \<in> set bs. b < length (heap s)))"
  by (drule in_flight_sound) (fastforce simp: api_wf_def gives_def live_def)

text \<open>A call is answered, a second one overtakes it and returns.\<close>

lemma in_flight_resume:
  "in_flight d ts s \<Longrightarrow> i < length ts \<Longrightarrow> \<not> is_Done (ts ! i) \<Longrightarrow> resume (ts ! i) s = (t, s') \<Longrightarrow> in_flight d (ts[i := t]) s'"
  by (cases "ts ! i") (auto intro: flight_section)

definition demo_answered :: "int \<Rightarrow> (nat AlgorandApi, nat list) task" where
  "demo_answered n = bindT (catchT (atomic (iobind (renameKeys demo_deps (JObj (demo_block n))) constructBlock))
     (\<lambda>error. if js_includes (emessage error) max_transactions_message then combinePaginateBlock_t demo_deps (JNum n)
        else Done (Inl error))) (\<lambda>b. Done (Inr [b]))"

lemma demo_call:
  "0 \<le> n \<Longrightarrow> n \<le> 100 \<Longrightarrow> \<not> is_Done (api_call_t demo_deps (ByHeight (JNum n)))
     \<and> resume (api_call_t demo_deps (ByHeight (JNum n))) s = (demo_answered n, s\<lparr>world := world s + 1\<rparr>)"
  by (simp add: demo_answered_def getBlockByHeight_t_def bindT_def catchT_def atomic_def request_def)

lemma demo_answer:
  assumes "0 \<le> n" "n \<le> 100"
  shows "\<not> is_Done (demo_answered n) \<and> resume (demo_answered n) s = (Done (Inr [length (heap s)]),
     s\<lparr>heap := heap s @ [chain_block demo_deps demo_chain (length (heap s)) n]\<rparr>)"
proof -
  have "reply_ok demo_deps demo_chain n" using demo_serves assms by (simp add: serves_def)
  from construct_reply [OF this, of s] show ?thesis
    by (simp add: demo_answered_def bindT_def catchT_def atomic_def demo_chain_def)
qed

theorem in_flight_wf_witness:
  "\<exists>s. in_flight demo_deps [demo_answered 5, Done (Inr [0])] s
     \<and> heap s = [chain_block demo_deps demo_chain 0 6] \<and> block_wf 0 (heap s ! 0)"
proof -
  let ?s = "(new_AlgorandApi (1::nat))\<lparr>api_genesisHash := JStr ''wGHE'', api_chain := JStr ''mainnet-v1.0''\<rparr>"
  let ?c = "\<lambda>n. api_call_t demo_deps (ByHeight (JNum n))"
  let ?t = "?s\<lparr>world := 2\<rparr>" and ?u = "?s\<lparr>world := 3\<rparr>"
  let ?v = "?u\<lparr>heap := [chain_block demo_deps demo_chain 0 6]\<rparr>"
  have "create (\<lambda>_. demo_deps) (\<lambda>_. Inr ''443'') ''https://node'' (JObj []) 0 = Inr ?s"
    by (simp add: create_def demo_config readGenesis_def demo_block_def js_default_def new_AlgorandApi_def)
  with demo_config have "in_flight demo_deps [] ?s" by (rule flight_created [OF _ refl])
  then have "in_flight demo_deps (([] @ [?c 5]) @ [?c 6]) ?s" by (intro flight_call)
  then have "in_flight demo_deps ((([] @ [?c 5]) @ [?c 6])[0 := demo_answered 5]) ?t"
    by (rule in_flight_resume)
      (use demo_call [of 5 ?s] in \<open>simp_all add: new_AlgorandApi_def del: api_call_t.simps\<close>)
  then have "in_flight demo_deps [demo_answered 5, ?c 6] ?t" by (simp del: api_call_t.simps)
  then have "in_flight demo_deps ([demo_answered 5, ?c 6][1 := demo_answered 6]) ?u"
    by (rule in_flight_resume)
      (use demo_call [of 6 ?t] in \<open>simp_all add: new_AlgorandApi_def del: api_call_t.simps\<close>)
  then have "in_flight demo_deps [demo_answered 5, demo_answered 6] ?u" by (simp del: api_call_t.simps)
  then have "in_flight demo_deps ([demo_answered 5, demo_answered 6][1 := Done (Inr [0])]) ?v"
    by (rule in_flight_resume) (use demo_answer [of 6 ?u] in \<open>simp_all add: new_AlgorandApi_def\<close>)
  then have "in_flight demo_deps [demo_answered 5, Done (Inr [0])] ?v" by simp
  moreover from in_flight_wf [OF this] have "block_wf 0 (heap ?v ! 0)" by simp
  ultimately show ?thesis by (intro exI [of _ ?v]) simp
qed

end
