(* ===== verification/Release.thy ===== *)
theory Release
  imports JsText
begin

text \<open>
  The script that publishes a release, \<^verbatim>\<open>.github/actions/create-release/gh-release-script.js\<close>: it finds
  the notes of a version in a change log and posts them to GitHub. Node's file system, the actions' core
  and octokit's \<open>request\<close> are the record \<open>action\<close>.
\<close>

section \<open>Lines and headings\<close>

text \<open>\<open>s.split(c)\<close> for a single character.\<close>

fun split_at :: "char \<Rightarrow> string \<Rightarrow> string list" where
  "split_at c [] = [[]]"
| "split_at c (x # s) = (if x = c then [] # split_at c s
     else (case split_at c s of [] \<Rightarrow> [[x]] | l # ls \<Rightarrow> (x # l) # ls))"

abbreviation newline :: char where "newline \<equiv> CHR 0x0A"

text \<open>
  \<^verbatim>\<open>/## \[([0-9]+(\.[0-9]+)+)] - [0-9]{4}-[0-9]{2}-[0-9]{2}/i\<close> anywhere in a line. After a run of digits
  only a dot or the closing bracket can match, so the longest run is the only one to try.
\<close>

fun strip :: "string \<Rightarrow> string \<Rightarrow> string option" where
  "strip [] s = Some s"
| "strip (c # p) (x # s) = (if x = c then strip p s else None)"
| "strip (c # p) [] = None"

function strip_numbers :: "bool \<Rightarrow> string \<Rightarrow> string option" where
  "strip_numbers dotted s = (if takeWhile is_digit s = [] then None
     else case dropWhile is_digit s of
       [] \<Rightarrow> (if dotted then Some [] else None)
     | c # t \<Rightarrow> if c = CHR ''.'' then strip_numbers True t else if dotted then Some (c # t) else None)"
  by pat_completeness auto
termination
proof (relation "measure (\<lambda>(dotted, s). length s)")
  fix dotted s c t assume "dropWhile is_digit s = c # t"
  then have "length (c # t) \<le> length s" by (metis length_dropWhile_le)
  then show "((True, t), dotted, s) \<in> measure (\<lambda>(dotted, s). length s)" by simp
qed simp

declare strip_numbers.simps [simp del]

definition date_pattern :: string where
  "date_pattern = ''0000-00-00''"

definition is_date :: "string \<Rightarrow> bool" where
  "is_date s \<longleftrightarrow> list_all2 (\<lambda>p c. if p = CHR ''-'' then c = p else is_digit c) date_pattern s"

definition heading_here :: "string \<Rightarrow> bool" where
  "heading_here s = (case strip ''## ['' s of None \<Rightarrow> False
     | Some t \<Rightarrow> (case strip_numbers False t of None \<Rightarrow> False
     | Some u \<Rightarrow> (case strip ''] - '' u of None \<Rightarrow> False
     | Some v \<Rightarrow> is_date (take 10 v))))"

fun is_heading :: "string \<Rightarrow> bool" where
  "is_heading [] = heading_here []"
| "is_heading (c # s) = (heading_here (c # s) \<or> is_heading s)"

section \<open>The script\<close>

record release_request =
  authorization :: string
  owner :: string
  release_name :: string
  repo :: string
  tag_name :: string
  target_commitish :: string
  body :: string

datatype failure = Message string | Failure js_error

record 's action =
  readFileSync :: "string \<Rightarrow> ('s, string) io"
  setFailed :: "failure \<Rightarrow> ('s, unit) io"
  post_release :: "release_request \<Rightarrow> ('s, unit) io"

text \<open>Whether the process ends here, with the status 0.\<close>

definition checkForBetaVersion :: "string \<Rightarrow> bool" where
  "checkForBetaVersion version = js_includes version ''-''"

text \<open>The lines from the first one that names the version on.\<close>

fun from_version :: "string \<Rightarrow> string list \<Rightarrow> string list" where
  "from_version version [] = []"
| "from_version version (l # ls) = (if js_includes l (''['' @ version @ '']'') then l # ls else from_version version ls)"

fun release_lines :: "string list \<Rightarrow> string list" where
  "release_lines [] = []"
| "release_lines (l # ls) = l # takeWhile (\<lambda>l. \<not> is_heading l) ls"

definition release_text :: "string \<Rightarrow> string \<Rightarrow> string" where
  "release_text version changeLogs =
     concat (map (\<lambda>l. l @ [newline]) (release_lines (from_version version (split_at newline changeLogs))))"

definition no_release_message :: string where
  "no_release_message = ''No release info found, either missing in changelog or changelog is formatted incorrectly''"

definition gatherReleaseInfo :: "'s action \<Rightarrow> string \<Rightarrow> string \<Rightarrow> ('s, string) io" where
  "gatherReleaseInfo A version logPath =
     iobind (readFileSync A logPath) (\<lambda>changeLogs.
       let releaseInfo = release_text version changeLogs in
       if releaseInfo = [] then iobind (setFailed A (Message no_release_message)) (\<lambda>_. ioret releaseInfo)
       else ioret releaseInfo)"

text \<open>\<open>packageName[1]\<close> in a template: the part of the name after its scope.\<close>

definition package_part :: "string \<Rightarrow> string" where
  "package_part repoName = (case split_at (CHR ''/'') repoName of _ # p # _ \<Rightarrow> p | _ \<Rightarrow> ''undefined'')"

definition publishRelease :: "'s action \<Rightarrow> string \<Rightarrow> string \<Rightarrow> string \<Rightarrow> string \<Rightarrow> string \<Rightarrow> ('s, unit) io" where
  "publishRelease A token version repoName commit releaseInfo =
     iocatch (post_release A \<lparr>authorization = ''token '' @ token, owner = ''subquery'',
         release_name = ''['' @ version @ ''] '' @ repoName, repo = ''subql-algorand'',
         tag_name = package_part repoName @ ''/'' @ version, target_commitish = commit, body = releaseInfo\<rparr>)
       (\<lambda>err. setFailed A (Failure err))"

definition gh_release_script :: "'s action \<Rightarrow> string \<Rightarrow> string \<Rightarrow> string \<Rightarrow> string \<Rightarrow> string \<Rightarrow> ('s, unit) io" where
  "gh_release_script A token package_dir commit version repoName =
     (if checkForBetaVersion version then ioret ()
      else iobind (gatherReleaseInfo A version (package_dir @ ''/CHANGELOG.md''))
             (publishRelease A token version repoName commit))"

section \<open>What a heading is\<close>

definition is_version :: "string \<Rightarrow> bool" where
  "is_version v \<longleftrightarrow> (\<exists>ns. 2 \<le> length ns \<and> v = join_with ''.'' ns \<and> (\<forall>n \<in> set ns. n \<noteq> [] \<and> list_all is_digit n))"

lemma strip_Some: "strip p s = Some t \<longleftrightarrow> s = p @ t"
  by (induction p s rule: strip.induct) auto

lemma takeWhile_run:
  "list_all is_digit n \<Longrightarrow> u = [] \<or> \<not> is_digit (hd u) \<Longrightarrow> takeWhile is_digit (n @ u) = n \<and> dropWhile is_digit (n @ u) = u"
  by (cases u) (simp_all add: list_all_iff)

lemma strip_numbers_join:
  "ns \<noteq> [] \<Longrightarrow> \<forall>n \<in> set ns. n \<noteq> [] \<and> list_all is_digit n \<Longrightarrow> dotted \<or> 2 \<le> length ns \<Longrightarrow>
   u = [] \<or> \<not> is_digit (hd u) \<and> hd u \<noteq> CHR ''.'' \<Longrightarrow> strip_numbers dotted (join_with ''.'' ns @ u) = Some u"
proof (induction ns arbitrary: dotted rule: list_nonempty_induct)
  case (single n)
  then have "takeWhile is_digit (n @ u) = n \<and> dropWhile is_digit (n @ u) = u" by (intro takeWhile_run) auto
  with single show ?case by (subst strip_numbers.simps) (auto split: list.split)
next
  case (cons n ns)
  have "\<not> is_digit (CHR ''.'')" by (simp add: is_digit_def)
  then have t: "takeWhile is_digit (n @ CHR ''.'' # v) = n \<and> dropWhile is_digit (n @ CHR ''.'' # v) = CHR ''.'' # v" for v
    using takeWhile_run [of n "CHR ''.'' # v"] cons.prems by simp
  have "join_with ''.'' (n # ns) = n @ CHR ''.'' # join_with ''.'' ns" using cons.hyps by (cases ns) simp_all
  with t cons show ?case by (subst strip_numbers.simps) simp
qed

lemma strip_numbers_Some:
  "strip_numbers dotted s = Some u \<Longrightarrow> \<exists>ns. ns \<noteq> [] \<and> (dotted \<or> 2 \<le> length ns)
     \<and> (\<forall>n \<in> set ns. n \<noteq> [] \<and> list_all is_digit n) \<and> s = join_with ''.'' ns @ u"
proof (induction dotted s rule: strip_numbers.induct)
  case (1 dotted s)
  let ?n = "takeWhile is_digit s"
  have n: "?n \<noteq> []" and run: "list_all is_digit ?n" "s = ?n @ dropWhile is_digit s"
    using "1.prems" by (auto simp: strip_numbers.simps [of dotted s] list_all_iff dest: set_takeWhileD split: if_splits)
  show ?case
  proof (cases "\<exists>t. dropWhile is_digit s = CHR ''.'' # t")
    case True
    then obtain t where t: "dropWhile is_digit s = CHR ''.'' # t" by blast
    with "1.prems" n have "strip_numbers True t = Some u" by (simp add: strip_numbers.simps [of dotted s])
    with "1.IH" [OF n t refl] obtain ns where ns: "ns \<noteq> []" "\<forall>n \<in> set ns. n \<noteq> [] \<and> list_all is_digit n"
      "t = join_with ''.'' ns @ u" by blast
    then have "s = join_with ''.'' (?n # ns) @ u" using run(2) t by (cases ns) simp_all
    moreover have "2 \<le> length (?n # ns)" using ns(1) by (cases ns) simp_all
    ultimately show ?thesis using ns n run(1) by (intro exI [of _ "?n # ns"]) simp
  next
    case False
    with "1.prems" n have "dotted" "dropWhile is_digit s = u"
      by (auto simp: strip_numbers.simps [of dotted s] split: list.splits if_splits)
    with n run show ?thesis by (intro exI [of _ "[?n]"]) simp
  qed
qed

lemma is_date_length: "is_date y \<Longrightarrow> length y = 10"
  by (auto simp: is_date_def date_pattern_def dest: list_all2_lengthD)

lemma heading_here_iff:
  "heading_here s \<longleftrightarrow> (\<exists>v y r. s = ''## ['' @ v @ ''] - '' @ y @ r \<and> is_version v \<and> is_date y)"
proof
  assume "heading_here s"
  then obtain t u w where s: "s = ''## ['' @ t" and t: "strip_numbers False t = Some u" and u: "u = ''] - '' @ w"
    and w: "is_date (take 10 w)" by (auto simp: heading_here_def strip_Some split: option.splits)
  from strip_numbers_Some [OF t] obtain ns where "2 \<le> length ns" "\<forall>n \<in> set ns. n \<noteq> [] \<and> list_all is_digit n"
    "t = join_with ''.'' ns @ u" by auto
  then have "is_version (join_with ''.'' ns)" "s = ''## ['' @ join_with ''.'' ns @ ''] - '' @ take 10 w @ drop 10 w"
    using s u by (auto simp: is_version_def)
  with w show "\<exists>v y r. s = ''## ['' @ v @ ''] - '' @ y @ r \<and> is_version v \<and> is_date y" by blast
next
  assume "\<exists>v y r. s = ''## ['' @ v @ ''] - '' @ y @ r \<and> is_version v \<and> is_date y"
  then obtain ns y r where s: "s = ''## ['' @ join_with ''.'' ns @ ''] - '' @ y @ r" and y: "is_date y"
    and ns: "2 \<le> length ns" "\<forall>n \<in> set ns. n \<noteq> [] \<and> list_all is_digit n" by (auto simp: is_version_def)
  have "strip_numbers False (join_with ''.'' ns @ ''] - '' @ y @ r) = Some (''] - '' @ y @ r)"
    by (rule strip_numbers_join) (use ns in \<open>auto simp: is_digit_def\<close>)
  moreover have "take 10 (y @ r) = y" using is_date_length [OF y] by simp
  moreover have "strip p (p @ x) = Some x" for p x :: string by (simp add: strip_Some)
  ultimately show "heading_here s" using y unfolding heading_here_def s by simp
qed

lemma is_heading_suffix: "is_heading l \<longleftrightarrow> (\<exists>p s. l = p @ s \<and> heading_here s)"
proof (induction l)
  case (Cons c l)
  have "(\<exists>p s. c # l = p @ s \<and> heading_here s) \<longleftrightarrow> heading_here (c # l) \<or> (\<exists>p s. l = p @ s \<and> heading_here s)"
    by (simp add: Cons_eq_append_conv) blast
  with Cons.IH show ?case by simp
qed simp

lemma is_heading_iff:
  "is_heading l \<longleftrightarrow> (\<exists>p v y r. l = p @ ''## ['' @ v @ ''] - '' @ y @ r \<and> is_version v \<and> is_date y)"
  by (simp only: is_heading_suffix heading_here_iff) blast

section \<open>A change log\<close>

text \<open>A change log as it is written: some lines, then a section per version, with the lines of its notes.\<close>

definition heading_line :: "string \<Rightarrow> string \<Rightarrow> string" where
  "heading_line v day = ''## ['' @ v @ ''] - '' @ day"

fun section_lines :: "string \<times> string \<times> string list \<Rightarrow> string list" where
  "section_lines (v, day, notes) = heading_line v day # notes"

definition changelog :: "string list \<Rightarrow> (string \<times> string \<times> string list) list \<Rightarrow> string" where
  "changelog intro secs = join_with [newline] (intro @ concat (map section_lines secs))"

lemma split_at_line: "newline \<notin> set l \<Longrightarrow> split_at newline l = [l]"
  by (induction l) auto

lemma split_at_first: "newline \<notin> set l \<Longrightarrow> split_at newline (l @ newline # s) = l # split_at newline s"
  by (induction l) auto

lemma split_at_join: "ls \<noteq> [] \<Longrightarrow> \<forall>l \<in> set ls. newline \<notin> set l \<Longrightarrow> split_at newline (join_with [newline] ls) = ls"
  by (induction "[newline]" ls rule: join_with.induct) (simp_all add: split_at_line split_at_first)

definition version_char :: "char \<Rightarrow> bool" where
  "version_char c \<longleftrightarrow> is_digit c \<or> c = CHR ''.''"

lemma version_chars: "is_version v \<Longrightarrow> list_all version_char v"
proof -
  have "list_all version_char (join_with ''.'' ns)" if "\<forall>n \<in> set ns. list_all is_digit n" for ns
    using that by (induction "''.''" ns rule: join_with.induct) (auto simp: version_char_def list_all_iff)
  then show "is_version v \<Longrightarrow> list_all version_char v" by (auto simp: is_version_def)
qed

lemma version_char_not [simp]:
  "\<not> version_char (CHR ''['')" "\<not> version_char (CHR '']'')" "\<not> version_char (CHR ''-'')" "\<not> version_char newline"
  by (simp_all add: version_char_def is_digit_def)

lemma date_chars: "is_date y \<Longrightarrow> c \<in> set y \<Longrightarrow> is_digit c \<or> c = CHR ''-''"
  by (auto simp: is_date_def list_all2_conv_all_nth in_set_conv_nth split: if_splits)

text \<open>A heading names its own version and no other.\<close>

lemma heading_names:
  assumes "is_version v" "is_version w" "is_date day"
  shows "js_includes (heading_line w day) (''['' @ v @ '']'') \<longleftrightarrow> v = w"
proof
  assume "js_includes (heading_line w day) (''['' @ v @ '']'')"
  then obtain p r where "heading_line w day = p @ ''['' @ v @ '']'' @ r" by (auto simp: js_includes_iff)
  then have eq: "''## '' @ CHR ''['' # w @ ''] - '' @ day = p @ CHR ''['' # v @ CHR '']'' # r"
    by (simp add: heading_line_def)
  have "CHR ''['' \<notin> set (''## '')" by simp
  moreover have "CHR ''['' \<notin> set (w @ ''] - '' @ day)"
    using version_chars [OF assms(2)] date_chars [OF assms(3), of "CHR ''[''"]
    by (auto simp: list_all_iff is_digit_def version_char_def)
  ultimately have "w @ CHR '']'' # '' - '' @ day = v @ CHR '']'' # r"
    using eq append_Cons_eq_iff [of "CHR ''[''" "''## ''" "w @ ''] - '' @ day" p "v @ CHR '']'' # r"] by simp
  moreover have "CHR '']'' \<notin> set w" "CHR '']'' \<notin> set ('' - '' @ day)"
    using version_chars [OF assms(2)] date_chars [OF assms(3), of "CHR '']''"]
    by (auto simp: list_all_iff version_char_def is_digit_def)
  ultimately show "v = w" using append_Cons_eq_iff [of "CHR '']''" w "'' - '' @ day" v r] by simp
next
  assume "v = w"
  then show "js_includes (heading_line w day) (''['' @ v @ '']'')"
    unfolding js_includes_iff heading_line_def by (intro exI [of _ "''## ''"] exI [of _ "'' - '' @ day"]) simp
qed

lemma heading_lines:
  assumes "is_version w" "is_date day"
  shows "is_heading (heading_line w day)" "newline \<notin> set (heading_line w day)"
proof -
  show "is_heading (heading_line w day)"
    unfolding is_heading_iff heading_line_def using assms by (intro exI [of _ "[]"] exI [of _ w] exI [of _ day]) simp
  show "newline \<notin> set (heading_line w day)"
    using version_chars [OF assms(1)] date_chars [OF assms(2), of newline]
    by (auto simp: heading_line_def list_all_iff is_digit_def version_char_def)
qed

text \<open>
  A change log that is well formed for a version: versions and dates are such, the version has one section,
  nothing else names it before that section, and its notes have no line that looks like a heading.
\<close>

definition sections_ok :: "(string \<times> string \<times> string list) list \<Rightarrow> bool" where
  "sections_ok secs \<longleftrightarrow> (\<forall>(w, day, entries) \<in> set secs. is_version w \<and> is_date day \<and> (\<forall>l \<in> set entries. newline \<notin> set l))"

lemma sections_okD:
  "sections_ok secs \<Longrightarrow> (w, day, ls) \<in> set secs \<Longrightarrow> is_version w \<and> is_date day \<and> (\<forall>l \<in> set ls. newline \<notin> set l)"
  by (auto simp: sections_ok_def)

definition unmentioned :: "string \<Rightarrow> string list \<Rightarrow> bool" where
  "unmentioned v ls \<longleftrightarrow> (\<forall>l \<in> set ls. \<not> js_includes l (''['' @ v @ '']''))"

lemma from_version_skip: "unmentioned v ls \<Longrightarrow> from_version v (ls @ ms) = from_version v ms"
  by (induction ls) (auto simp: unmentioned_def)

lemma unmentioned_append: "unmentioned v (ls @ ms) \<longleftrightarrow> unmentioned v ls \<and> unmentioned v ms"
  by (auto simp: unmentioned_def)

lemma section_found:
  assumes secs: "sections_ok (before @ (v, day, entries) # after)" and intro: "\<forall>l \<in> set intro. newline \<notin> set l"
    and none: "unmentioned v (intro @ concat (map (snd \<circ> snd) before))" "v \<notin> fst ` set before"
    and entries: "\<forall>l \<in> set entries. \<not> is_heading l"
  shows "release_text v (changelog intro (before @ (v, day, entries) # after))
    = concat (map (\<lambda>l. l @ [newline]) (section_lines (v, day, entries)))"
proof -
  let ?old = "intro @ concat (map section_lines before)" and ?new = "concat (map section_lines after)"
  let ?lines = "?old @ heading_line v day # entries @ ?new"
  have v: "is_version v" "is_date day" using secs by (auto simp: sections_ok_def)
  have heads: "is_heading (heading_line w y)" "newline \<notin> set (heading_line w y)" "\<forall>l \<in> set ls. newline \<notin> set l"
    if "(w, y, ls) \<in> set (before @ (v, day, entries) # after)" for w y ls
    using sections_okD [OF secs that] heading_lines [of w y] by simp_all
  have lines: "?lines = intro @ concat (map section_lines (before @ (v, day, entries) # after))" by simp
  have "newline \<notin> set l" if "sec \<in> set (before @ (v, day, entries) # after)" "l \<in> set (section_lines sec)" for l sec
  proof -
    obtain w y ls where "sec = (w, y, ls)" by (cases sec)
    with that heads [of w y ls] show ?thesis by auto
  qed
  then have "\<forall>l \<in> set ?lines. newline \<notin> set l"
    unfolding lines set_append set_concat set_map using intro by blast
  then have split: "split_at newline (changelog intro (before @ (v, day, entries) # after)) = ?lines"
    by (simp add: changelog_def split_at_join)
  have "unmentioned v (concat (map section_lines before))"
    unfolding unmentioned_def
  proof (intro ballI notI)
    fix l assume "l \<in> set (concat (map section_lines before))" and inc: "js_includes l (''['' @ v @ '']'')"
    then obtain w y ls where sec: "(w, y, ls) \<in> set before" and l: "l = heading_line w y \<or> l \<in> set ls" by auto
    then have "(w, y, ls) \<in> set (before @ (v, day, entries) # after)" "v \<noteq> w" using none(2) by force+
    with sections_okD [OF secs] have "is_version w" "is_date y" "v \<noteq> w" by blast+
    with l inc heading_names [OF v(1)] have "l \<in> set ls" by blast
    with sec none(1) inc show False by (force simp: unmentioned_def)
  qed
  with none(1) have "unmentioned v ?old" by (simp add: unmentioned_append)
  then have "from_version v ?lines = heading_line v day # entries @ ?new"
    using heading_names [OF v(1) v] by (simp add: from_version_skip del: append_assoc)
  moreover have "takeWhile (\<lambda>l. \<not> is_heading l) (entries @ ?new) = entries"
  proof (cases after)
    case Nil
    with entries show ?thesis by (simp add: takeWhile_eq_all_conv)
  next
    case (Cons sec secs')
    with heads [of "fst sec" "fst (snd sec)" "snd (snd sec)"] entries show ?thesis by (cases sec) simp
  qed
  ultimately show ?thesis by (simp add: release_text_def split)
qed

section \<open>What the script does\<close>

text \<open>A file system of texts, and a log of what is read, posted and reported.\<close>

datatype release_event = ReadFile string | SetFailed failure | Post release_request

definition log_action :: "(string \<Rightarrow> string) \<Rightarrow> (release_request \<Rightarrow> js_error option) \<Rightarrow> release_event list action" where
  "log_action files fails = \<lparr>
     readFileSync = (\<lambda>path trace. Some (Inr (files path), trace @ [ReadFile path])),
     setFailed = (\<lambda>f trace. Some (Inr (), trace @ [SetFailed f])),
     post_release = (\<lambda>r trace. Some (case fails r of None \<Rightarrow> Inr () | Some e \<Rightarrow> Inl e, trace @ [Post r]))\<rparr>"

definition release_of :: "string \<Rightarrow> string \<Rightarrow> string \<Rightarrow> string \<Rightarrow> string \<Rightarrow> release_request" where
  "release_of token commit version repoName text =
     \<lparr>authorization = ''token '' @ token, owner = ''subquery'', release_name = ''['' @ version @ ''] '' @ repoName,
      repo = ''subql-algorand'', tag_name = package_part repoName @ ''/'' @ version, target_commitish = commit, body = text\<rparr>"

lemma script_run:
  "gh_release_script (log_action files fails) token dir commit version repoName trace =
     (if js_includes version ''-'' then Some (Inr (), trace)
      else let path = dir @ ''/CHANGELOG.md''; info = release_text version (files path);
             r = release_of token commit version repoName info in
        Some (Inr (), trace @ [ReadFile path] @ (if info = [] then [SetFailed (Message no_release_message)] else [])
          @ [Post r] @ (case fails r of None \<Rightarrow> [] | Some e \<Rightarrow> [SetFailed (Failure e)])))"
  by (simp add: gh_release_script_def checkForBetaVersion_def gatherReleaseInfo_def publishRelease_def log_action_def
      release_of_def Let_def iobind_def iocatch_def ioret_def split: option.split)

lemma version_no_dash: "is_version v \<Longrightarrow> \<not> js_includes v ''-''"
  by (drule version_chars) (auto simp: js_includes_iff)

text \<open>
  C36. The notes that are posted for a version of a well-formed change log are the section of that version as it
  was written, heading included, under the name and the tag of the package; nothing else is posted, and a
  request that is refused is reported.
\<close>

theorem release_posts_section:
  assumes "sections_ok (before @ (v, day, entries) # after)" "\<forall>l \<in> set intro. newline \<notin> set l"
    and "unmentioned v (intro @ concat (map (snd \<circ> snd) before))" "v \<notin> fst ` set before" "\<forall>l \<in> set entries. \<not> is_heading l"
    and "files (dir @ ''/CHANGELOG.md'') = changelog intro (before @ (v, day, entries) # after)"
  shows "\<exists>r. body r = concat (map (\<lambda>l. l @ [newline]) (heading_line v day # entries))
    \<and> tag_name r = package_part repoName @ ''/'' @ v \<and> release_name r = ''['' @ v @ ''] '' @ repoName
    \<and> gh_release_script (log_action files fails) token dir commit v repoName []
        = Some (Inr (), [ReadFile (dir @ ''/CHANGELOG.md''), Post r] @ (case fails r of None \<Rightarrow> [] | Some e \<Rightarrow> [SetFailed (Failure e)]))"
proof -
  let ?info = "concat (map (\<lambda>l. l @ [newline]) (heading_line v day # entries))"
  have v: "is_version v" using assms(1) by (auto simp: sections_ok_def)
  have "release_text v (files (dir @ ''/CHANGELOG.md'')) = ?info"
    unfolding assms(6) using section_found [OF assms(1-5)] by simp
  moreover have "?info \<noteq> []" by simp
  ultimately show ?thesis
    using version_no_dash [OF v]
    by (intro exI [of _ "release_of token commit v repoName ?info"]) (simp add: script_run Let_def release_of_def)
qed

definition demo_sections :: "(string \<times> string \<times> string list) list" where
  "demo_sections = [(''4.0.6'', ''2025-11-12'', [''### Fixed'', ''- Cache mutation'', []]), (''4.0.5'', ''2025-11-05'', [''### Changed''])]"

lemma demo_sections_ok: "sections_ok demo_sections"
proof -
  have "is_version ''4.0.6''" unfolding is_version_def by (intro exI [of _ "[''4'', ''0'', ''6'']"]) (simp add: is_digit_def)
  moreover have "is_version ''4.0.5''" unfolding is_version_def by (intro exI [of _ "[''4'', ''0'', ''5'']"]) (simp add: is_digit_def)
  moreover have "is_date ''2025-11-12''" "is_date ''2025-11-05''" by code_simp+
  ultimately show ?thesis by (simp add: sections_ok_def demo_sections_def)
qed

theorem release_posts_section_witness:
  "\<exists>r. body r = concat (map (\<lambda>l. l @ [newline]) [''## [4.0.5] - 2025-11-05'', ''### Changed''])
    \<and> gh_release_script (log_action (\<lambda>_. changelog [''# Changelog'', ''## [Unreleased]'', []] demo_sections) (\<lambda>_. None))
        ''secret'' ''packages/node'' ''0abc'' ''4.0.5'' ''@subql/node-algorand'' []
      = Some (Inr (), [ReadFile ''packages/node/CHANGELOG.md'', Post r])"
proof -
  let ?old = "[(''4.0.6'', ''2025-11-12'', [''### Fixed'', ''- Cache mutation'', []])]"
  have secs: "demo_sections = ?old @ (''4.0.5'', ''2025-11-05'', [''### Changed'']) # []" by (simp add: demo_sections_def)
  have "unmentioned ''4.0.5'' ([''# Changelog'', ''## [Unreleased]'', []] @ concat (map (snd \<circ> snd) ?old))"
    "\<forall>l \<in> set [''### Changed'']. \<not> is_heading l" by code_simp+
  from release_posts_section [OF demo_sections_ok [unfolded secs] _ this(1) _ this(2),
      of "\<lambda>_. changelog [''# Changelog'', ''## [Unreleased]'', []] demo_sections" "''packages/node''" "''@subql/node-algorand''" "\<lambda>_. None" "''secret''" "''0abc''"]
  show ?thesis by (auto simp: secs heading_line_def)
qed

text \<open>
  C37. A release is published without notes: for a version the change log does not name, the run is marked as
  failed, and the release is posted all the same, with an empty text. A version with a hyphen posts nothing.
\<close>

theorem release_without_notes:
  assumes "unmentioned v (split_at newline (files (dir @ ''/CHANGELOG.md'')))"
  shows "\<exists>r. body r = [] \<and> tag_name r = package_part repoName @ ''/'' @ v
    \<and> gh_release_script (log_action files fails) token dir commit v repoName [] = Some (Inr (),
        if js_includes v ''-'' then []
        else [ReadFile (dir @ ''/CHANGELOG.md''), SetFailed (Message no_release_message), Post r]
          @ (case fails r of None \<Rightarrow> [] | Some e \<Rightarrow> [SetFailed (Failure e)]))"
proof -
  have "release_text v (files (dir @ ''/CHANGELOG.md'')) = []"
    using from_version_skip [OF assms, of "[]"] by (simp add: release_text_def)
  then show ?thesis
    by (intro exI [of _ "release_of token commit v repoName []"]) (simp add: script_run Let_def release_of_def)
qed

theorem release_without_notes_witness:
  "\<exists>r. body r = [] \<and> gh_release_script (log_action (\<lambda>_. ''# Changelog'') (\<lambda>_. None)) ''secret'' ''packages/node'' ''0abc'' ''4.0.7'' ''@subql/node-algorand'' []
     = Some (Inr (), [ReadFile ''packages/node/CHANGELOG.md'', SetFailed (Message no_release_message), Post r])"
proof -
  have "unmentioned ''4.0.7'' (split_at newline ''# Changelog'')" "\<not> js_includes ''4.0.7'' ''-''" by code_simp+
  with release_without_notes [of "''4.0.7''" "\<lambda>_. ''# Changelog''" "''packages/node''" "''@subql/node-algorand''" "\<lambda>_. None" "''secret''" "''0abc''"]
  show ?thesis by auto
qed

end
