(* ===== verification/Spec2Isabelle.thy ===== *)
theory Spec2Isabelle
  imports Startup Skipping NestModules ApiOverlap ApiFlight Release
begin

text \<open>
  A model of the SubQuery indexer for Algorand (the packages \<^verbatim>\<open>node\<close>,
  \<^verbatim>\<open>common-algorand\<close> and \<^verbatim>\<open>types\<close> under
  \<^verbatim>\<open>src/packages\<close>).

  \<^bold>\<open>The program.\<close> A project names datasources; a datasource has handlers, each for blocks or for
  transactions, each with a filter. The node asks dictionaries for the rounds worth indexing, fetches
  blocks of these rounds from an indexer node over HTTP, and hands each block and each of its
  transactions to the handlers whose filter lets it pass. A handler may ask an API bound to its round
  for the block again. Most of the machinery (scheduling, workers, the database, dependency injection) is
  the library node-core; the code under \<^verbatim>\<open>src/\<close> is what is particular to Algorand,
  and what node-core calls.

  \<^bold>\<open>Theories and what they model.\<close>

  \<^item> \<open>Prelude\<close>: exceptions as values (\<open>'a res\<close>), asynchronous code (\<open>('s, 'a) io\<close>: a function of
    a state that settles with a value or a rejection and a state, or never, \<open>None\<close>), \<open>Promise.all\<close>
    (\<open>ioall\<close>, \<open>ioboth\<close>) under an event loop that picks the task that settles next, and Hoare triples for
    invariants. \<open>Tasks\<close>: asynchronous code as the sequence of its sections from one \<open>await\<close> to the next (a
    codatatype, for code that may go on for ever), \<open>Promise.all\<close> over tasks whose sections interleave, and the
    rules of rely and guarantee for them.
  \<^item> \<open>JsValue\<close>, \<open>JsText\<close>, \<open>JsJson\<close>: the JavaScript the code computes with. Values, objects as lists of
    properties in insertion order and their enumeration order, coercions, \<open>parseInt\<close>, \<open>JSON.stringify\<close>.
  \<^item> \<open>Interfaces\<close>: \<^verbatim>\<open>types/src/interfaces.ts\<close>, a record per interface.
    \<open>ProjectTypes\<close>: \<^verbatim>\<open>types/src/project.ts\<close>,
    \<^verbatim>\<open>common-algorand/src/project/utils.ts\<close>,
    \<^verbatim>\<open>node/src/utils/project.ts\<close>.
  \<^item> \<open>Filters\<close> (the functions) and \<open>FilterSpec\<close> (their meaning): \<open>filterTransaction\<close>, \<open>filterBlock\<close> and
    their helpers in \<^verbatim>\<open>node/src/algorand/utils.algorand.ts\<close>. \<open>BlockUtils\<close>: the headers
    and the renaming of keys of the same file.
  \<^item> \<open>AlgorandApi\<close>: the classes \<open>AlgorandApi\<close> and \<open>SafeAPIService\<close> of
    \<^verbatim>\<open>node/src/algorand/api.algorand.ts\<close>. The record \<open>AlgorandApi\<close> is the object with its
    cache; its field \<open>heap\<close> holds the block objects, which the code shares and writes to, and \<open>world\<close> is
    everything outside. \<open>ApiFacts\<close> has the invariant of that state, \<open>ApiChain\<close> a node that serves a chain
    and the runs of \<open>fetchBlocks\<close> on it, \<open>ApiProps\<close> and \<open>ApiSafe\<close> the properties of the methods. \<open>ApiTasks\<close> has
    the same methods as tasks (\<open>fetchBlocks_t\<close> for \<open>fetchBlocks\<close>), for calls that overlap: \<open>ApiOverlap\<close> on a
    chain, \<open>ApiFlight\<close> for any answers of the node.
  \<^item> \<open>Connection\<close>: \<^verbatim>\<open>node/src/algorand/api.connection.ts\<close> and
    \<^verbatim>\<open>api.service.algorand.ts\<close>.
  \<^item> \<open>Indexing\<close>: \<^verbatim>\<open>node/src/indexer/indexer.manager.ts\<close> and
    \<^verbatim>\<open>types.ts\<close>. \<open>Services\<close>: \<^verbatim>\<open>node/src/blockchain.service.ts\<close> and
    \<^verbatim>\<open>indexer/worker/worker.service.ts\<close>. \<open>Pipeline\<close>: the way of a block through
    them.
  \<^item> \<open>Dictionary\<close>: \<^verbatim>\<open>node/src/indexer/dictionary/v1/algorandDictionaryV1.ts\<close> and
    \<^verbatim>\<open>algorandDictionary.service.ts\<close>.
    \<open>Skipping\<close>: the rounds a worker takes with a dictionary, from the queries to the handlers.
  \<^item> \<open>Manifest\<close>: the classes of \<^verbatim>\<open>common-algorand/src/project\<close>, the versions of a
    manifest and its loading.
  \<^item> \<open>Commands\<close>: \<^verbatim>\<open>node/src/subcommands/forceClean.service.ts\<close>,
    \<^verbatim>\<open>testing.service.ts\<close>, \<^verbatim>\<open>node/src/configure/SubqueryProject.ts\<close>.
    \<open>Startup\<close>: \<^verbatim>\<open>main.ts\<close>, \<^verbatim>\<open>init.ts\<close>, \<^verbatim>\<open>yargs.ts\<close>,
    \<^verbatim>\<open>indexer/worker/worker.ts\<close>, \<^verbatim>\<open>configure/configure.module.ts\<close> and
    the subcommands' entry points. \<open>NestModules\<close>: the NestJS modules of these programs.
    \<open>Release\<close>: \<^verbatim>\<open>.github/actions/create-release/gh-release-script.js\<close>, the script that publishes a
    release.

  A definition has the name of the function, method or type it models; a helper without a counterpart of
  its own models the lines of an expression in one.

  \<^bold>\<open>What the theorems show.\<close> \<open>FilterSpec\<close>: on typed transactions and filters the path-driven filter
  is a conjunction of field comparisons, and where it is not what its documentation says (arguments
  of a transaction without any, types without a row, the sender of an asset freeze). \<open>Dictionary\<close>: no
  transaction a handler would see, of a runtime or a custom datasource, is missed by the queries, which are
  pairwise different. \<open>ApiFacts\<close>: an
  invariant of the client for any answers of the node, by induction over the steps of \<open>api_reach\<close>.
  \<open>ApiChain\<close>, \<open>ApiProps\<close>: on a node that serves a chain, the client refines that chain for any
  settling order of its requests; pagination settles exactly when the node's pages end; what the waiting
  loop and blocks over the limit come to; which rounds the cache holds. \<open>ApiOverlap\<close>: overlapping calls of
  \<open>fetchBlocks\<close> all end with the right blocks, whatever the order of their sections, and when they are started
  together the cache keeps blocks that later calls do not take out. \<open>ApiFlight\<close>: the invariant
  after every section of every call in flight, over the steps of \<open>in_flight\<close>. \<open>ApiTasks\<close>: with nothing else
  running, the tasks of the requests and of the two loops are the methods. \<open>ApiSafe\<close>: the cyclic blocks can be printed. \<open>Connection\<close>:
  the classes of errors, the endpoints a project accepts. \<open>Indexing\<close>, \<open>Services\<close>, \<open>Pipeline\<close>: the calls
  a block is owed, the headers of the services, which handlers run on what, from the chain to the log.
  \<open>Skipping\<close>: the rounds a dictionary lists run the same handlers as all rounds do, over a chain of transactions whose
  types the filters know (\<open>known_tx\<close>), for a project as \<open>dictionary_project\<close> says, none of whose filters throws on
  the chain (\<open>filters_quiet\<close>, as for \<open>Pipeline\<close>; a filter on arguments can).
  \<open>Manifest\<close>, \<open>Commands\<close>, \<open>Startup\<close>: what is accepted and what is called in which order; \<open>NestModules\<close>: what
  the programs leave to the libraries, whose modules (\<open>lib\<close>) and constructors (\<open>asks\<close>) are parameters. \<open>Release\<close>: the notes that are posted are the section of the version. Each locale is the
  contract between two components, interpreted where the model provides it: \<open>block_cache\<close> (the cache of the
  client), \<open>task_round\<close> (tasks and sections that only extend a state, for the chain and for the invariant),
  \<open>cache_growth\<close> (how the cache may change between two sections: in any way, or only growing), \<open>block_source\<close> (fetching, for the services) and
  \<open>handler_filters\<close> (the two tables of filters).

  \<^bold>\<open>Third-party code\<close> is a parameter of the definitions that use it: algosdk's requests and the texts of
  its \<open>TransactionType\<close>, lodash's \<open>get\<close>, \<open>camelCase\<close>, \<open>omit\<close>, \<open>sortBy\<close>, \<open>uniqBy\<close>, node-core's \<open>delay\<close>,
  \<open>filterBlockTimestamp\<close>, \<open>indexData\<close>, \<open>internalIndexBlock\<close>, class-validator, js-yaml, the database, NestJS.
  What a theorem relies on is a hypothesis with a name (\<open>lodash_get_contract\<close>, \<open>omit_ok\<close>, \<open>sortBy_ok\<close>,
  \<open>uniqBy_ok\<close>, \<open>cv_ok\<close>, \<open>runs_handlers\<close>, \<open>handlers_read\<close>, \<open>scheduled\<close>, \<open>serves\<close>), and its witness instantiates it with a function.

  \<^bold>\<open>Bounds and limits of the model.\<close> Numbers are unbounded integers or \<open>NaN\<close>: the rounds,
  identifiers and times the code computes with are integers a double holds exactly; fractions and integers
  beyond 2^53 are not modelled. A character is a code unit up to U+00FF. Recursion over a value takes the
  depth of the call stack (\<open>callStack\<close>), and exceeding it is a \<open>RangeError\<close>; the theorems that need the
  depth of a reply to fit say so. A lookup in an object literal of the code finds
  its own keys only: a transaction whose type is the name of a property of \<open>Object.prototype\<close>, like
  \<open>constructor\<close>, is taken for one of an unknown type. The two loops that may run for ever, \<open>paginatedTransactions\<close> and
  \<open>waitForRound\<close>, are partial functions, and not settling is \<open>None\<close>. In \<open>AlgorandApi\<close> and
  what is built on it a task of a \<open>Promise.all\<close> takes its effects at the moment it settles, in any order of the tasks;
  in \<open>ApiTasks\<close> the order is that of sections, a section ends at every \<open>await\<close> and at places more, and any
  number of calls are in flight. A rejected \<open>Promise.all\<close> is awaited until all of its tasks have settled, where
  the call of the code settles at the rejection and its other tasks go on behind it. The number of sections \<open>conforms\<close> allows is an \<open>enat\<close>: a call of
  \<open>fetchBlocks\<close> on a chain takes at most 1 + 8 sections per round asked, and \<open>\<infinity>\<close> is no bound.

  \<^bold>\<open>Not modelled\<close>: re-exports, log output, the text of
  numbers that are not integers, and, of the functions that only pass arguments to node-core, the arguments
  no code here reads; the vendored package manager, the configuration objects of eslint, jest and babel, which
  have no behaviour of their own, the setup of the tests and the build step
  \<^verbatim>\<open>create-prerelease/remove-stable-version.js\<close>.
\<close>

end
